(* ===== verification/Hath_Prelude.thy ===== *)
theory Hath_Prelude
  imports
    Main
    "HOL-Library.Word"
    "HOL-Library.AList"
    "HOL-Library.Char_ord"
    "HOL-Library.List_Lexorder"
    "HOL-Library.Product_Lexorder"
begin

text \<open>
  What the components share: the machine integers of the Rust code as words, the checked and
  saturating operations of the standard library on them, and the string operations the program
  uses (\<^verbatim>\<open>split\<close>, \<^verbatim>\<open>split_once\<close>, \<^verbatim>\<open>lines\<close>, \<^verbatim>\<open>trim\<close>, \<^verbatim>\<open>parse\<close>, \<^verbatim>\<open>from_str_radix\<close>, decimal
  formatting), with the round trips between them.

  Rust strings are modelled by their bytes, as \<open>char list\<close>. The Unicode-aware operations of the
  standard library (\<^verbatim>\<open>to_lowercase\<close>, \<^verbatim>\<open>trim\<close>, \<^verbatim>\<open>split_whitespace\<close>) are written out for ASCII,
  the range of everything the protocol exchanges: file ids, settings, keys and paths. Arithmetic
  wraps around, as in the release profile the project ships (no \<^verbatim>\<open>overflow-checks\<close> in Cargo.toml).
\<close>

named_theorems hath_defs \<open>definitions of the checked and saturating operations\<close>
named_theorems str_simps \<open>rewrite rules for the string operations\<close>

subsection \<open>Machine integers\<close>

type_synonym u8 = "8 word"
type_synonym u16 = "16 word"
type_synonym u32 = "32 word"
type_synonym u64 = "64 word"
type_synonym bytes = "u8 list"

definition checked_add :: "'a::len word \<Rightarrow> 'a word \<Rightarrow> 'a word option" where
  "checked_add a b = (if unat a + unat b < 2 ^ LENGTH('a) then Some (a + b) else None)"

definition checked_sub :: "'a::len word \<Rightarrow> 'a word \<Rightarrow> 'a word option" where
  "checked_sub a b = (if b \<le> a then Some (a - b) else None)"

definition saturating_sub :: "'a::len word \<Rightarrow> 'a word \<Rightarrow> 'a word" where
  "saturating_sub a b = (if b \<le> a then a - b else 0)"

definition saturating_add :: "'a::len word \<Rightarrow> 'a word \<Rightarrow> 'a word" where
  "saturating_add a b = (if unat a + unat b < 2 ^ LENGTH('a) then a + b else - 1)"

text \<open>The two's complement reading of an \<^verbatim>\<open>i64\<close> result that is computed on unbounded integers.\<close>

definition i64_wrap :: "int \<Rightarrow> int" where
  "i64_wrap x = (x + 2 ^ 63) mod 2 ^ 64 - 2 ^ 63"

text \<open>\<^verbatim>\<open>i64::abs\<close> in the release profile: \<^verbatim>\<open>i64::MIN\<close> is its own absolute value.\<close>

definition i64_abs :: "int \<Rightarrow> int" where
  "i64_abs x = i64_wrap \<bar>x\<bar>"

definition is_i64 :: "int \<Rightarrow> bool" where
  "is_i64 x \<longleftrightarrow> - (2 ^ 63) \<le> x \<and> x < 2 ^ 63"

lemma checked_add_Some [simp]:
  "checked_add a b = Some c \<longleftrightarrow> unat (a::'a::len word) + unat b < 2 ^ LENGTH('a) \<and> c = a + b"
  by (auto simp: checked_add_def)

lemma checked_add_None [simp]:
  "checked_add a b = None \<longleftrightarrow> 2 ^ LENGTH('a) \<le> unat (a::'a::len word) + unat b"
  by (auto simp: checked_add_def)

lemma checked_sub_Some [simp]:
  "checked_sub a b = Some c \<longleftrightarrow> b \<le> a \<and> c = a - b"
  by (auto simp: checked_sub_def)

lemma checked_sub_None [simp]: "checked_sub a b = None \<longleftrightarrow> a < b"
  by (auto simp: checked_sub_def not_le)

lemma unat_add_fits:
  "unat (a::'a::len word) + unat b < 2 ^ LENGTH('a) \<Longrightarrow> unat (a + b) = unat a + unat b"
  by (simp add: unat_word_ariths)

lemma unat_sub_fits: "b \<le> a \<Longrightarrow> unat (a - b) = unat a - unat b"
  by (rule unat_sub)

lemma unat_saturating_sub: "unat (saturating_sub a b) = unat a - unat b"
  by (auto simp: saturating_sub_def unat_sub word_le_nat_alt)

lemma unat_max_word_eq [simp]: "unat (- 1 :: 'a::len word) = 2 ^ LENGTH('a) - 1"
  by transfer (simp add: take_bit_minus_one_eq_mask mask_eq_exp_minus_1 nat_diff_distrib nat_power_eq)

lemma unat_saturating_add:
  "unat (saturating_add a b) = min (unat (a::'a::len word) + unat b) (2 ^ LENGTH('a) - 1)"
  by (auto simp: saturating_add_def unat_add_fits unat_max_word_eq)

lemma unat_u8: "unat (b::u8) < 256"
  using unsigned_less [of b, where 'a = nat] by simp

lemma unat_u16: "unat (b::u16) < 65536"
  using unsigned_less [of b, where 'a = nat] by simp

lemma unat_u32: "unat (b::u32) < 4294967296"
  using unsigned_less [of b, where 'a = nat] by simp

lemma unat_u64: "unat (b::u64) < 18446744073709551616"
  using unsigned_less [of b, where 'a = nat] by simp

lemma unat_ucast_32_64 [simp]: "unat (ucast (w::u32) :: u64) = unat w"
  using unat_u32 [of w] by (simp add: unsigned_ucast_eq take_bit_nat_eq_self)

lemma saturating_sub_le: "saturating_sub a b \<le> a"
  by (simp add: word_le_nat_alt unat_saturating_sub)

lemma i64_wrap_id [simp]: "is_i64 x \<Longrightarrow> i64_wrap x = x"
  by (simp add: i64_wrap_def is_i64_def)

lemma is_i64_wrap [simp]: "is_i64 (i64_wrap x)"
proof -
  have "0 \<le> (x + 2 ^ 63) mod 2 ^ 64" "(x + 2 ^ 63) mod 2 ^ 64 < (2 ^ 64 :: int)"
    by simp_all
  then show ?thesis by (simp add: i64_wrap_def is_i64_def)
qed

lemma i64_abs_id: "is_i64 x \<Longrightarrow> x \<noteq> - (2 ^ 63) \<Longrightarrow> i64_abs x = \<bar>x\<bar>"
  unfolding i64_abs_def by (rule i64_wrap_id) (auto simp: is_i64_def)

lemma i64_abs_min: "i64_abs (- (2 ^ 63)) = - (2 ^ 63)"
  by (simp add: i64_abs_def i64_wrap_def)

subsection \<open>Characters\<close>

definition char_code :: "char \<Rightarrow> nat" where
  "char_code c = of_char c"

definition is_ascii :: "string \<Rightarrow> bool" where
  "is_ascii s \<longleftrightarrow> (\<forall>c \<in> set s. char_code c < 128)"

definition is_ascii_digit :: "char \<Rightarrow> bool" where
  "is_ascii_digit c \<longleftrightarrow> 48 \<le> char_code c \<and> char_code c \<le> 57"

definition is_ascii_lower :: "char \<Rightarrow> bool" where
  "is_ascii_lower c \<longleftrightarrow> 97 \<le> char_code c \<and> char_code c \<le> 122"

definition is_ascii_upper :: "char \<Rightarrow> bool" where
  "is_ascii_upper c \<longleftrightarrow> 65 \<le> char_code c \<and> char_code c \<le> 90"

definition is_ascii_alphanumeric :: "char \<Rightarrow> bool" where
  "is_ascii_alphanumeric c \<longleftrightarrow> is_ascii_digit c \<or> is_ascii_lower c \<or> is_ascii_upper c"

definition is_ascii_hexdigit :: "char \<Rightarrow> bool" where
  "is_ascii_hexdigit c \<longleftrightarrow> is_ascii_digit c \<or> (97 \<le> char_code c \<and> char_code c \<le> 102)
     \<or> (65 \<le> char_code c \<and> char_code c \<le> 70)"

text \<open>The regular expression class \<^verbatim>\<open>[a-f0-9]\<close>.\<close>

definition is_lower_hex :: "char \<Rightarrow> bool" where
  "is_lower_hex c \<longleftrightarrow> is_ascii_digit c \<or> (97 \<le> char_code c \<and> char_code c \<le> 102)"

definition is_whitespace :: "char \<Rightarrow> bool" where
  "is_whitespace c \<longleftrightarrow> (9 \<le> char_code c \<and> char_code c \<le> 13) \<or> char_code c = 32"

definition to_lower :: "char \<Rightarrow> char" where
  "to_lower c = (if is_ascii_upper c then char_of (char_code c + 32) else c)"

definition to_upper :: "char \<Rightarrow> char" where
  "to_upper c = (if is_ascii_lower c then char_of (char_code c - 32) else c)"

abbreviation to_lowercase :: "string \<Rightarrow> string" where
  "to_lowercase \<equiv> map to_lower"

abbreviation to_uppercase :: "string \<Rightarrow> string" where
  "to_uppercase \<equiv> map to_upper"

definition eq_ignore_ascii_case :: "string \<Rightarrow> string \<Rightarrow> bool" where
  "eq_ignore_ascii_case a b \<longleftrightarrow> to_lowercase a = to_lowercase b"

lemmas char_class_defs = is_ascii_digit_def is_ascii_lower_def is_ascii_upper_def
  is_ascii_alphanumeric_def is_ascii_hexdigit_def is_lower_hex_def is_whitespace_def

lemma char_code_lt [simp]: "char_code c < 256"
  by (simp add: char_code_def)

lemma char_code_inject [simp]: "char_code c = char_code d \<longleftrightarrow> c = d"
  by (simp add: char_code_def)

lemma char_code_char_of [simp]: "n < 256 \<Longrightarrow> char_code (char_of n) = n"
  by (simp add: char_code_def)

lemma char_of_char_code [simp]: "char_of (char_code c) = c"
  by (simp add: char_code_def)

lemma char_code_to_lower:
  "char_code (to_lower c) = (if is_ascii_upper c then char_code c + 32 else char_code c)"
  by (auto simp: to_lower_def is_ascii_upper_def)

lemma to_lower_idem [simp]: "to_lower (to_lower c) = to_lower c" "to_lower \<circ> to_lower = to_lower"
  by (auto simp: to_lower_def char_class_defs)

lemma lower_hex_is_hexdigit [simp]: "is_lower_hex c \<Longrightarrow> is_ascii_hexdigit c"
  by (auto simp: char_class_defs)

lemma to_lower_hex [simp]: "is_ascii_hexdigit c \<Longrightarrow> is_lower_hex (to_lower c)"
  by (auto simp: char_class_defs char_code_to_lower)

lemma to_lower_lower_hex [simp]: "is_lower_hex c \<Longrightarrow> to_lower c = c"
  by (auto simp: char_class_defs to_lower_def)

lemma to_lowercase_lower_hex [simp]: "\<forall>c \<in> set s. is_lower_hex c \<Longrightarrow> to_lowercase s = s"
  by (simp add: map_idI)

lemma lower_hex_not_dash [simp]: "is_lower_hex c \<Longrightarrow> c \<noteq> CHR ''-''"
  by (auto simp: char_class_defs char_code_def)

lemma digit_not_dash [simp]: "is_ascii_digit c \<Longrightarrow> c \<noteq> CHR ''-''"
  by (auto simp: char_class_defs char_code_def)

lemma dash_class [simp]: "\<not> is_lower_hex CHR ''-''" "\<not> is_ascii_digit CHR ''-''"
  by (simp_all add: char_class_defs char_code_def)

lemma digit_not_whitespace: "is_ascii_digit c \<Longrightarrow> \<not> is_whitespace c"
  by (auto simp: char_class_defs)

lemma alphanumeric_not_whitespace: "is_ascii_alphanumeric c \<Longrightarrow> \<not> is_whitespace c"
  by (auto simp: char_class_defs)

lemma update_key_mem: "(a, b) \<in> set (AList.update k v al) \<Longrightarrow> a = k \<or> a \<in> fst ` set al"
proof -
  assume "(a, b) \<in> set (AList.update k v al)"
  then have "a \<in> fst ` set (AList.update k v al)" by force
  then show ?thesis by (simp add: dom_update)
qed

subsection \<open>Splitting and trimming\<close>

text \<open>\<^verbatim>\<open>str::split\<close> on one character: at least one piece, empty pieces kept.\<close>

fun split_on :: "char \<Rightarrow> string \<Rightarrow> string list" where
  "split_on c [] = [[]]"
| "split_on c (x # xs) =
     (if x = c then [] # split_on c xs
      else (case split_on c xs of [] \<Rightarrow> [[x]] | y # ys \<Rightarrow> (x # y) # ys))"

text \<open>\<^verbatim>\<open>str::split_once\<close> on one character.\<close>

definition split_once :: "char \<Rightarrow> string \<Rightarrow> (string \<times> string) option" where
  "split_once c s =
     (case dropWhile (\<lambda>x. x \<noteq> c) s of
        [] \<Rightarrow> None
      | _ # rest \<Rightarrow> Some (takeWhile (\<lambda>x. x \<noteq> c) s, rest))"

definition trim_start :: "string \<Rightarrow> string" where
  "trim_start s = dropWhile is_whitespace s"

definition trim_end :: "string \<Rightarrow> string" where
  "trim_end s = rev (dropWhile is_whitespace (rev s))"

definition trim :: "string \<Rightarrow> string" where
  "trim s = trim_end (trim_start s)"

definition starts_with :: "string \<Rightarrow> string \<Rightarrow> bool" where
  "starts_with p s \<longleftrightarrow> take (length p) s = p"

abbreviation LF :: char where "LF \<equiv> CHR 0x0A"
abbreviation CR :: char where "CR \<equiv> CHR 0x0D"

definition strip_cr :: "string \<Rightarrow> string" where
  "strip_cr s = (if s \<noteq> [] \<and> last s = CR then butlast s else s)"

text \<open>\<^verbatim>\<open>str::lines\<close>: a terminated line loses one carriage return, a final empty piece is no line.\<close>

definition lines :: "string \<Rightarrow> string list" where
  "lines s = (let ps = split_on LF s
     in map strip_cr (butlast ps) @ (if last ps = [] then [] else [last ps]))"

text \<open>\<^verbatim>\<open>slice::join\<close> with a separator.\<close>

fun join_with :: "string \<Rightarrow> string list \<Rightarrow> string" where
  "join_with sep [] = []"
| "join_with sep [x] = x"
| "join_with sep (x # y # ys) = x @ sep @ join_with sep (y # ys)"

lemma drop_prefix_shorter:
  "pat \<noteq> [] \<Longrightarrow> starts_with pat s \<Longrightarrow> length (drop (length pat) s) < length s"
  by (cases s) (auto simp: starts_with_def)

text \<open>\<^verbatim>\<open>str::replace\<close> of a non-empty pattern, left to right without overlap.\<close>

function replace_all :: "string \<Rightarrow> string \<Rightarrow> string \<Rightarrow> string" where
  "replace_all pat rep s =
     (if pat \<noteq> [] \<and> starts_with pat s then rep @ replace_all pat rep (drop (length pat) s)
      else (case s of [] \<Rightarrow> [] | c # cs \<Rightarrow> c # replace_all pat rep cs))"
  by pat_completeness auto
termination
  by (relation "measure (\<lambda>(pat, rep, s). length s)") (use drop_prefix_shorter in auto)

declare replace_all.simps [simp del]

lemma split_on_nonempty [simp]: "split_on c s \<noteq> []"
  by (cases s) (auto split: list.splits)

lemma split_on_no_sep [simp]: "c \<notin> set s \<Longrightarrow> split_on c s = [s]"
  by (induction s) auto

lemma split_on_append_sep [str_simps]:
  "c \<notin> set a \<Longrightarrow> split_on c (a @ c # b) = a # split_on c b"
  by (induction a) auto

lemma split_on_concat: "join_with [c] (split_on c s) = s"
proof (induction s)
  case Nil
  then show ?case by simp
next
  case (Cons x xs)
  obtain y ys where sp: "split_on c xs = y # ys"
    by (meson neq_Nil_conv split_on_nonempty)
  show ?case
    using Cons.IH sp by (cases ys) auto
qed

lemma split_on_pieces: "p \<in> set (split_on c s) \<Longrightarrow> c \<notin> set p"
  by (induction s arbitrary: p) (fastforce split: if_splits list.splits)+

lemma split_on_join:
  "xs \<noteq> [] \<Longrightarrow> \<forall>x \<in> set xs. c \<notin> set x \<Longrightarrow> split_on c (join_with [c] xs) = xs"
  by (induction "[c]" xs rule: join_with.induct) (auto simp: str_simps)

lemma split_once_None [simp]: "c \<notin> set s \<Longrightarrow> split_once c s = None"
proof -
  assume "c \<notin> set s"
  then have "dropWhile (\<lambda>x. x \<noteq> c) s = []" by auto
  then show ?thesis unfolding split_once_def by (simp only: list.case)
qed

lemma split_once_append [str_simps]:
  "c \<notin> set a \<Longrightarrow> split_once c (a @ c # b) = Some (a, b)"
proof -
  assume "c \<notin> set a"
  then have "\<And>x. x \<in> set a \<Longrightarrow> x \<noteq> c" by auto
  then show ?thesis by (simp add: split_once_def takeWhile_append2 dropWhile_append2)
qed

lemma split_once_Some: "split_once c s = Some (a, b) \<longleftrightarrow> s = a @ c # b \<and> c \<notin> set a"
proof
  assume "split_once c s = Some (a, b)"
  then obtain y where d: "dropWhile (\<lambda>x. x \<noteq> c) s = y # b" and a: "a = takeWhile (\<lambda>x. x \<noteq> c) s"
    by (auto simp: split_once_def split: list.splits)
  have "y = c" using d by (metis (full_types) dropWhile_eq_Cons_conv)
  with a d have "s = a @ c # b" by (metis takeWhile_dropWhile_id)
  moreover have "c \<notin> set a" using a by (auto dest: set_takeWhileD)
  ultimately show "s = a @ c # b \<and> c \<notin> set a" by simp
qed (auto simp: str_simps)

lemma lines_join:
  assumes "xs \<noteq> []" "\<forall>x \<in> set xs. LF \<notin> set x \<and> CR \<notin> set x" "last xs \<noteq> []"
  shows "lines (join_with [LF] xs) = xs"
proof -
  have "map strip_cr (butlast xs) = butlast xs"
    using assms(2) by (intro map_idI) (auto simp: strip_cr_def dest!: in_set_butlastD last_in_set)
  moreover have "split_on LF (join_with [LF] xs) = xs"
    using assms(1,2) by (intro split_on_join) auto
  ultimately show ?thesis using assms(1,3) by (simp add: lines_def Let_def)
qed

lemma trim_id:
  assumes "s = [] \<or> (\<not> is_whitespace (hd s) \<and> \<not> is_whitespace (last s))"
  shows "trim s = s"
proof (cases "s = []")
  case False
  then have "dropWhile is_whitespace s = s" using assms by (cases s) auto
  moreover have "dropWhile is_whitespace (rev s) = rev s"
    using assms False by (cases s rule: rev_cases) auto
  ultimately show ?thesis by (simp add: trim_def trim_start_def trim_end_def)
qed (simp add: trim_def trim_start_def trim_end_def)

lemma trim_no_whitespace: "\<forall>c \<in> set s. \<not> is_whitespace c \<Longrightarrow> trim s = s"
  by (rule trim_id) (cases s; auto)

lemma starts_with_iff: "starts_with p s \<longleftrightarrow> (\<exists>z. s = p @ z)"
proof
  assume "starts_with p s"
  then have "s = p @ drop (length p) s" unfolding starts_with_def by (metis append_take_drop_id)
  then show "\<exists>z. s = p @ z" by blast
qed (auto simp: starts_with_def)

lemma starts_with_append [simp]: "starts_with p (p @ s)"
  by (simp add: starts_with_def)

subsection \<open>Numbers in text\<close>

definition digit_val :: "nat \<Rightarrow> char \<Rightarrow> nat option" where
  "digit_val radix c =
     (let v = (if is_ascii_digit c then char_code c - 48
               else if is_ascii_lower c then char_code c - 87
               else if is_ascii_upper c then char_code c - 55 else radix)
      in if v < radix then Some v else None)"

fun digits_val :: "nat \<Rightarrow> nat \<Rightarrow> string \<Rightarrow> nat option" where
  "digits_val radix acc [] = Some acc"
| "digits_val radix acc (c # cs) =
     (case digit_val radix c of None \<Rightarrow> None | Some d \<Rightarrow> digits_val radix (acc * radix + d) cs)"

text \<open>
  \<^verbatim>\<open>from_str_radix\<close> of an unsigned type whose largest value is \<open>maxv\<close>: an optional plus sign, at
  least one digit, no overflow. \<^verbatim>\<open>str::parse\<close> is the case of radix ten.
\<close>

definition from_str_radix :: "nat \<Rightarrow> nat \<Rightarrow> string \<Rightarrow> nat option" where
  "from_str_radix radix maxv s =
     (let ds = (case s of [] \<Rightarrow> [] | c # cs \<Rightarrow> if c = CHR ''+'' then cs else s)
      in if ds = [] then None
         else (case digits_val radix 0 ds of
                 None \<Rightarrow> None
               | Some v \<Rightarrow> if v \<le> maxv then Some v else None))"

definition parse_uint :: "nat \<Rightarrow> string \<Rightarrow> nat option" where
  "parse_uint maxv s = from_str_radix 10 maxv s"

definition parse_word :: "string \<Rightarrow> 'a::len word option" where
  "parse_word s = map_option of_nat (parse_uint (2 ^ LENGTH('a) - 1) s)"

text \<open>\<^verbatim>\<open>str::parse::<i64>\<close>.\<close>

definition parse_i64 :: "string \<Rightarrow> int option" where
  "parse_i64 s =
     (case s of
        [] \<Rightarrow> None
      | c # cs \<Rightarrow>
          if c = CHR ''-'' then
            (if cs = [] then None
             else case digits_val 10 0 cs of
                    None \<Rightarrow> None
                  | Some v \<Rightarrow> if v \<le> 2 ^ 63 then Some (- int v) else None)
          else map_option int (parse_uint (2 ^ 63 - 1) s))"

text \<open>Decimal formatting, \<^verbatim>\<open>{}\<close> of an unsigned and of a signed number.\<close>

definition digit_char :: "nat \<Rightarrow> char" where
  "digit_char d = char_of (48 + d)"

fun show_nat :: "nat \<Rightarrow> string" where
  "show_nat n = (if n < 10 then [digit_char n] else show_nat (n div 10) @ [digit_char (n mod 10)])"

declare show_nat.simps [simp del]

definition show_int :: "int \<Rightarrow> string" where
  "show_int i = (if i < 0 then CHR ''-'' # show_nat (nat (- i)) else show_nat (nat i))"

abbreviation show_word :: "'a::len word \<Rightarrow> string" where
  "show_word w \<equiv> show_nat (unat w)"

lemma digit_char_code [simp]: "d < 10 \<Longrightarrow> char_code (digit_char d) = 48 + d"
  by (simp add: digit_char_def)

lemma digit_char_table [simp]:
  "digit_char 0 = CHR ''0''" "digit_char (Suc 0) = CHR ''1''" "digit_char 1 = CHR ''1''"
  "digit_char 2 = CHR ''2''" "digit_char 3 = CHR ''3''" "digit_char 4 = CHR ''4''"
  "digit_char 5 = CHR ''5''" "digit_char 6 = CHR ''6''" "digit_char 7 = CHR ''7''"
  "digit_char 8 = CHR ''8''" "digit_char 9 = CHR ''9''"
  by (simp_all add: digit_char_def char_of_def bit_0)

lemma digit_char_digit [simp]: "d < 10 \<Longrightarrow> is_ascii_digit (digit_char d)"
  by (simp add: is_ascii_digit_def)

lemma digit_val_digit_char [simp]: "d < 10 \<Longrightarrow> digit_val 10 (digit_char d) = Some d"
  by (simp add: digit_val_def)

lemma digit_val_less: "digit_val radix c = Some d \<Longrightarrow> d < radix"
  by (auto simp: digit_val_def Let_def split: if_splits)

lemma digit_val_ascii_digit:
  "is_ascii_digit c \<Longrightarrow> digit_val 10 c = Some (char_code c - 48)"
  by (auto simp: digit_val_def is_ascii_digit_def Let_def)

lemma digits_val_append:
  "digits_val radix acc (a @ b) =
     (case digits_val radix acc a of None \<Rightarrow> None | Some v \<Rightarrow> digits_val radix v b)"
  by (induction a arbitrary: acc) (auto split: option.splits)

lemma digits_val_bound:
  "digits_val radix acc s = Some v \<Longrightarrow> v < (acc + 1) * radix ^ length s"
proof (induction s arbitrary: acc)
  case Nil
  then show ?case by simp
next
  case (Cons c s)
  then obtain d where d: "digit_val radix c = Some d"
    and v: "digits_val radix (acc * radix + d) s = Some v"
    by (auto split: option.splits)
  have "v < (acc * radix + d + 1) * radix ^ length s" by (rule Cons.IH [OF v])
  also have "\<dots> \<le> ((acc + 1) * radix) * radix ^ length s"
    using digit_val_less [OF d] by (intro mult_right_mono) auto
  finally show ?case by (simp add: algebra_simps)
qed

lemma digits_val_digits:
  "\<forall>c \<in> set s. is_ascii_digit c \<Longrightarrow> \<exists>v. digits_val 10 acc s = Some v"
  by (induction s arbitrary: acc) (auto simp: digit_val_ascii_digit)

lemma show_nat_digits: "\<forall>c \<in> set (show_nat n). is_ascii_digit c"
proof (induction n rule: show_nat.induct)
  case (1 n)
  then show ?case by (cases "n < 10") (auto simp: show_nat.simps [of n])
qed

lemma show_nat_nonempty [simp]: "show_nat n \<noteq> []"
  by (subst show_nat.simps) simp

lemma digits_val_show_nat: "digits_val 10 0 (show_nat n) = Some n"
proof (induction n rule: show_nat.induct)
  case (1 n)
  then show ?case
    by (cases "n < 10") (auto simp: show_nat.simps [of n] digits_val_append)
qed

lemma show_nat_inject [simp]: "show_nat a = show_nat b \<longleftrightarrow> a = b"
proof
  assume "show_nat a = show_nat b"
  then have "Some a = Some b" unfolding digits_val_show_nat [symmetric] by (rule arg_cong)
  then show "a = b" by simp
qed simp

lemma show_nat_hd: "is_ascii_digit (hd (show_nat n))"
  using show_nat_digits hd_in_set show_nat_nonempty by blast

lemma ascii_digit_not_plus [simp]: "is_ascii_digit c \<Longrightarrow> c \<noteq> CHR ''+''"
  by (auto simp: char_class_defs char_code_def)

lemma from_str_radix_le: "from_str_radix radix maxv s = Some v \<Longrightarrow> v \<le> maxv"
  by (auto simp: from_str_radix_def Let_def split: if_splits option.splits list.splits)

lemma from_str_radix_bound:
  assumes "from_str_radix radix maxv s = Some v" "0 < radix"
  shows "v < radix ^ length s"
proof -
  define ds where "ds = (case s of [] \<Rightarrow> [] | c # cs \<Rightarrow> if c = CHR ''+'' then cs else s)"
  have "digits_val radix 0 ds = Some v"
    using assms(1) by (auto simp: from_str_radix_def ds_def [symmetric] Let_def
        split: if_splits option.splits)
  then have "v < radix ^ length ds" using digits_val_bound by fastforce
  also have "\<dots> \<le> radix ^ length s"
    using assms(2) by (intro power_increasing) (auto simp: ds_def split: list.splits)
  finally show ?thesis .
qed

text \<open>A string of digits only: what \<^verbatim>\<open>parse\<close> computes is the digits' value, if it fits.\<close>

lemma parse_uint_digits:
  assumes "s \<noteq> []" "\<forall>c \<in> set s. is_ascii_digit c"
  shows "parse_uint maxv s =
    (if the (digits_val 10 0 s) \<le> maxv then digits_val 10 0 s else None)"
proof -
  obtain v where "digits_val 10 0 s = Some v" using assms(2) digits_val_digits by blast
  moreover have "(case s of [] \<Rightarrow> [] | c # cs \<Rightarrow> if c = CHR ''+'' then cs else s) = s"
    using assms by (cases s) auto
  ultimately show ?thesis using assms(1) by (simp add: parse_uint_def from_str_radix_def)
qed

lemma parse_uint_show_nat [simp]: "parse_uint maxv (show_nat n) = (if n \<le> maxv then Some n else None)"
  using parse_uint_digits [of "show_nat n" maxv] by (simp add: show_nat_digits digits_val_show_nat)

lemma parse_word_show_word [simp]: "parse_word (show_word (w::'a::len word)) = Some w"
proof -
  have "unat w < 2 ^ LENGTH('a)" by simp
  then have "unat w \<le> 2 ^ LENGTH('a) - 1" by linarith
  then show ?thesis by (simp add: parse_word_def)
qed

lemma parse_word_digits_fit:
  assumes "s \<noteq> []" "\<forall>c \<in> set s. is_ascii_digit c" "10 ^ length s \<le> (2::nat) ^ LENGTH('a::len)"
  shows "\<exists>w::'a word. parse_word s = Some w \<and> unat w = the (digits_val 10 0 s)"
proof -
  obtain v where v: "digits_val 10 0 s = Some v" using assms(2) digits_val_digits by blast
  have "v < 10 ^ length s" using digits_val_bound [OF v] by simp
  with assms(3) have "v < 2 ^ LENGTH('a)" by linarith
  then show ?thesis using parse_uint_digits [OF assms(1,2)] v
    by (simp add: parse_word_def unat_of_nat take_bit_nat_eq_self)
qed

lemma parse_i64_show_int: "is_i64 i \<Longrightarrow> parse_i64 (show_int i) = Some i"
proof (cases "i < 0")
  case True
  assume "is_i64 i"
  with True show ?thesis
    by (auto simp: show_int_def parse_i64_def digits_val_show_nat is_i64_def)
next
  case False
  assume "is_i64 i"
  obtain c cs where c: "show_nat (nat i) = c # cs" by (meson neq_Nil_conv show_nat_nonempty)
  have "is_ascii_digit c" using show_nat_hd [of "nat i"] c by simp
  then have "c \<noteq> CHR ''-''" by simp
  moreover have "parse_uint (2 ^ 63 - 1) (c # cs) = Some (nat i)"
    unfolding c [symmetric] using \<open>is_i64 i\<close> False by (simp add: is_i64_def)
  ultimately show ?thesis using False c by (simp add: show_int_def parse_i64_def)
qed

lemma parse_i64_is_i64: "parse_i64 s = Some i \<Longrightarrow> is_i64 i"
  by (auto simp: parse_i64_def parse_uint_def is_i64_def dest!: from_str_radix_le
      split: list.splits if_splits option.splits)

text \<open>A document of terminated lines is read back line by line.\<close>

lemma lines_of_terminated:
  assumes "\<forall>l \<in> set ls. LF \<notin> set l \<and> (l = [] \<or> last l \<noteq> CR)"
  shows "lines (concat (map (\<lambda>l. l @ [LF]) ls)) = ls"
proof -
  have "split_on LF (concat (map (\<lambda>l. l @ [LF]) ls)) = ls @ [[]]"
    using assms by (induction ls) (auto simp: str_simps)
  moreover have "map strip_cr ls = ls"
    using assms by (intro map_idI) (auto simp: strip_cr_def)
  ultimately show ?thesis by (simp add: lines_def)
qed

subsection \<open>Machines with an invariant\<close>

text \<open>
  The contract every stateful component meets: its steps keep its invariant, so whole runs do.
\<close>

locale invariant_machine =
  fixes step :: "'s \<Rightarrow> 'e \<Rightarrow> 's"
    and inv :: "'s \<Rightarrow> bool"
  assumes step_inv: "inv s \<Longrightarrow> inv (step s e)"
begin

lemma run_inv: "inv s \<Longrightarrow> inv (foldl step s es)"
  by (induction es arbitrary: s) (auto intro: step_inv)

lemma run_prefix_inv: "inv s \<Longrightarrow> inv (foldl step s (take n es))"
  by (rule run_inv)

end

text \<open>
  The same for steps that can panic (\<open>None\<close>): where every step from a good state returns a good
  state, no run panics.
\<close>

primrec run_opt :: "('s \<Rightarrow> 'e \<Rightarrow> 's option) \<Rightarrow> 's \<Rightarrow> 'e list \<Rightarrow> 's option" where
  "run_opt step s [] = Some s"
| "run_opt step s (e # es) = (case step s e of None \<Rightarrow> None | Some s' \<Rightarrow> run_opt step s' es)"

locale panic_free_machine =
  fixes step :: "'s \<Rightarrow> 'e \<Rightarrow> 's option"
    and inv :: "'s \<Rightarrow> bool"
  assumes step_some: "inv s \<Longrightarrow> \<exists>s'. step s e = Some s' \<and> inv s'"
begin

lemma run_some: "inv s \<Longrightarrow> \<exists>s'. run_opt step s es = Some s' \<and> inv s'"
proof (induction es arbitrary: s)
  case (Cons e es)
  then show ?case using step_some [of s e] by auto
qed simp

end

sublocale panic_free_machine \<subseteq> total: invariant_machine
    "\<lambda>s e. case step s e of None \<Rightarrow> s | Some s' \<Rightarrow> s'" inv
proof
  fix s e
  assume "inv s"
  then show "inv (case step s e of None \<Rightarrow> s | Some s' \<Rightarrow> s')" using step_some [of s e] by auto
qed

end
