(* ===== verification/Hath_Stats.thy ===== *)
theory Hath_Stats
  imports Hath_Prelude
begin

text \<open>
  The counters of \<^verbatim>\<open>src/src/stats.rs\<close>. Atomics are fields of a record; \<^verbatim>\<open>fetch_add\<close> wraps. The start
  instant is a time in seconds since some origin; the average rate, a floating point quotient, is
  not modelled.
\<close>

definition HISTORY_LEN :: nat where
  "HISTORY_LEN = 361"

record Stats =
  st_client_running :: bool
  st_client_suspended :: bool
  st_program_start_time :: "nat option"
  st_last_server_contact :: int
  st_files_sent :: u64
  st_files_rcvd :: u64
  st_bytes_sent :: u64
  st_bytes_rcvd :: u64
  st_cache_count :: u32
  st_cache_size :: u64
  st_open_connections :: u32
  st_gui_enabled :: bool
  st_bytes_sent_history :: "u64 list"

definition Stats_new :: Stats where
  "Stats_new = \<lparr>st_client_running = False, st_client_suspended = False, st_program_start_time = None,
     st_last_server_contact = 0, st_files_sent = 0, st_files_rcvd = 0, st_bytes_sent = 0,
     st_bytes_rcvd = 0, st_cache_count = 0, st_cache_size = 0, st_open_connections = 0,
     st_gui_enabled = False, st_bytes_sent_history = replicate HISTORY_LEN 0\<rparr>"

definition enable_gui :: "Stats \<Rightarrow> Stats" where
  "enable_gui s = s\<lparr>st_gui_enabled := True\<rparr>"

definition program_started :: "nat \<Rightarrow> Stats \<Rightarrow> Stats" where
  "program_started now s = s\<lparr>st_program_start_time := Some now, st_client_running := True\<rparr>"

definition record_server_contact :: "int \<Rightarrow> Stats \<Rightarrow> Stats" where
  "record_server_contact now s = s\<lparr>st_last_server_contact := now\<rparr>"

definition record_file_sent :: "Stats \<Rightarrow> Stats" where
  "record_file_sent s = s\<lparr>st_files_sent := st_files_sent s + 1\<rparr>"

definition record_file_rcvd :: "Stats \<Rightarrow> Stats" where
  "record_file_rcvd s = s\<lparr>st_files_rcvd := st_files_rcvd s + 1\<rparr>"

definition record_bytes_sent :: "u64 \<Rightarrow> Stats \<Rightarrow> Stats" where
  "record_bytes_sent n s =
     (let s1 = s\<lparr>st_bytes_sent := st_bytes_sent s + n\<rparr> in
      if st_client_running s1 \<and> st_gui_enabled s1
      then s1\<lparr>st_bytes_sent_history := (st_bytes_sent_history s1)[0 := st_bytes_sent_history s1 ! 0 + n]\<rparr>
      else s1)"

definition record_bytes_rcvd :: "u64 \<Rightarrow> Stats \<Rightarrow> Stats" where
  "record_bytes_rcvd n s = s\<lparr>st_bytes_rcvd := st_bytes_rcvd s + n\<rparr>"

definition set_open_connections :: "u32 \<Rightarrow> Stats \<Rightarrow> Stats" where
  "set_open_connections n s = s\<lparr>st_open_connections := n\<rparr>"

definition set_cache_count :: "u32 \<Rightarrow> Stats \<Rightarrow> Stats" where
  "set_cache_count n s = s\<lparr>st_cache_count := n\<rparr>"

definition set_cache_size :: "u64 \<Rightarrow> Stats \<Rightarrow> Stats" where
  "set_cache_size n s = s\<lparr>st_cache_size := n\<rparr>"

definition shift_bytes_sent_history :: "Stats \<Rightarrow> Stats" where
  "shift_bytes_sent_history s =
     (if \<not> st_gui_enabled s then s
      else s\<lparr>st_bytes_sent_history := 0 # take (HISTORY_LEN - 1) (st_bytes_sent_history s)\<rparr>)"

datatype stat_op = EnableGui | Started nat | Contact int | FileSent | FileRcvd | BytesSent u64
  | BytesRcvd u64 | OpenConns u32 | CacheCount u32 | CacheSize u64 | Shift

definition stats_step :: "Stats \<Rightarrow> stat_op \<Rightarrow> Stats" where
  "stats_step s a =
     (case a of EnableGui \<Rightarrow> enable_gui s | Started n \<Rightarrow> program_started n s
      | Contact t \<Rightarrow> record_server_contact t s | FileSent \<Rightarrow> record_file_sent s
      | FileRcvd \<Rightarrow> record_file_rcvd s | BytesSent n \<Rightarrow> record_bytes_sent n s
      | BytesRcvd n \<Rightarrow> record_bytes_rcvd n s | OpenConns n \<Rightarrow> set_open_connections n s
      | CacheCount n \<Rightarrow> set_cache_count n s | CacheSize n \<Rightarrow> set_cache_size n s
      | Shift \<Rightarrow> shift_bytes_sent_history s)"

lemmas stats_defs = enable_gui_def program_started_def record_server_contact_def record_file_sent_def
  record_file_rcvd_def record_bytes_sent_def record_bytes_rcvd_def set_open_connections_def
  set_cache_count_def set_cache_size_def shift_bytes_sent_history_def

text \<open>The history keeps its length, so the index expressions stay in range.\<close>

definition stats_inv :: "Stats \<Rightarrow> bool" where
  "stats_inv s \<longleftrightarrow> length (st_bytes_sent_history s) = HISTORY_LEN"

interpretation stats: invariant_machine stats_step stats_inv
  by unfold_locales (auto simp: stats_step_def stats_defs stats_inv_def HISTORY_LEN_def Let_def split: stat_op.split)

lemma stats_inv_new: "stats_inv Stats_new"
  by (simp add: stats_inv_def Stats_new_def)

definition bytes_of :: "stat_op list \<Rightarrow> u64" where
  "bytes_of ops = sum_list (map (\<lambda>a. case a of BytesSent n \<Rightarrow> n | _ \<Rightarrow> 0) ops)"

lemma stats_run_bytes: "st_bytes_sent (foldl stats_step s ops) = st_bytes_sent s + bytes_of ops"
  by (induction ops arbitrary: s)
    (auto simp: bytes_of_def stats_step_def stats_defs Let_def split: stat_op.split)

text \<open>
  for any sequence of recorded events the sent-bytes counter is the sum of the reported bytes
  modulo \<open>2 ^ 64\<close>, and the bandwidth history keeps its 361 entries, so its fixed index is in range.
\<close>

theorem stats_counters:
  "st_bytes_sent (foldl stats_step Stats_new ops) = bytes_of ops
   \<and> length (st_bytes_sent_history (foldl stats_step Stats_new ops)) = HISTORY_LEN"
  using stats.run_inv [OF stats_inv_new, of ops] stats_run_bytes [of Stats_new ops]
  by (simp add: stats_inv_def Stats_new_def)

end
