(* ===== verification/Hath_Types.thy ===== *)
theory Hath_Types
  imports Hath_Prelude
begin

text \<open>
  The value types of \<^verbatim>\<open>src/src/types.rs\<close>: SHA-1 hashes, static ranges, file ids, the client's
  credentials and the file types with their extension and MIME tables.
\<close>

datatype Sha1Hash = Sha1Hash (sha1_str: string)
datatype StaticRange = StaticRange (range_str: string)
datatype FileId = FileId (fileid_str: string)
datatype ClientId = ClientId (client_id_val: u32)
datatype ClientKey = ClientKey (key_str: string)

definition Sha1Hash_new :: "string \<Rightarrow> Sha1Hash option" where
  "Sha1Hash_new s =
     (if length s = 40 \<and> list_all is_ascii_hexdigit s then Some (Sha1Hash (to_lowercase s)) else None)"

definition Sha1Hash_static_range :: "Sha1Hash \<Rightarrow> StaticRange" where
  "Sha1Hash_static_range h = StaticRange (take 4 (sha1_str h))"

definition l1_dir :: "Sha1Hash \<Rightarrow> string" where
  "l1_dir h = take 2 (sha1_str h)"

definition l2_dir :: "Sha1Hash \<Rightarrow> string" where
  "l2_dir h = take 2 (drop 2 (sha1_str h))"

definition ClientKey_new :: "string \<Rightarrow> ClientKey option" where
  "ClientKey_new s =
     (if length s = 20 \<and> list_all is_ascii_alphanumeric s then Some (ClientKey s) else None)"

datatype FileType = Jpeg | Png | Gif | Mp4 | Webm | Webp | Avif | Jxl | Other string

definition from_ext :: "string \<Rightarrow> FileType" where
  "from_ext ext = (let e = to_lowercase ext in
     if e = ''jpg'' \<or> e = ''jpeg'' then Jpeg
     else if e = ''png'' then Png
     else if e = ''gif'' then Gif
     else if e = ''mp4'' then Mp4
     else if e = ''wbm'' \<or> e = ''webm'' then Webm
     else if e = ''wbp'' \<or> e = ''webp'' then Webp
     else if e = ''avf'' \<or> e = ''avif'' then Avif
     else if e = ''jxl'' then Jxl
     else Other e)"

fun as_mime :: "FileType \<Rightarrow> string" where
  "as_mime Jpeg = ''image/jpeg''"
| "as_mime Png = ''image/png''"
| "as_mime Gif = ''image/gif''"
| "as_mime Mp4 = ''video/mp4''"
| "as_mime Webm = ''video/webm''"
| "as_mime Webp = ''image/webp''"
| "as_mime Avif = ''image/avif''"
| "as_mime Jxl = ''image/jxl''"
| "as_mime (Other _) = ''application/octet-stream''"

fun as_ext :: "FileType \<Rightarrow> string" where
  "as_ext Jpeg = ''jpg''"
| "as_ext Png = ''png''"
| "as_ext Gif = ''gif''"
| "as_ext Mp4 = ''mp4''"
| "as_ext Webm = ''wbm''"
| "as_ext Webp = ''wbp''"
| "as_ext Avif = ''avf''"
| "as_ext Jxl = ''jxl''"
| "as_ext (Other s) = s"

subsection \<open>Well-formedness\<close>

definition sha1_wf :: "Sha1Hash \<Rightarrow> bool" where
  "sha1_wf h \<longleftrightarrow> length (sha1_str h) = 40 \<and> list_all is_lower_hex (sha1_str h)"

lemma Sha1Hash_new_wf: "Sha1Hash_new s = Some h \<Longrightarrow> sha1_wf h"
  by (auto simp: Sha1Hash_new_def sha1_wf_def list_all_iff split: if_splits)

lemma Sha1Hash_new_canonical: "sha1_wf h \<Longrightarrow> Sha1Hash_new (sha1_str h) = Some h"
  by (cases h) (auto simp: Sha1Hash_new_def sha1_wf_def list_all_iff)

lemma Sha1Hash_dirs_range: "l1_dir h @ l2_dir h = range_str (Sha1Hash_static_range h)"
  using take_add [where i = 2 and j = 2 and xs = "sha1_str h"]
  by (simp add: l1_dir_def l2_dir_def Sha1Hash_static_range_def)

lemma from_ext_table [simp]:
  "from_ext ''jpg'' = Jpeg" "from_ext ''png'' = Png" "from_ext ''gif'' = Gif"
  "from_ext ''mp4'' = Mp4" "from_ext ''wbm'' = Webm" "from_ext ''wbp'' = Webp"
  "from_ext ''avf'' = Avif" "from_ext ''jxl'' = Jxl"
  by (simp_all add: from_ext_def to_lower_def is_ascii_upper_def char_code_def)

lemma from_ext_lowercase: "from_ext (to_lowercase e) = from_ext e"
  by (simp add: from_ext_def)

lemma from_ext_Other: "from_ext e = Other s \<Longrightarrow> s = to_lowercase e"
  by (simp add: from_ext_def Let_def split: if_splits)

lemma from_ext_as_ext: "from_ext (as_ext (from_ext e)) = from_ext e"
proof (cases "from_ext e")
  case (Other s)
  then show ?thesis using from_ext_Other [OF Other] from_ext_lowercase [of e] by simp
qed simp_all

end
