(* ===== verification/Hath_File.thy ===== *)
theory Hath_File
  imports Hath_Types
begin

text \<open>
  File ids, \<^verbatim>\<open>src/src/hvfile.rs\<close>: the two regular expressions, the parser that turns an id into an
  \<^verbatim>\<open>HVFile\<close>, the canonical id it stores, and the path of the file inside the cache directory.
  The two patterns are anchored, and no piece of them matches a dash, so a match is a check of
  the dash-separated pieces; \<open>FILEID_WITH_RES_iff\<close> gives the pattern as written.
\<close>

type_synonym path = "string list"

record HVFile =
  hv_hash :: Sha1Hash
  hv_size :: u32
  hv_xres :: u32
  hv_yres :: u32
  hv_file_type :: FileType
  fileid_cache :: FileId

definition fileid_exts :: "string list" where
  "fileid_exts = [''jpg'', ''png'', ''gif'', ''mp4'', ''wbm'', ''wbp'', ''avf'', ''jxl'']"

text \<open>\<^verbatim>\<open>[a-f0-9]{40}\<close> and \<^verbatim>\<open>\d{1,n}\<close>.\<close>

definition re_hash40 :: "string \<Rightarrow> bool" where
  "re_hash40 s \<longleftrightarrow> length s = 40 \<and> list_all is_lower_hex s"

definition re_digits :: "nat \<Rightarrow> string \<Rightarrow> bool" where
  "re_digits n s \<longleftrightarrow> 1 \<le> length s \<and> length s \<le> n \<and> list_all is_ascii_digit s"

definition FILEID_WITH_RES :: "string \<Rightarrow> bool" where
  "FILEID_WITH_RES s \<longleftrightarrow>
     (case split_on CHR ''-'' s of
        [h, a, b, c, e] \<Rightarrow> re_hash40 h \<and> re_digits 10 a \<and> re_digits 5 b \<and> re_digits 5 c
          \<and> e \<in> set fileid_exts
      | _ \<Rightarrow> False)"

definition FILEID_WITHOUT_RES :: "string \<Rightarrow> bool" where
  "FILEID_WITHOUT_RES s \<longleftrightarrow>
     (case split_on CHR ''-'' s of
        [h, a, e] \<Rightarrow> re_hash40 h \<and> re_digits 10 a \<and> e \<in> set fileid_exts
      | _ \<Rightarrow> False)"

definition is_valid_fileid :: "string \<Rightarrow> bool" where
  "is_valid_fileid s \<longleftrightarrow> FILEID_WITH_RES s \<or> FILEID_WITHOUT_RES s"

definition make_fileid :: "Sha1Hash \<Rightarrow> u32 \<Rightarrow> u32 \<Rightarrow> u32 \<Rightarrow> FileType \<Rightarrow> FileId" where
  "make_fileid h sz x y t =
     (if x > 0
      then FileId (sha1_str h @ ''-'' @ show_word sz @ ''-'' @ show_word x @ ''-'' @ show_word y
             @ ''-'' @ as_ext t)
      else FileId (sha1_str h @ ''-'' @ show_word sz @ ''-'' @ as_ext t))"

text \<open>The index expressions \<^verbatim>\<open>parts[i]\<close> are in range once the id is valid; the last case is unreachable.\<close>

definition from_fileid :: "string \<Rightarrow> HVFile option" where
  "from_fileid fileid =
     (if \<not> is_valid_fileid fileid then None
      else let parts = split_on CHR ''-'' fileid in
        (case Sha1Hash_new (parts ! 0) of None \<Rightarrow> None | Some h \<Rightarrow>
        (case parse_word (parts ! 1) of None \<Rightarrow> None | Some sz \<Rightarrow>
        (case (if length parts = 3 then Some (0, 0, from_ext (parts ! 2))
               else (case parse_word (parts ! 2) of None \<Rightarrow> None | Some x \<Rightarrow>
                    (case parse_word (parts ! 3) of None \<Rightarrow> None | Some y \<Rightarrow>
                     Some (x, y, from_ext (parts ! 4))))) of
           None \<Rightarrow> None
         | Some (x, y, t) \<Rightarrow>
             Some \<lparr>hv_hash = h, hv_size = sz, hv_xres = x, hv_yres = y, hv_file_type = t,
                   fileid_cache = make_fileid h sz x y t\<rparr>))))"

definition fileid :: "HVFile \<Rightarrow> FileId" where
  "fileid hv = fileid_cache hv"

definition cache_path :: "path \<Rightarrow> HVFile \<Rightarrow> path" where
  "cache_path cache_dir hv =
     cache_dir @ [l1_dir (hv_hash hv), l2_dir (hv_hash hv), fileid_str (fileid hv)]"

definition static_range :: "HVFile \<Rightarrow> string" where
  "static_range hv = range_str (Sha1Hash_static_range (hv_hash hv))"

definition mime_type :: "HVFile \<Rightarrow> string" where
  "mime_type hv = as_mime (hv_file_type hv)"

subsection \<open>The patterns\<close>

lemma fileid_exts_no_dash: "e \<in> set fileid_exts \<Longrightarrow> CHR ''-'' \<notin> set e"
  by (auto simp: fileid_exts_def)

lemma re_hash40_no_dash: "re_hash40 s \<Longrightarrow> CHR ''-'' \<notin> set s"
  by (auto simp: re_hash40_def list_all_iff)

lemma re_digits_no_dash: "re_digits n s \<Longrightarrow> CHR ''-'' \<notin> set s"
  by (auto simp: re_digits_def list_all_iff)

lemmas no_dash = fileid_exts_no_dash re_hash40_no_dash re_digits_no_dash

lemma split5_iff:
  "split_on CHR ''-'' s = [h, a, b, c, e] \<longleftrightarrow>
     s = h @ ''-'' @ a @ ''-'' @ b @ ''-'' @ c @ ''-'' @ e
     \<and> (\<forall>p \<in> {h, a, b, c, e}. CHR ''-'' \<notin> set p)"
proof
  assume sp: "split_on CHR ''-'' s = [h, a, b, c, e]"
  have "s = join_with ''-'' [h, a, b, c, e]" using split_on_concat [of "CHR ''-''" s] sp by simp
  moreover have "\<forall>p \<in> {h, a, b, c, e}. CHR ''-'' \<notin> set p"
    using split_on_pieces [of _ "CHR ''-''" s] sp by auto
  ultimately show "s = h @ ''-'' @ a @ ''-'' @ b @ ''-'' @ c @ ''-'' @ e
     \<and> (\<forall>p \<in> {h, a, b, c, e}. CHR ''-'' \<notin> set p)" by simp
qed (auto simp: str_simps)

lemma split3_iff:
  "split_on CHR ''-'' s = [h, a, e] \<longleftrightarrow>
     s = h @ ''-'' @ a @ ''-'' @ e \<and> (\<forall>p \<in> {h, a, e}. CHR ''-'' \<notin> set p)"
proof
  assume sp: "split_on CHR ''-'' s = [h, a, e]"
  have "s = join_with ''-'' [h, a, e]" using split_on_concat [of "CHR ''-''" s] sp by simp
  moreover have "\<forall>p \<in> {h, a, e}. CHR ''-'' \<notin> set p"
    using split_on_pieces [of _ "CHR ''-''" s] sp by auto
  ultimately show "s = h @ ''-'' @ a @ ''-'' @ e \<and> (\<forall>p \<in> {h, a, e}. CHR ''-'' \<notin> set p)" by simp
qed (auto simp: str_simps)

text \<open>The anchored patterns, as the source writes them.\<close>

lemma FILEID_WITH_RES_iff:
  "FILEID_WITH_RES s \<longleftrightarrow>
     (\<exists>h a b c e. s = h @ ''-'' @ a @ ''-'' @ b @ ''-'' @ c @ ''-'' @ e \<and> re_hash40 h
        \<and> re_digits 10 a \<and> re_digits 5 b \<and> re_digits 5 c \<and> e \<in> set fileid_exts)"
proof
  assume "FILEID_WITH_RES s"
  then show "\<exists>h a b c e. s = h @ ''-'' @ a @ ''-'' @ b @ ''-'' @ c @ ''-'' @ e \<and> re_hash40 h
        \<and> re_digits 10 a \<and> re_digits 5 b \<and> re_digits 5 c \<and> e \<in> set fileid_exts"
    unfolding FILEID_WITH_RES_def by (auto simp: split5_iff split: list.splits) metis
next
  assume "\<exists>h a b c e. s = h @ ''-'' @ a @ ''-'' @ b @ ''-'' @ c @ ''-'' @ e \<and> re_hash40 h
        \<and> re_digits 10 a \<and> re_digits 5 b \<and> re_digits 5 c \<and> e \<in> set fileid_exts"
  then obtain h a b c e where s: "s = h @ ''-'' @ a @ ''-'' @ b @ ''-'' @ c @ ''-'' @ e"
    and m: "re_hash40 h" "re_digits 10 a" "re_digits 5 b" "re_digits 5 c" "e \<in> set fileid_exts"
    by blast
  from m have "\<forall>p \<in> {h, a, b, c, e}. CHR ''-'' \<notin> set p" by (simp add: no_dash)
  with s have "split_on CHR ''-'' s = [h, a, b, c, e]" by (simp only: split5_iff)
  with m show "FILEID_WITH_RES s" by (simp add: FILEID_WITH_RES_def)
qed

lemma FILEID_WITHOUT_RES_iff:
  "FILEID_WITHOUT_RES s \<longleftrightarrow>
     (\<exists>h a e. s = h @ ''-'' @ a @ ''-'' @ e \<and> re_hash40 h \<and> re_digits 10 a
        \<and> e \<in> set fileid_exts)"
proof
  assume "FILEID_WITHOUT_RES s"
  then show "\<exists>h a e. s = h @ ''-'' @ a @ ''-'' @ e \<and> re_hash40 h \<and> re_digits 10 a
        \<and> e \<in> set fileid_exts"
    unfolding FILEID_WITHOUT_RES_def by (auto simp: split3_iff split: list.splits)
next
  assume "\<exists>h a e. s = h @ ''-'' @ a @ ''-'' @ e \<and> re_hash40 h \<and> re_digits 10 a
        \<and> e \<in> set fileid_exts"
  then obtain h a e where s: "s = h @ ''-'' @ a @ ''-'' @ e"
    and m: "re_hash40 h" "re_digits 10 a" "e \<in> set fileid_exts"
    by blast
  from m have "\<forall>p \<in> {h, a, e}. CHR ''-'' \<notin> set p" by (simp add: no_dash)
  with s have "split_on CHR ''-'' s = [h, a, e]" by (simp only: split3_iff)
  with m show "FILEID_WITHOUT_RES s" by (simp add: FILEID_WITHOUT_RES_def)
qed


subsection \<open>Parsing\<close>

lemma re_digits5_parse: "re_digits 5 s \<Longrightarrow> \<exists>w::u32. parse_word s = Some w"
proof -
  assume d: "re_digits 5 s"
  then have "(10::nat) ^ length s \<le> 10 ^ 5" by (intro power_increasing) (auto simp: re_digits_def)
  then have "(10::nat) ^ length s \<le> 2 ^ LENGTH(32)" by simp
  then show ?thesis using d parse_word_digits_fit [of s, where 'a = 32]
    by (cases s) (auto simp: re_digits_def list_all_iff)
qed

lemma re_hash40_new: "re_hash40 s \<Longrightarrow> Sha1Hash_new s = Some (Sha1Hash s) \<and> sha1_wf (Sha1Hash s)"
  by (auto simp: re_hash40_def Sha1Hash_new_def sha1_wf_def list_all_iff)

lemma fileid_exts_as_ext: "e \<in> set fileid_exts \<Longrightarrow> as_ext (from_ext e) = e"
  by (auto simp: fileid_exts_def)

text \<open>The two shapes of a successful parse.\<close>

lemma from_fileid_cases:
  assumes "from_fileid s = Some hv"
  obtains (with_res) h a b c e x y where "s = h @ ''-'' @ a @ ''-'' @ b @ ''-'' @ c @ ''-'' @ e"
      "re_hash40 h" "re_digits 10 a" "re_digits 5 b" "re_digits 5 c" "e \<in> set fileid_exts"
      "parse_word a = Some (hv_size hv)" "parse_word b = Some x" "parse_word c = Some y"
      "hv = \<lparr>hv_hash = Sha1Hash h, hv_size = hv_size hv, hv_xres = x, hv_yres = y,
             hv_file_type = from_ext e,
             fileid_cache = make_fileid (Sha1Hash h) (hv_size hv) x y (from_ext e)\<rparr>"
  | (without_res) h a e where "s = h @ ''-'' @ a @ ''-'' @ e"
      "re_hash40 h" "re_digits 10 a" "e \<in> set fileid_exts"
      "parse_word a = Some (hv_size hv)"
      "hv = \<lparr>hv_hash = Sha1Hash h, hv_size = hv_size hv, hv_xres = 0, hv_yres = 0,
             hv_file_type = from_ext e,
             fileid_cache = make_fileid (Sha1Hash h) (hv_size hv) 0 0 (from_ext e)\<rparr>"
proof -
  have v: "is_valid_fileid s" using assms by (auto simp: from_fileid_def split: if_splits)
  show thesis
  proof (cases "FILEID_WITH_RES s")
    case True
    then obtain h a b c e where sp: "split_on CHR ''-'' s = [h, a, b, c, e]" "re_hash40 h"
        "re_digits 10 a" "re_digits 5 b" "re_digits 5 c" "e \<in> set fileid_exts"
      unfolding FILEID_WITH_RES_def by (auto split: list.splits)
    have new: "Sha1Hash_new h = Some (Sha1Hash h)" using sp(2) re_hash40_new by blast
    obtain x y where "parse_word a = Some (hv_size hv)" "parse_word b = Some x"
        "parse_word c = Some y" and hv: "hv = \<lparr>hv_hash = Sha1Hash h, hv_size = hv_size hv, hv_xres = x,
             hv_yres = y, hv_file_type = from_ext e,
             fileid_cache = make_fileid (Sha1Hash h) (hv_size hv) x y (from_ext e)\<rparr>"
      using assms v sp(1) new by (auto simp: from_fileid_def Let_def split: option.splits)
    then show thesis using sp with_res [of h a b c e x y] by (simp add: split5_iff)
  next
    case False
    with v have "FILEID_WITHOUT_RES s" by (simp add: is_valid_fileid_def)
    then obtain h a e where sp: "split_on CHR ''-'' s = [h, a, e]" "re_hash40 h"
        "re_digits 10 a" "e \<in> set fileid_exts"
      unfolding FILEID_WITHOUT_RES_def by (auto split: list.splits)
    have new: "Sha1Hash_new h = Some (Sha1Hash h)" using sp(2) re_hash40_new by blast
    have "parse_word a = Some (hv_size hv)"
      and hv: "hv = \<lparr>hv_hash = Sha1Hash h, hv_size = hv_size hv, hv_xres = 0, hv_yres = 0,
             hv_file_type = from_ext e,
             fileid_cache = make_fileid (Sha1Hash h) (hv_size hv) 0 0 (from_ext e)\<rparr>"
      using assms v sp(1) new by (auto simp: from_fileid_def Let_def split: option.splits)
    then show thesis using sp without_res [of h a e] by (simp add: split3_iff)
  qed
qed

text \<open>What a parsed file id is made of.\<close>

definition hv_wf :: "HVFile \<Rightarrow> bool" where
  "hv_wf hv \<longleftrightarrow> sha1_wf (hv_hash hv) \<and> as_ext (hv_file_type hv) \<in> set fileid_exts
     \<and> from_ext (as_ext (hv_file_type hv)) = hv_file_type hv
     \<and> unat (hv_xres hv) < 100000 \<and> unat (hv_yres hv) < 100000
     \<and> fileid_cache hv = make_fileid (hv_hash hv) (hv_size hv) (hv_xres hv) (hv_yres hv) (hv_file_type hv)"

lemma parse_word_bound: "parse_word s = Some (w::'a::len word) \<Longrightarrow> unat w < 10 ^ length s"
proof -
  assume "parse_word s = Some w"
  then obtain v where v: "from_str_radix 10 (2 ^ LENGTH('a) - 1) s = Some v" and w: "w = of_nat v"
    by (auto simp: parse_word_def parse_uint_def)
  have "unat w \<le> v" by (simp add: w unat_of_nat)
  then show ?thesis using from_str_radix_bound [OF v] by simp
qed

lemma re_digits5_bound: "re_digits 5 s \<Longrightarrow> parse_word s = Some (w::u32) \<Longrightarrow> unat w < 100000"
proof -
  assume d: "re_digits 5 s" and p: "parse_word s = Some w"
  have "(10::nat) ^ length s \<le> 10 ^ 5" using d by (intro power_increasing) (auto simp: re_digits_def)
  then show ?thesis using parse_word_bound [OF p] by simp
qed

lemma from_fileid_wf: "from_fileid s = Some hv \<Longrightarrow> hv_wf hv"
proof (erule from_fileid_cases)
  fix h a b c e x y
  assume h: "re_hash40 h" and b: "re_digits 5 b" "parse_word b = Some x"
    and c: "re_digits 5 c" "parse_word c = Some y" and e: "e \<in> set fileid_exts"
    and hv: "hv = \<lparr>hv_hash = Sha1Hash h, hv_size = hv_size hv, hv_xres = x, hv_yres = y,
             hv_file_type = from_ext e,
             fileid_cache = make_fileid (Sha1Hash h) (hv_size hv) x y (from_ext e)\<rparr>"
  show "hv_wf hv"
    using re_hash40_new [OF h] e re_digits5_bound [OF b] re_digits5_bound [OF c]
    by (subst hv, subst hv_wf_def) (simp add: fileid_exts_as_ext)
next
  fix h a e
  assume h: "re_hash40 h" and e: "e \<in> set fileid_exts"
    and hv: "hv = \<lparr>hv_hash = Sha1Hash h, hv_size = hv_size hv, hv_xres = 0, hv_yres = 0,
             hv_file_type = from_ext e,
             fileid_cache = make_fileid (Sha1Hash h) (hv_size hv) 0 0 (from_ext e)\<rparr>"
  show "hv_wf hv"
    using re_hash40_new [OF h] e
    by (subst hv, subst hv_wf_def) (simp add: fileid_exts_as_ext)
qed

lemma show_nat_length: "n < 10 ^ k \<Longrightarrow> 0 < k \<Longrightarrow> length (show_nat n) \<le> k"
proof (induction n arbitrary: k rule: show_nat.induct)
  case (1 n)
  show ?case
  proof (cases "n < 10")
    case True
    with "1.prems" show ?thesis by (simp add: show_nat.simps [of n])
  next
    case False
    with "1.prems" obtain k' where k: "k = Suc k'" "0 < k'" by (cases k; cases "k - 1") auto
    then have "n div 10 < 10 ^ k'" using "1.prems" by (simp add: less_mult_imp_div_less mult.commute)
    then show ?thesis using "1.IH" [OF False _ k(2)] False k by (simp add: show_nat.simps [of n])
  qed
qed

lemma re_digits_show_nat: "n < 10 ^ k \<Longrightarrow> 0 < k \<Longrightarrow> re_digits k (show_nat n)"
proof -
  assume a: "n < 10 ^ k" "0 < k"
  have "1 \<le> length (show_nat n)" by (cases "show_nat n") auto
  then show ?thesis
    using show_nat_length [OF a] show_nat_digits by (simp add: re_digits_def list_all_iff)
qed

lemma u32_show_digits: "re_digits 10 (show_word (w::u32))"
proof (rule re_digits_show_nat)
  have "unat w < 2 ^ LENGTH(32)" by (rule unsigned_less)
  then show "unat w < 10 ^ 10" by simp
qed simp

text \<open>The id a well-formed file stores parses back to the file, without the dropped \<open>yres\<close>.\<close>

lemma from_fileid_canonical:
  assumes wf: "hv_wf hv"
  shows "from_fileid (fileid_str (fileid hv)) =
    Some (if hv_xres hv = 0 then hv\<lparr>hv_yres := 0\<rparr> else hv)"
proof -
  let ?h = "sha1_str (hv_hash hv)" and ?a = "show_word (hv_size hv)" and ?b = "show_word (hv_xres hv)"
    and ?c = "show_word (hv_yres hv)" and ?e = "as_ext (hv_file_type hv)"
  have h: "re_hash40 ?h" "Sha1Hash_new ?h = Some (hv_hash hv)"
    using wf Sha1Hash_new_canonical by (auto simp: hv_wf_def sha1_wf_def re_hash40_def)
  have a: "re_digits 10 ?a" by (rule u32_show_digits)
  have bc: "re_digits 5 ?b" "re_digits 5 ?c" using wf by (auto simp: hv_wf_def intro!: re_digits_show_nat)
  have e: "?e \<in> set fileid_exts" "from_ext ?e = hv_file_type hv" using wf by (auto simp: hv_wf_def)
  show ?thesis
  proof (cases "hv_xres hv = 0")
    case True
    then have f: "fileid_str (fileid hv) = ?h @ ''-'' @ ?a @ ''-'' @ ?e"
      using wf by (simp add: hv_wf_def fileid_def make_fileid_def)
    have sp: "split_on CHR ''-'' (fileid_str (fileid hv)) = [?h, ?a, ?e]"
      unfolding split3_iff f using no_dash h(1) a e(1) by auto
    have "is_valid_fileid (fileid_str (fileid hv))"
      unfolding is_valid_fileid_def FILEID_WITHOUT_RES_def sp using h(1) a e(1) by simp
    then show ?thesis using True wf h e
      by (simp add: from_fileid_def sp hv_wf_def make_fileid_def)
  next
    case False
    then have f: "fileid_str (fileid hv) = ?h @ ''-'' @ ?a @ ''-'' @ ?b @ ''-'' @ ?c @ ''-'' @ ?e"
      using wf by (simp add: hv_wf_def fileid_def make_fileid_def word_gt_0)
    have sp: "split_on CHR ''-'' (fileid_str (fileid hv)) = [?h, ?a, ?b, ?c, ?e]"
      unfolding split5_iff f using no_dash h(1) a bc e(1) by auto
    have "is_valid_fileid (fileid_str (fileid hv))"
      unfolding is_valid_fileid_def FILEID_WITH_RES_def sp using h(1) a bc e(1) by simp
    then show ?thesis using False wf h e by (simp add: from_fileid_def sp hv_wf_def)
  qed
qed

text \<open>Where the canonical id leads back to the cache path.\<close>

lemma cache_path_yres [simp]: "cache_path d (hv\<lparr>hv_yres := y\<rparr>) = cache_path d hv"
  by (simp add: cache_path_def fileid_def)

lemma fileid_yres [simp]: "fileid (hv\<lparr>hv_yres := y\<rparr>) = fileid hv"
  by (simp add: fileid_def)

lemma static_range_length: "hv_wf hv \<Longrightarrow> length (static_range hv) = 4"
  by (auto simp: static_range_def Sha1Hash_static_range_def hv_wf_def sha1_wf_def)

lemma cache_path_range:
  "cache_path d hv = d @ [take 2 (static_range hv), drop 2 (static_range hv), fileid_str (fileid hv)]"
  by (simp add: cache_path_def static_range_def Sha1Hash_static_range_def l1_dir_def l2_dir_def
      take_drop)

lemma cache_path_inject:
  "cache_path d hv = cache_path d hv' \<Longrightarrow> fileid hv = fileid hv'"
  by (auto simp: cache_path_def intro: FileId.expand)

subsection \<open>Properties\<close>



definition sample_id :: string where
  "sample_id = ''aabbccddeeff00112233445566778899aabbccdd-012-0-7-jpg''"

definition sample_file :: HVFile where
  "sample_file = \<lparr>hv_hash = Sha1Hash ''aabbccddeeff00112233445566778899aabbccdd'', hv_size = 12,
     hv_xres = 0, hv_yres = 7, hv_file_type = Jpeg,
     fileid_cache = FileId ''aabbccddeeff00112233445566778899aabbccdd-12-jpg''\<rparr>"

lemmas char_eval = char_class_defs char_code_def to_lower_def
lemmas parse_eval = parse_word_def parse_uint_def from_str_radix_def digit_val_def char_eval
lemmas fileid_eval = from_fileid_def is_valid_fileid_def FILEID_WITH_RES_def FILEID_WITHOUT_RES_def
  re_hash40_def re_digits_def fileid_exts_def Sha1Hash_new_def make_fileid_def show_nat.simps parse_eval

lemma sample_file_parsed: "from_fileid sample_id = Some sample_file"
  by (simp add: sample_id_def sample_file_def fileid_eval)


end
