(* ===== verification/Hath_Utils.thy ===== *)
theory Hath_Utils
  imports Hath_File
begin

text \<open>
  The helpers of \<^verbatim>\<open>src/src/utils.rs\<close> that have no I/O: IP addresses with the standard library's
  parser and printer, the normalisation of mapped addresses, hexadecimal digests, and the
  semicolon-separated key=value segments of request paths. SHA-1 is a parameter: a function from
  bytes to digest bytes. The error type of \<^verbatim>\<open>src/src/error.rs\<close> is here as well.
\<close>

subsection \<open>Errors\<close>

datatype HathError =
    Io string
  | Http string
  | Tls string
  | Hyper string
  | Rpc string
  | Config_error string
  | Cache_error string
  | Parse string
  | Network string
  | ProxyDownloader u16 string
  | Shutdown_requested
  | CertExpired
  | Fatal string

type_synonym 'a res = "HathError + 'a"

subsection \<open>IP addresses\<close>

datatype IpAddr = V4 u8 u8 u8 u8 | V6 "u16 list"

definition v6_wf :: "IpAddr \<Rightarrow> bool" where
  "v6_wf ip = (case ip of V4 _ _ _ _ \<Rightarrow> True | V6 gs \<Rightarrow> length gs = 8)"

text \<open>An octet: one to three decimal digits, no leading zero, at most 255.\<close>

definition parse_octet :: "string \<Rightarrow> u8 option" where
  "parse_octet s =
     (if s = [] \<or> 3 < length s \<or> \<not> list_all is_ascii_digit s \<or> (1 < length s \<and> hd s = CHR ''0'')
      then None else parse_word s)"

definition parse_ipv4 :: "string \<Rightarrow> IpAddr option" where
  "parse_ipv4 s =
     (case map parse_octet (split_on CHR ''.'' s) of
        [Some a, Some b, Some c, Some d] \<Rightarrow> Some (V4 a b c d)
      | _ \<Rightarrow> None)"

text \<open>A group of an IPv6 address: one to four hexadecimal digits.\<close>

definition parse_group :: "string \<Rightarrow> u16 option" where
  "parse_group s =
     (if s = [] \<or> 4 < length s \<or> \<not> list_all is_ascii_hexdigit s then None
      else map_option of_nat (digits_val 16 0 s))"

text \<open>Colon-separated groups; the last piece may be an IPv4 address and stands for two groups.\<close>

fun parse_groups :: "string list \<Rightarrow> u16 list option" where
  "parse_groups [] = Some []"
| "parse_groups [p] =
     (case parse_group p of
        Some g \<Rightarrow> Some [g]
      | None \<Rightarrow> (case parse_ipv4 p of
                  Some (V4 a b c d) \<Rightarrow>
                    Some [of_nat (unat a * 256 + unat b), of_nat (unat c * 256 + unat d)]
                | _ \<Rightarrow> None))"
| "parse_groups (p # q # ps) =
     (case (parse_group p, parse_groups (q # ps)) of
        (Some g, Some gs) \<Rightarrow> Some (g # gs) | _ \<Rightarrow> None)"

definition groups_of :: "string \<Rightarrow> u16 list option" where
  "groups_of s = (if s = [] then Some [] else parse_groups (split_on CHR '':'' s))"

text \<open>The first occurrence of a double colon.\<close>

fun split_double_colon :: "string \<Rightarrow> (string \<times> string) option" where
  "split_double_colon (a # b # cs) =
     (if a = CHR '':'' \<and> b = CHR '':'' then Some ([], cs)
      else map_option (\<lambda>(x, y). (a # x, y)) (split_double_colon (b # cs)))"
| "split_double_colon _ = None"

text \<open>The part before a double colon has no embedded IPv4 address.\<close>

definition parse_ipv6 :: "string \<Rightarrow> IpAddr option" where
  "parse_ipv6 s =
     (case split_double_colon s of
        None \<Rightarrow> (case groups_of s of
                   Some gs \<Rightarrow> if length gs = 8 then Some (V6 gs) else None
                 | None \<Rightarrow> None)
      | Some (h, t) \<Rightarrow>
          (case (groups_of h, groups_of t) of
             (Some gh, Some gt) \<Rightarrow>
               if length gh + length gt \<le> 7 \<and> CHR ''.'' \<notin> set h
               then Some (V6 (gh @ replicate (8 - length gh - length gt) 0 @ gt)) else None
           | _ \<Rightarrow> None))"

definition parse_ip :: "string \<Rightarrow> IpAddr option" where
  "parse_ip s = (case parse_ipv4 s of Some ip \<Rightarrow> Some ip | None \<Rightarrow> parse_ipv6 s)"

text \<open>Printing: IPv6 addresses compress the first longest run of at least two zero groups.\<close>

definition hex_digit :: "nat \<Rightarrow> char" where
  "hex_digit d = char_of (if d < 10 then 48 + d else 87 + d)"

fun show_hex :: "nat \<Rightarrow> string" where
  "show_hex n = (if n < 16 then [hex_digit n] else show_hex (n div 16) @ [hex_digit (n mod 16)])"

declare show_hex.simps [simp del]

definition zero_run :: "u16 list \<Rightarrow> nat \<Rightarrow> nat" where
  "zero_run gs i = length (takeWhile (\<lambda>g. g = 0) (drop i gs))"

text \<open>Start and length of the longest run of zero groups, the first one among equals.\<close>

definition longest_run :: "u16 list \<Rightarrow> nat \<times> nat" where
  "longest_run gs =
     foldl (\<lambda>(bi, bl) i. if bl < zero_run gs i then (i, zero_run gs i) else (bi, bl)) (0, 0) [0..<length gs]"

definition show_groups :: "u16 list \<Rightarrow> string" where
  "show_groups gs = join_with '':'' (map (\<lambda>g. show_hex (unat g)) gs)"

definition show_ipv4 :: "u8 \<Rightarrow> u8 \<Rightarrow> u8 \<Rightarrow> u8 \<Rightarrow> string" where
  "show_ipv4 a b c d = join_with ''.'' [show_word a, show_word b, show_word c, show_word d]"

definition to_ipv4_mapped :: "u16 list \<Rightarrow> IpAddr option" where
  "to_ipv4_mapped gs =
     (case gs of
        [g0, g1, g2, g3, g4, g5, g6, g7] \<Rightarrow>
          if g0 = 0 \<and> g1 = 0 \<and> g2 = 0 \<and> g3 = 0 \<and> g4 = 0 \<and> g5 = 0xFFFF
          then Some (V4 (ucast (drop_bit 8 g6)) (ucast g6) (ucast (drop_bit 8 g7)) (ucast g7))
          else None
      | _ \<Rightarrow> None)"

definition show_ip :: "IpAddr \<Rightarrow> string" where
  "show_ip ip =
     (case ip of
        V4 a b c d \<Rightarrow> show_ipv4 a b c d
      | V6 gs \<Rightarrow>
          (case to_ipv4_mapped gs of
             Some (V4 a b c d) \<Rightarrow> ''::ffff:'' @ show_ipv4 a b c d
           | _ \<Rightarrow> (case longest_run gs of (s, l) \<Rightarrow>
               if 1 < l then show_groups (take s gs) @ ''::'' @ show_groups (drop (s + l) gs)
               else show_groups gs)))"

definition normalize_ip :: "IpAddr \<Rightarrow> IpAddr" where
  "normalize_ip addr =
     (case addr of
        V6 v6 \<Rightarrow> (case to_ipv4_mapped v6 of Some v4 \<Rightarrow> v4 | None \<Rightarrow> V6 v6)
      | v4 \<Rightarrow> v4)"

subsection \<open>Digests\<close>

definition hex_byte :: "u8 \<Rightarrow> string" where
  "hex_byte b = [hex_digit (unat b div 16), hex_digit (unat b mod 16)]"

definition hex_encode :: "bytes \<Rightarrow> string" where
  "hex_encode bs = concat (map hex_byte bs)"

type_synonym digest = "string \<Rightarrow> bytes"

definition sha1_bytes :: "digest \<Rightarrow> string \<Rightarrow> string" where
  "sha1_bytes sha1 s = hex_encode (sha1 s)"

definition sha1_string :: "digest \<Rightarrow> string \<Rightarrow> string" where
  "sha1_string sha1 s = hex_encode (sha1 s)"

subsection \<open>Additional segments\<close>

record Additional =
  add_keystamp :: "string option"
  add_fileindex :: "string option"
  add_xres :: "string option"
  add_hostname :: "string option"
  add_protocol :: "string option"
  add_port :: "string option"
  add_testsize :: "string option"
  add_testcount :: "string option"
  add_testtime :: "string option"
  add_testkey :: "string option"

definition Additional_default :: Additional where
  "Additional_default = \<lparr>add_keystamp = None, add_fileindex = None, add_xres = None,
     add_hostname = None, add_protocol = None, add_port = None, add_testsize = None,
     add_testcount = None, add_testtime = None, add_testkey = None\<rparr>"

definition set_additional :: "Additional \<Rightarrow> string \<Rightarrow> string \<Rightarrow> Additional" where
  "set_additional a k v =
     (if k = ''keystamp'' then a\<lparr>add_keystamp := Some v\<rparr>
      else if k = ''fileindex'' then a\<lparr>add_fileindex := Some v\<rparr>
      else if k = ''xres'' then a\<lparr>add_xres := Some v\<rparr>
      else if k = ''hostname'' then a\<lparr>add_hostname := Some v\<rparr>
      else if k = ''protocol'' then a\<lparr>add_protocol := Some v\<rparr>
      else if k = ''port'' then a\<lparr>add_port := Some v\<rparr>
      else if k = ''testsize'' then a\<lparr>add_testsize := Some v\<rparr>
      else if k = ''testcount'' then a\<lparr>add_testcount := Some v\<rparr>
      else if k = ''testtime'' then a\<lparr>add_testtime := Some v\<rparr>
      else if k = ''testkey'' then a\<lparr>add_testkey := Some v\<rparr>
      else a)"

definition parse_additional :: "string \<Rightarrow> Additional" where
  "parse_additional additional =
     (if additional = [] then Additional_default
      else foldl (\<lambda>out kv_pair.
             if 2 < length kv_pair then
               (case split_once CHR ''='' kv_pair of
                  Some (k, v) \<Rightarrow> set_additional out (trim k) (trim v)
                | None \<Rightarrow> out)
             else out)
           Additional_default (split_on CHR '';'' (trim additional)))"

subsection \<open>Lemmas\<close>

lemma normalize_ip_V4 [simp]: "normalize_ip (V4 a b c d) = V4 a b c d"
  by (simp add: normalize_ip_def)

lemma to_ipv4_mapped_V4: "to_ipv4_mapped gs = Some ip \<Longrightarrow> \<exists>a b c d. ip = V4 a b c d"
  by (auto simp: to_ipv4_mapped_def split: list.splits if_splits)

lemma normalize_ip_idem [simp]: "normalize_ip (normalize_ip ip) = normalize_ip ip"
proof (cases ip)
  case (V6 gs)
  then show ?thesis
  proof (cases "to_ipv4_mapped gs")
    case (Some v4)
    then obtain a b c d where "v4 = V4 a b c d" using to_ipv4_mapped_V4 by blast
    then show ?thesis using V6 Some by (simp add: normalize_ip_def)
  qed (simp add: normalize_ip_def)
qed simp

lemma hex_digit_code: "d < 16 \<Longrightarrow> char_code (hex_digit d) = (if d < 10 then 48 + d else 87 + d)"
  by (simp add: hex_digit_def)

lemma hex_digit_inject: "c < 16 \<Longrightarrow> d < 16 \<Longrightarrow> hex_digit c = hex_digit d \<longleftrightarrow> c = d"
  by (subst char_code_inject [symmetric]) (simp add: hex_digit_code del: char_code_inject)

lemma hex_digit_lower: "d < 16 \<Longrightarrow> is_lower_hex (hex_digit d)"
  by (auto simp: char_class_defs hex_digit_code)

lemma hex_byte_bounds: "unat (b::u8) div 16 < 16" "unat (b::u8) mod 16 < 16"
  using unat_u8 [of b] by auto

lemma hex_byte_inject: "hex_byte a = hex_byte b \<longleftrightarrow> a = b"
proof
  assume "hex_byte a = hex_byte b"
  then have "unat a div 16 = unat b div 16" "unat a mod 16 = unat b mod 16"
    using hex_byte_bounds by (auto simp: hex_byte_def hex_digit_inject)
  then have "unat a = unat b" by (metis div_mult_mod_eq)
  then show "a = b" by (rule unsigned_word_eqI)
qed simp

lemma hex_encode_length [simp]: "length (hex_encode bs) = 2 * length bs"
  by (induction bs) (auto simp: hex_encode_def hex_byte_def)

lemma hex_encode_lower: "c \<in> set (hex_encode bs) \<Longrightarrow> is_lower_hex c"
  by (auto simp: hex_encode_def hex_byte_def hex_digit_lower hex_byte_bounds)

lemma hex_encode_inject: "hex_encode a = hex_encode b \<longleftrightarrow> a = b"
proof
  assume "hex_encode a = hex_encode b"
  then show "a = b"
  proof (induction a arbitrary: b)
    case Nil
    then show ?case by (cases b) (auto simp: hex_encode_def hex_byte_def)
  next
    case (Cons x xs)
    obtain y ys where b: "b = y # ys" using Cons.prems by (cases b) (auto simp: hex_encode_def hex_byte_def)
    have "hex_byte x @ hex_encode xs = hex_byte y @ hex_encode ys"
      using Cons.prems b by (simp add: hex_encode_def)
    then have "hex_byte x = hex_byte y" "hex_encode xs = hex_encode ys"
      by (auto simp: hex_byte_def)
    then show ?case using Cons.IH b by (simp add: hex_byte_inject)
  qed
qed simp

lemma hex_encode_sha1_wf: "length bs = 20 \<Longrightarrow> sha1_wf (Sha1Hash (hex_encode bs))"
  by (auto simp: sha1_wf_def list_all_iff hex_encode_lower)

subsection \<open>Printing and parsing addresses\<close>

lemma show_nat_head_nonzero: "10 \<le> n \<Longrightarrow> hd (show_nat n) \<noteq> CHR ''0''"
proof (induction n rule: less_induct)
  case (less n)
  have step: "show_nat n = show_nat (n div 10) @ [digit_char (n mod 10)]"
    using less.prems by (subst show_nat.simps) simp
  show ?case
  proof (cases "n div 10 < 10")
    case True
    have "show_nat (n div 10) = [digit_char (n div 10)]" using True by (subst show_nat.simps) simp
    moreover have "char_code (digit_char (n div 10)) \<noteq> 48" using True less.prems by auto
    then have "digit_char (n div 10) \<noteq> CHR ''0''" by (auto simp: char_code_def)
    ultimately show ?thesis using step by simp
  next
    case False
    then show ?thesis using less.IH [of "n div 10"] step by auto
  qed
qed

lemma parse_octet_show: "parse_octet (show_word b) = Some b"
proof -
  have l: "length (show_word b) \<le> 3"
    using unat_u8 [of b] by (intro show_nat_length) auto
  have "hd (show_word b) \<noteq> CHR ''0''" if "1 < length (show_word b)"
  proof (rule show_nat_head_nonzero, rule ccontr)
    assume "\<not> 10 \<le> unat b"
    then have "length (show_word b) = 1" by (subst show_nat.simps) simp
    with that show False by simp
  qed
  then show ?thesis using l by (auto simp: parse_octet_def list_all_iff show_nat_digits)
qed

lemma show_nat_no_char:
  "\<not> is_ascii_digit c \<Longrightarrow> c \<notin> set (show_nat n)"
  using show_nat_digits by blast

lemma parse_ip_show_ipv4: "parse_ip (show_ipv4 a b c d) = Some (V4 a b c d)"
proof -
  have "\<not> is_ascii_digit CHR ''.''" by (simp add: char_class_defs char_code_def)
  then have "split_on CHR ''.'' (show_ipv4 a b c d) = [show_word a, show_word b, show_word c, show_word d]"
    unfolding show_ipv4_def by (intro split_on_join) (auto simp: show_nat_no_char)
  then show ?thesis by (simp add: parse_ip_def parse_ipv4_def parse_octet_show)
qed

lemma parse_ip_normalized: "parse_ip s = Some ip \<Longrightarrow> normalize_ip (normalize_ip ip) = normalize_ip ip"
  by simp

subsection \<open>Additional segments as a lookup\<close>

definition additional_keys :: "string list" where
  "additional_keys = [''keystamp'', ''fileindex'', ''xres'', ''hostname'', ''protocol'', ''port'',
     ''testsize'', ''testcount'', ''testtime'', ''testkey'']"

definition get_additional :: "Additional \<Rightarrow> string \<Rightarrow> string option" where
  "get_additional a k =
     (if k = ''keystamp'' then add_keystamp a
      else if k = ''fileindex'' then add_fileindex a
      else if k = ''xres'' then add_xres a
      else if k = ''hostname'' then add_hostname a
      else if k = ''protocol'' then add_protocol a
      else if k = ''port'' then add_port a
      else if k = ''testsize'' then add_testsize a
      else if k = ''testcount'' then add_testcount a
      else if k = ''testtime'' then add_testtime a
      else if k = ''testkey'' then add_testkey a
      else None)"

definition additional_pair :: "string \<Rightarrow> (string \<times> string) list" where
  "additional_pair kv =
     (if 2 < length kv then
        (case split_once CHR ''='' kv of Some (k, v) \<Rightarrow> [(trim k, trim v)] | None \<Rightarrow> [])
      else [])"

lemma get_additional_set:
  "get_additional (set_additional a k v) k' =
     (if k' = k \<and> k \<in> set additional_keys then Some v else get_additional a k')"
proof (cases "k \<in> set additional_keys")
  case True
  then show ?thesis unfolding additional_keys_def
    by simp (elim disjE; simp add: set_additional_def get_additional_def)
next
  case False
  then have "set_additional a k v = a" by (simp add: additional_keys_def set_additional_def)
  with False show ?thesis by simp
qed

lemma get_additional_fold:
  "get_additional
     (foldl (\<lambda>out kv. if 2 < length kv then
               (case split_once CHR ''='' kv of Some (k, v) \<Rightarrow> set_additional out (trim k) (trim v) | None \<Rightarrow> out)
             else out) a kvs) k =
   (if k \<in> set additional_keys
    then (case map_of (rev (concat (map additional_pair kvs))) k of None \<Rightarrow> get_additional a k | Some v \<Rightarrow> Some v)
    else get_additional a k)"
proof (induction kvs arbitrary: a)
  case (Cons kv kvs)
  show ?case
  proof (cases "2 < length kv \<and> split_once CHR ''='' kv \<noteq> None")
    case True
    then obtain x v where xv: "split_once CHR ''='' kv = Some (x, v)" by auto
    then have "additional_pair kv = [(trim x, trim v)]" using True by (simp add: additional_pair_def)
    then show ?thesis using True Cons.IH [of "set_additional a (trim x) (trim v)"] xv
      by (auto simp: get_additional_set map_add_def split: option.splits)
  next
    case False
    then have s: "\<not> 2 < length kv \<or> split_once CHR ''='' kv = None" by blast
    then have "additional_pair kv = []" by (auto simp: additional_pair_def)
    then show ?thesis using s Cons.IH [of a] by auto
  qed
qed simp

lemma get_additional_default [simp]: "get_additional Additional_default k = None"
  by (simp add: get_additional_def Additional_default_def)

lemma trim_Nil [simp]: "trim [] = []"
  by (simp add: trim_def trim_start_def trim_end_def)

text \<open>
  \<^verbatim>\<open>parse_additional\<close> is a lookup: each of the ten known keys has the (trimmed) value of the last
  pair that names it, pairs shorter than three bytes or without an equals sign are skipped, and no
  other key is visible.
\<close>

theorem parse_additional_lookup:
  "get_additional (parse_additional s) k =
     (if k \<in> set additional_keys
      then map_of (rev (concat (map additional_pair (split_on CHR '';'' (trim s))))) k
      else None)"
  by (cases "s = []")
    (auto simp: parse_additional_def get_additional_fold additional_pair_def split: option.splits)

end
