(* ===== verification/Hath_Fs.thy ===== *)
theory Hath_Fs
  imports Hath_Utils
begin

text \<open>
  The file system as the program sees it, and the file helpers of \<^verbatim>\<open>src/src/utils.rs\<close>. A file system
  is an association list from paths to nodes; a system call is a function that returns the new file
  system or an error. The operating system's own choices are an \<open>os\<close> record that every caller takes
  as a parameter: which calls it refuses, what a failed write leaves behind, the clock and the free
  space. Contents are byte strings.
\<close>

datatype node = File (node_content: string) (node_mtime: u64) | Dir

type_synonym fs = "(path \<times> node) list"

datatype io_op = Unlink | Rmdir | Read | ReadDir | Write | Mkdir | Rename | Stat | SetTime | Append

datatype io_error = NotFound | AlreadyExists | OtherIo

record os =
  os_denied :: "io_op \<Rightarrow> path \<Rightarrow> bool"
  os_partial :: "path \<Rightarrow> string option"
  os_now_ms :: u64
  os_free_space :: "path \<Rightarrow> u64 option"

text \<open>The UTF-8 check of \<^verbatim>\<open>read_to_string\<close>.\<close>

definition is_cont :: "char \<Rightarrow> bool" where
  "is_cont c \<longleftrightarrow> 128 \<le> char_code c \<and> char_code c < 192"

definition in_range :: "nat \<Rightarrow> nat \<Rightarrow> char \<Rightarrow> bool" where
  "in_range lo hi c \<longleftrightarrow> lo \<le> char_code c \<and> char_code c \<le> hi"

fun valid_utf8 :: "string \<Rightarrow> bool" where
  "valid_utf8 [] = True"
| "valid_utf8 (a # s) =
     (if char_code a < 128 then valid_utf8 s
      else (case s of
          b # s1 \<Rightarrow>
            if in_range 0xC2 0xDF a then is_cont b \<and> valid_utf8 s1
            else (case s1 of
                c # s2 \<Rightarrow>
                  if (in_range 0xE0 0xE0 a \<and> in_range 0xA0 0xBF b)
                     \<or> ((in_range 0xE1 0xEC a \<or> in_range 0xEE 0xEF a) \<and> is_cont b)
                     \<or> (in_range 0xED 0xED a \<and> in_range 0x80 0x9F b)
                  then is_cont c \<and> valid_utf8 s2
                  else (case s2 of
                      d # s3 \<Rightarrow>
                        ((in_range 0xF0 0xF0 a \<and> in_range 0x90 0xBF b)
                         \<or> (in_range 0xF1 0xF3 a \<and> is_cont b)
                         \<or> (in_range 0xF4 0xF4 a \<and> in_range 0x80 0x8F b))
                        \<and> is_cont c \<and> is_cont d \<and> valid_utf8 s3
                    | [] \<Rightarrow> False)
              | [] \<Rightarrow> False)
        | [] \<Rightarrow> False))"

subsection \<open>Queries\<close>

abbreviation fs_get :: "fs \<Rightarrow> path \<Rightarrow> node option" where
  "fs_get f p \<equiv> map_of f p"

definition path_exists :: "fs \<Rightarrow> path \<Rightarrow> bool" where
  "path_exists f p \<longleftrightarrow> fs_get f p \<noteq> None"

definition is_dir :: "fs \<Rightarrow> path \<Rightarrow> bool" where
  "is_dir f p \<longleftrightarrow> fs_get f p = Some Dir"

definition is_file :: "fs \<Rightarrow> path \<Rightarrow> bool" where
  "is_file f p \<longleftrightarrow> (case fs_get f p of Some (File _ _) \<Rightarrow> True | _ \<Rightarrow> False)"

definition file_name :: "path \<Rightarrow> string" where
  "file_name p = (if p = [] then [] else last p)"

definition parent :: "path \<Rightarrow> path" where
  "parent p = butlast p"

text \<open>The length \<^verbatim>\<open>metadata().len()\<close> of a regular file.\<close>

definition file_len :: "os \<Rightarrow> fs \<Rightarrow> path \<Rightarrow> nat option" where
  "file_len os f p =
     (if os_denied os Stat p then None
      else case fs_get f p of Some (File c _) \<Rightarrow> Some (length c) | _ \<Rightarrow> None)"

definition modified_millis :: "os \<Rightarrow> fs \<Rightarrow> path \<Rightarrow> u64" where
  "modified_millis os f p =
     (if os_denied os Stat p then 0
      else case fs_get f p of Some (File _ t) \<Rightarrow> t | _ \<Rightarrow> 0)"

definition children :: "fs \<Rightarrow> path \<Rightarrow> path list" where
  "children f d = filter (\<lambda>p. p \<noteq> [] \<and> parent p = d) (remdups (map fst f))"

definition list_sorted_files :: "os \<Rightarrow> fs \<Rightarrow> path \<Rightarrow> path list" where
  "list_sorted_files os f d =
     (if os_denied os ReadDir d \<or> \<not> is_dir f d then [] else sort (children f d))"

subsection \<open>System calls\<close>

definition fs_read :: "os \<Rightarrow> fs \<Rightarrow> path \<Rightarrow> io_error + string" where
  "fs_read os f p =
     (case fs_get f p of
        None \<Rightarrow> Inl NotFound
      | Some Dir \<Rightarrow> Inl OtherIo
      | Some (File c _) \<Rightarrow> if os_denied os Read p then Inl OtherIo else Inr c)"

definition read_string_file :: "os \<Rightarrow> fs \<Rightarrow> path \<Rightarrow> io_error + string" where
  "read_string_file os f p =
     (case fs_read os f p of
        Inl e \<Rightarrow> Inl e
      | Inr c \<Rightarrow> if valid_utf8 c then Inr c else Inl OtherIo)"

definition fs_remove_file :: "os \<Rightarrow> fs \<Rightarrow> path \<Rightarrow> io_error + fs" where
  "fs_remove_file os f p =
     (case fs_get f p of
        None \<Rightarrow> Inl NotFound
      | Some Dir \<Rightarrow> Inl OtherIo
      | Some (File _ _) \<Rightarrow> if os_denied os Unlink p then Inl OtherIo else Inr (AList.delete p f))"

definition fs_remove_dir :: "os \<Rightarrow> fs \<Rightarrow> path \<Rightarrow> io_error + fs" where
  "fs_remove_dir os f p =
     (case fs_get f p of
        None \<Rightarrow> Inl NotFound
      | Some (File _ _) \<Rightarrow> Inl OtherIo
      | Some Dir \<Rightarrow>
          if os_denied os Rmdir p \<or> children f p \<noteq> [] then Inl OtherIo
          else Inr (AList.delete p f))"

text \<open>A refused or failing write may leave a truncated or partly written file.\<close>

definition fs_write :: "os \<Rightarrow> fs \<Rightarrow> path \<Rightarrow> string \<Rightarrow> io_error option \<times> fs" where
  "fs_write os f p c =
     (if \<not> is_dir f (parent p) then (Some NotFound, f)
      else if is_dir f p then (Some OtherIo, f)
      else if os_denied os Write p then
        (Some OtherIo, case os_partial os p of None \<Rightarrow> f
                       | Some c' \<Rightarrow> AList.update p (File c' (os_now_ms os)) f)
      else (None, AList.update p (File c (os_now_ms os)) f))"

text \<open>One write to an open file; the file may have been removed in the meantime.\<close>

definition fs_append :: "os \<Rightarrow> fs \<Rightarrow> path \<Rightarrow> string \<Rightarrow> io_error option \<times> fs" where
  "fs_append os f p c =
     (if os_denied os Append p then (Some OtherIo, f)
      else (case fs_get f p of
              Some (File c0 _) \<Rightarrow> (None, AList.update p (File (c0 @ c) (os_now_ms os)) f)
            | _ \<Rightarrow> (None, f)))"

definition fs_rename :: "os \<Rightarrow> fs \<Rightarrow> path \<Rightarrow> path \<Rightarrow> io_error + fs" where
  "fs_rename os f p q =
     (case fs_get f p of
        None \<Rightarrow> Inl NotFound
      | Some Dir \<Rightarrow> Inl OtherIo
      | Some n \<Rightarrow>
          if os_denied os Rename p then Inl OtherIo
          else if \<not> is_dir f (parent q) then Inl NotFound
          else if is_dir f q then Inl OtherIo
          else if p = q then Inr f
          else Inr (AList.update q n (AList.delete p f)))"

definition fs_set_modified :: "os \<Rightarrow> fs \<Rightarrow> path \<Rightarrow> u64 \<Rightarrow> fs" where
  "fs_set_modified os f p t =
     (case fs_get f p of
        Some (File c _) \<Rightarrow> if os_denied os SetTime p then f else AList.update p (File c t) f
      | _ \<Rightarrow> f)"

text \<open>\<^verbatim>\<open>create_dir_all\<close>: every missing prefix, from the root down.\<close>

definition prefixes :: "path \<Rightarrow> path list" where
  "prefixes p = map (\<lambda>n. take n p) [1..<Suc (length p)]"

fun mkdirs :: "os \<Rightarrow> fs \<Rightarrow> path list \<Rightarrow> io_error option \<times> fs" where
  "mkdirs os f [] = (None, f)"
| "mkdirs os f (p # ps) =
     (case fs_get f p of
        Some Dir \<Rightarrow> mkdirs os f ps
      | Some (File _ _) \<Rightarrow> (Some AlreadyExists, f)
      | None \<Rightarrow> if os_denied os Mkdir p then (Some OtherIo, f)
               else mkdirs os (AList.update p Dir f) ps)"

definition ensure_dir :: "os \<Rightarrow> fs \<Rightarrow> path \<Rightarrow> io_error option \<times> fs" where
  "ensure_dir os f p =
     (case (if is_file f p then fs_remove_file os f p else Inr f) of
        Inl e \<Rightarrow> (Some e, f)
      | Inr f1 \<Rightarrow> if \<not> is_dir f1 p then mkdirs os f1 (prefixes p) else (None, f1))"

text \<open>The logging wrappers: a failure leaves the file system as it is.\<close>

definition remove_file :: "os \<Rightarrow> fs \<Rightarrow> path \<Rightarrow> fs" where
  "remove_file os f p = (case fs_remove_file os f p of Inl _ \<Rightarrow> f | Inr f' \<Rightarrow> f')"

definition remove_dir :: "os \<Rightarrow> fs \<Rightarrow> path \<Rightarrow> fs" where
  "remove_dir os f p = (case fs_remove_dir os f p of Inl _ \<Rightarrow> f | Inr f' \<Rightarrow> f')"

subsection \<open>Lemmas\<close>

lemma valid_utf8_ascii: "is_ascii s \<Longrightarrow> valid_utf8 s"
  by (induction s) (auto simp: is_ascii_def)

lemma fs_get_update [simp]: "fs_get (AList.update p n f) q = (if q = p then Some n else fs_get f q)"
  by (simp add: update_conv')

lemma fs_get_delete [simp]: "fs_get (AList.delete p f) q = (if q = p then None else fs_get f q)"
  by (simp add: delete_conv')

definition fs_wf :: "fs \<Rightarrow> bool" where
  "fs_wf f \<longleftrightarrow> distinct (map fst f)"

lemma fs_wf_update [simp]: "fs_wf f \<Longrightarrow> fs_wf (AList.update p n f)"
  by (simp add: fs_wf_def distinct_update)

lemma fs_wf_delete [simp]: "fs_wf f \<Longrightarrow> fs_wf (AList.delete p f)"
  by (simp add: fs_wf_def distinct_delete)

lemma is_dir_update [simp]: "is_dir (AList.update p n f) q \<longleftrightarrow> (if q = p then n = Dir else is_dir f q)"
  by (simp add: is_dir_def)

lemma is_dir_delete [simp]: "is_dir (AList.delete p f) q \<longleftrightarrow> q \<noteq> p \<and> is_dir f q"
  by (simp add: is_dir_def)

lemma children_mem: "p \<in> set (children f d) \<longleftrightarrow> p \<noteq> [] \<and> parent p = d \<and> path_exists f p"
  by (auto simp: children_def path_exists_def map_of_eq_None_iff image_iff)

lemma parent_snoc [simp]: "parent (d @ [n]) = d"
  by (simp add: parent_def)

lemma file_name_snoc [simp]: "file_name (d @ [n]) = n"
  by (simp add: file_name_def)

lemma list_sorted_distinct: "distinct (list_sorted_files os f d)"
  by (simp add: list_sorted_files_def children_def)

lemma list_sorted_mem:
  "p \<in> set (list_sorted_files os f d) \<Longrightarrow> p \<noteq> [] \<and> parent p = d \<and> path_exists f p"
  by (auto simp: list_sorted_files_def children_mem split: if_splits)

lemma list_sorted_complete:
  "\<not> os_denied os ReadDir d \<Longrightarrow> is_dir f d \<Longrightarrow> path_exists f (d @ [n]) \<Longrightarrow> d @ [n] \<in> set (list_sorted_files os f d)"
  by (auto simp: list_sorted_files_def children_mem)

lemma fs_remove_file_Inr:
  "fs_remove_file os f p = Inr f' \<longleftrightarrow> is_file f p \<and> \<not> os_denied os Unlink p \<and> f' = AList.delete p f"
  by (auto simp: fs_remove_file_def is_file_def split: option.splits node.splits)

lemma remove_file_get:
  "fs_get (remove_file os f p) q =
     (if q = p \<and> is_file f p \<and> \<not> os_denied os Unlink p then None else fs_get f q)"
  by (auto simp: remove_file_def fs_remove_file_def is_file_def split: option.splits node.splits)

lemma remove_dir_get:
  "fs_get (remove_dir os f p) q \<noteq> None \<Longrightarrow> fs_get (remove_dir os f p) q = fs_get f q"
  by (auto simp: remove_dir_def fs_remove_dir_def split: option.splits node.splits if_splits)

lemma remove_dir_files:
  "is_file f q \<Longrightarrow> fs_get (remove_dir os f p) q = fs_get f q"
  by (auto simp: remove_dir_def fs_remove_dir_def is_file_def split: option.splits node.splits if_splits)

lemma fs_wf_remove_file [simp]: "fs_wf f \<Longrightarrow> fs_wf (remove_file os f p)"
  by (auto simp: remove_file_def fs_remove_file_def split: option.splits node.splits)

lemma fs_wf_remove_dir [simp]: "fs_wf f \<Longrightarrow> fs_wf (remove_dir os f p)"
  by (auto simp: remove_dir_def fs_remove_dir_def split: option.splits node.splits)

lemma fs_read_Inr: "fs_read os f p = Inr c \<longleftrightarrow> (\<exists>t. fs_get f p = Some (File c t)) \<and> \<not> os_denied os Read p"
  by (auto simp: fs_read_def split: option.splits node.splits)

lemma fs_write_ok:
  "fs_write os f p c = (None, f') \<Longrightarrow> f' = AList.update p (File c (os_now_ms os)) f"
  by (auto simp: fs_write_def split: if_splits)

lemma fs_write_frame: "q \<noteq> p \<Longrightarrow> fs_get (snd (fs_write os f p c)) q = fs_get f q"
  by (auto simp: fs_write_def split: option.splits)

lemma fs_rename_frame: "fs_rename os f p q = Inr f' \<Longrightarrow> x \<noteq> p \<Longrightarrow> x \<noteq> q \<Longrightarrow> fs_get f' x = fs_get f x"
  by (auto simp: fs_rename_def split: option.splits node.splits if_splits)

lemma fs_rename_target:
  "fs_rename os f p q = Inr f' \<Longrightarrow> fs_get f p = Some (File c t) \<Longrightarrow> fs_get f' q = Some (File c t)"
  by (auto simp: fs_rename_def split: if_splits)

subsection \<open>Listings depend on the directory only\<close>

lemma mkdirs_frame: "q \<notin> set ps \<Longrightarrow> fs_get (snd (mkdirs os f ps)) q = fs_get f q"
  by (induction os f ps rule: mkdirs.induct) (auto split: option.splits node.splits)

lemma ensure_dir_frame:
  assumes "q \<notin> set (prefixes p)" "q \<noteq> p"
  shows "fs_get (snd (ensure_dir os f p)) q = fs_get f q"
  using assms mkdirs_frame [OF assms(1), of os]
  by (auto simp: ensure_dir_def fs_remove_file_def split: sum.splits option.splits node.splits if_splits)

lemma list_sorted_cong:
  assumes "fs_get f d = fs_get g d" "\<And>p. p \<noteq> [] \<Longrightarrow> parent p = d \<Longrightarrow> fs_get f p = fs_get g p"
  shows "list_sorted_files os f d = list_sorted_files os g d"
proof -
  have "set (children f d) = set (children g d)"
    using assms(2) by (auto simp: children_mem path_exists_def)
  then have "sort (children f d) = sort (children g d)"
    by (intro sorted_distinct_set_unique) (auto simp: children_def)
  then show ?thesis using assms(1) by (simp add: list_sorted_files_def is_dir_def)
qed

subsection \<open>Scans over disjoint regions\<close>

text \<open>
  A scan processes entries one after another and changes the tree while it runs. Each entry owns a
  region of paths; its step changes nothing outside, and what it contributes (\<open>items\<close>, folded into
  the scan's value by \<open>add\<close>) depends on its region only. Then the value after the scan is computed
  from the tree as it was before.
\<close>

definition same_on :: "(path \<Rightarrow> bool) \<Rightarrow> fs \<Rightarrow> fs \<Rightarrow> bool" where
  "same_on R f g \<longleftrightarrow> (\<forall>p. R p \<longrightarrow> fs_get f p = fs_get g p)"

locale region_scan =
  fixes step :: "'s \<Rightarrow> 'd \<Rightarrow> 's"
    and tree :: "'s \<Rightarrow> fs"
    and val :: "'s \<Rightarrow> 'v"
    and add :: "'v \<Rightarrow> 'i \<Rightarrow> 'v"
    and items :: "fs \<Rightarrow> 'd \<Rightarrow> 'i list"
    and region :: "'d \<Rightarrow> path \<Rightarrow> bool"
    and entry :: "'d \<Rightarrow> bool"
  assumes step_frame: "entry d \<Longrightarrow> \<not> region d p \<Longrightarrow> fs_get (tree (step s d)) p = fs_get (tree s) p"
    and step_val: "entry d \<Longrightarrow> val (step s d) = foldl add (val s) (items (tree s) d)"
    and items_local: "entry d \<Longrightarrow> same_on (region d) f g \<Longrightarrow> items f d = items g d"
    and regions_disjoint: "entry d \<Longrightarrow> entry e \<Longrightarrow> d \<noteq> e \<Longrightarrow> region d p \<Longrightarrow> \<not> region e p"
begin

lemma scan_frame:
  "\<forall>d \<in> set ds. entry d \<and> \<not> region d p \<Longrightarrow> fs_get (tree (foldl step s ds)) p = fs_get (tree s) p"
  by (induction ds arbitrary: s) (auto simp: step_frame)

lemma scan_val:
  "distinct ds \<Longrightarrow> \<forall>d \<in> set ds. entry d \<Longrightarrow>
   val (foldl step s ds) = foldl add (val s) (concat (map (items (tree s)) ds))"
proof (induction ds arbitrary: s)
  case (Cons d ds)
  have nr: "\<not> region d p" if "e \<in> set ds" "region e p" for e p
    using that Cons.prems regions_disjoint [of e d p] by auto
  have "items (tree (step s d)) e = items (tree s) e" if "e \<in> set ds" for e
    using Cons.prems nr [OF that] that by (intro items_local) (auto simp: same_on_def step_frame)
  then have "concat (map (items (tree (step s d))) ds) = concat (map (items (tree s)) ds)"
    by (metis (no_types, lifting) map_eq_conv)
  then show ?case using Cons by (simp add: step_val)
qed simp

end

end
