(* ===== verification/Hath_Config.thy ===== *)
theory Hath_Config
  imports Hath_Fs
begin

text \<open>
  The configuration, \<^verbatim>\<open>src/src/config.rs\<close>: command line arguments, the settings record, how it is
  loaded, how the server's settings lines change it, and the credentials file. \<open>now\<close> is the Unix
  time in seconds; a process exit is the value \<open>None\<close> of \<open>apply_setting\<close>.
\<close>

record CliArgs =
  arg_client_id :: "u32 option"
  arg_client_key :: "string option"
  arg_data_dir :: string
  arg_log_dir :: string
  arg_cache_dir :: string
  arg_temp_dir :: string
  arg_download_dir :: string
  arg_port :: "u16 option"
  arg_verify_cache :: "bool option"
  arg_use_less_memory :: "bool option"
  arg_disable_logging :: "bool option"
  arg_disable_bwm :: "bool option"
  arg_disable_download_bwm :: "bool option"
  arg_disable_file_verification :: "bool option"
  arg_disable_ip_origin_check :: "bool option"
  arg_disable_flood_control :: "bool option"
  arg_skip_free_space_check :: "bool option"
  arg_flush_logs :: "bool option"
  arg_max_connections :: "u32 option"
  arg_filesystem_blocksize :: "u64 option"
  arg_image_proxy_type :: "string option"
  arg_image_proxy_host :: "string option"
  arg_image_proxy_port :: "u16 option"

record Config =
  cfg_client_id :: ClientId
  cfg_client_key :: ClientKey
  cfg_data_dir :: path
  cfg_log_dir :: path
  cfg_cache_dir :: path
  cfg_temp_dir :: path
  cfg_download_dir :: path
  cfg_client_port :: u16
  cfg_server_time_delta :: int
  cfg_throttle_bytes :: u32
  cfg_disklimit_bytes :: u64
  cfg_diskremaining_bytes :: u64
  cfg_filesystem_blocksize :: u64
  cfg_max_allowed_filesize :: u64
  cfg_max_filename_length :: u32
  cfg_rpc_servers :: "IpAddr list"
  cfg_rpc_port :: u16
  cfg_rpc_path :: string
  cfg_static_ranges :: "(string \<times> u8) list"
  cfg_static_range_count :: u32
  cfg_verify_cache :: bool
  cfg_rescan_cache :: bool
  cfg_use_less_memory :: bool
  cfg_disable_logging :: bool
  cfg_disable_bwm :: bool
  cfg_disable_download_bwm :: bool
  cfg_disable_file_verification :: bool
  cfg_disable_ip_origin_check :: bool
  cfg_disable_flood_control :: bool
  cfg_skip_free_space_check :: bool
  cfg_flush_logs :: bool
  cfg_warn_new_client :: bool
  cfg_image_proxy_type :: "string option"
  cfg_image_proxy_host :: "string option"
  cfg_image_proxy_port :: "u16 option"
  cfg_client_host :: string
  cfg_override_conns :: u32

text \<open>\<^verbatim>\<open>PathBuf::from\<close>: the components of a path; an absolute path starts with the root component.\<close>

definition path_from :: "string \<Rightarrow> path" where
  "path_from s = (if starts_with ''/'' s then [''/''] else [])
     @ filter (\<lambda>c. c \<noteq> [] \<and> c \<noteq> ''.'') (split_on CHR ''/'' s)"

text \<open>\<^verbatim>\<open>unwrap_or\<close>.\<close>

definition unwrap_or :: "'a option \<Rightarrow> 'a \<Rightarrow> 'a" where
  "unwrap_or x d = (case x of None \<Rightarrow> d | Some v \<Rightarrow> v)"

definition parse_login :: "string \<Rightarrow> string \<Rightarrow> string \<Rightarrow> (ClientId \<times> ClientKey) res" where
  "parse_login bad_id bad_key content =
     (case split_once CHR ''-'' (trim content) of
        None \<Rightarrow> Inl (Config_error ''malformed client_login file'')
      | Some (i_str, k_str) \<Rightarrow>
          (case parse_word i_str of
             None \<Rightarrow> Inl (Config_error bad_id)
           | Some i \<Rightarrow>
               (case ClientKey_new (trim k_str) of
                  None \<Rightarrow> Inl (Config_error bad_key)
                | Some key \<Rightarrow> Inr (ClientId i, key))))"

definition load_credentials :: "os \<Rightarrow> fs \<Rightarrow> CliArgs \<Rightarrow> (ClientId \<times> ClientKey) res" where
  "load_credentials os f args =
     (case (arg_client_id args, arg_client_key args) of
        (Some i, Some s) \<Rightarrow>
          (case ClientKey_new s of
             None \<Rightarrow> Inl (Config_error ''client key must be exactly 20 alphanumeric characters'')
           | Some key \<Rightarrow> Inr (ClientId i, key))
      | _ \<Rightarrow>
          let login_file = path_from (arg_data_dir args) @ [''client_login''] in
          if path_exists f login_file then
            (case read_string_file os f login_file of
               Inl _ \<Rightarrow> Inl (Config_error ''cannot read client_login'')
             | Inr content \<Rightarrow> parse_login ''invalid client ID in client_login'' ''invalid client key in client_login'' content)
          else Inl (Config_error ''No credentials found''))"

definition config_defaults :: "CliArgs \<Rightarrow> ClientId \<Rightarrow> ClientKey \<Rightarrow> Config" where
  "config_defaults args i key =
     \<lparr>cfg_client_id = i,
      cfg_client_key = key,
      cfg_data_dir = path_from (arg_data_dir args),
      cfg_log_dir = path_from (arg_log_dir args),
      cfg_cache_dir = path_from (arg_cache_dir args),
      cfg_temp_dir = path_from (arg_temp_dir args),
      cfg_download_dir = path_from (arg_download_dir args),
      cfg_client_port = unwrap_or (arg_port args) 0,
      cfg_server_time_delta = 0,
      cfg_throttle_bytes = 0,
      cfg_disklimit_bytes = 0,
      cfg_diskremaining_bytes = 0,
      cfg_filesystem_blocksize = unwrap_or (arg_filesystem_blocksize args) 4096,
      cfg_max_allowed_filesize = 1073741824,
      cfg_max_filename_length = 125,
      cfg_rpc_servers = [],
      cfg_rpc_port = 80,
      cfg_rpc_path = ''15/rpc?'',
      cfg_static_ranges = [],
      cfg_static_range_count = 0,
      cfg_verify_cache = unwrap_or (arg_verify_cache args) False,
      cfg_rescan_cache = unwrap_or (arg_verify_cache args) False,
      cfg_use_less_memory = unwrap_or (arg_use_less_memory args) False,
      cfg_disable_logging = unwrap_or (arg_disable_logging args) False,
      cfg_disable_bwm = unwrap_or (arg_disable_bwm args) False,
      cfg_disable_download_bwm = unwrap_or (arg_disable_download_bwm args) False,
      cfg_disable_file_verification = unwrap_or (arg_disable_file_verification args) False,
      cfg_disable_ip_origin_check = unwrap_or (arg_disable_ip_origin_check args) False,
      cfg_disable_flood_control = unwrap_or (arg_disable_flood_control args) False,
      cfg_skip_free_space_check = unwrap_or (arg_skip_free_space_check args) False,
      cfg_flush_logs = unwrap_or (arg_flush_logs args) False,
      cfg_warn_new_client = False,
      cfg_image_proxy_type = arg_image_proxy_type args,
      cfg_image_proxy_host = arg_image_proxy_host args,
      cfg_image_proxy_port = arg_image_proxy_port args,
      cfg_client_host = [],
      cfg_override_conns = unwrap_or (arg_max_connections args) 0\<rparr>"

definition load :: "os \<Rightarrow> fs \<Rightarrow> CliArgs \<Rightarrow> Config res" where
  "load os f args =
     (case load_credentials os f args of
        Inl e \<Rightarrow> Inl e
      | Inr (i, key) \<Rightarrow> Inr (config_defaults args i key))"

definition server_time :: "int \<Rightarrow> Config \<Rightarrow> int" where
  "server_time now c = i64_wrap (now + cfg_server_time_delta c)"

definition max_connections :: "Config \<Rightarrow> u32" where
  "max_connections c =
     (if 0 < cfg_override_conns c then cfg_override_conns c
      else 20 + min (cfg_throttle_bytes c div 10000) 480)"

definition is_static_range :: "Config \<Rightarrow> string \<Rightarrow> bool" where
  "is_static_range c r \<longleftrightarrow> r \<in> fst ` set (cfg_static_ranges c)"

definition CLIENT_BUILD :: int where
  "CLIENT_BUILD = 178"

definition parse_i32 :: "string \<Rightarrow> int option" where
  "parse_i32 s = (case parse_i64 s of
     Some i \<Rightarrow> if - (2 ^ 31) \<le> i \<and> i < 2 ^ 31 then Some i else None | None \<Rightarrow> None)"

definition parse_rpc_servers :: "string \<Rightarrow> IpAddr list" where
  "parse_rpc_servers value =
     map normalize_ip (concat (map (\<lambda>s. case parse_ip (trim s) of None \<Rightarrow> [] | Some ip \<Rightarrow> [ip])
       (split_on CHR '';'' value)))"

definition add_static_range :: "Config \<Rightarrow> string \<Rightarrow> Config" where
  "add_static_range c s =
     (if length s = 4
      then c\<lparr>cfg_static_range_count := cfg_static_range_count c + 1,
             cfg_static_ranges := AList.update s 1 (cfg_static_ranges c)\<rparr>
      else c)"

definition apply_static_ranges :: "Config \<Rightarrow> string \<Rightarrow> Config" where
  "apply_static_ranges c value =
     foldl add_static_range (c\<lparr>cfg_static_ranges := [], cfg_static_range_count := 0\<rparr>)
       (split_on CHR '';'' value)"

definition clamp :: "u64 \<Rightarrow> u64 \<Rightarrow> u64 \<Rightarrow> u64" where
  "clamp lo hi x = (if x < lo then lo else if hi < x then hi else x)"

definition normal_setting :: "string \<Rightarrow> string" where
  "normal_setting s = replace_all ''-'' ''_'' s"

definition client_host_of :: "string \<Rightarrow> string" where
  "client_host_of value =
     (case parse_ip value of Some ip \<Rightarrow> show_ip (normalize_ip ip) | None \<Rightarrow> value)"

definition set_cur_client_build :: "string \<Rightarrow> Config \<Rightarrow> Config" where
  "set_cur_client_build value c =
     (case parse_i32 value of
        Some b \<Rightarrow> if 178 < b then c\<lparr>cfg_warn_new_client := True\<rparr> else c
      | None \<Rightarrow> c)"

definition set_server_time :: "int \<Rightarrow> string \<Rightarrow> Config \<Rightarrow> Config" where
  "set_server_time now value c =
     (case parse_i64 value of
        Some st \<Rightarrow> c\<lparr>cfg_server_time_delta := i64_wrap (st - now)\<rparr>
      | None \<Rightarrow> c)"

definition set_port :: "string \<Rightarrow> Config \<Rightarrow> Config" where
  "set_port value c =
     (if cfg_client_port c = 0 then c\<lparr>cfg_client_port := unwrap_or (parse_word value) 0\<rparr> else c)"

definition set_disklimit :: "string \<Rightarrow> Config \<Rightarrow> Config" where
  "set_disklimit value c =
     (let new_limit = unwrap_or (parse_word value) 0
      in if cfg_disklimit_bytes c \<le> new_limit then c\<lparr>cfg_disklimit_bytes := new_limit\<rparr> else c)"

text \<open>
  The arms of the match on the setting's name, in the order of the source; the arm
  \<^verbatim>\<open>min_client_build\<close>, which may end the process, is in \<open>apply_setting\<close>.
\<close>

definition setting_arms :: "int \<Rightarrow> string \<Rightarrow> (string \<times> (Config \<Rightarrow> Config)) list" where
  "setting_arms now value =
    [(''cur_client_build'', set_cur_client_build value),
     (''server_time'', set_server_time now value),
     (''rpc_server_port'', \<lambda>c. c\<lparr>cfg_rpc_port := unwrap_or (parse_word value) 80\<rparr>),
     (''rpc_server_ip'', \<lambda>c. c\<lparr>cfg_rpc_servers := parse_rpc_servers value\<rparr>),
     (''rpc_path'', \<lambda>c. c\<lparr>cfg_rpc_path := value\<rparr>),
     (''host'', \<lambda>c. c\<lparr>cfg_client_host := client_host_of value\<rparr>),
     (''port'', set_port value),
     (''throttle_bytes'', \<lambda>c. c\<lparr>cfg_throttle_bytes := unwrap_or (parse_word value) 0\<rparr>),
     (''disklimit_bytes'', set_disklimit value),
     (''diskremaining_bytes'', \<lambda>c. c\<lparr>cfg_diskremaining_bytes := unwrap_or (parse_word value) 0\<rparr>),
     (''filesystem_blocksize'',
        \<lambda>c. c\<lparr>cfg_filesystem_blocksize := clamp 1 65536 (unwrap_or (parse_word value) 4096)\<rparr>),
     (''rescan_cache'', \<lambda>c. c\<lparr>cfg_rescan_cache := (value = ''true'')\<rparr>),
     (''verify_cache'',
        \<lambda>c. c\<lparr>cfg_verify_cache := (value = ''true''), cfg_rescan_cache := (value = ''true'')\<rparr>),
     (''use_less_memory'', \<lambda>c. c\<lparr>cfg_use_less_memory := (value = ''true'')\<rparr>),
     (''disable_logging'', \<lambda>c. c\<lparr>cfg_disable_logging := (value = ''true'')\<rparr>),
     (''disable_bwm'',
        \<lambda>c. c\<lparr>cfg_disable_bwm := (value = ''true''), cfg_disable_download_bwm := (value = ''true'')\<rparr>),
     (''disable_download_bwm'', \<lambda>c. c\<lparr>cfg_disable_download_bwm := (value = ''true'')\<rparr>),
     (''disable_file_verification'', \<lambda>c. c\<lparr>cfg_disable_file_verification := (value = ''true'')\<rparr>),
     (''disable_ip_origin_check'', \<lambda>c. c\<lparr>cfg_disable_ip_origin_check := (value = ''true'')\<rparr>),
     (''disable_flood_control'', \<lambda>c. c\<lparr>cfg_disable_flood_control := (value = ''true'')\<rparr>),
     (''skip_free_space_check'', \<lambda>c. c\<lparr>cfg_skip_free_space_check := (value = ''true'')\<rparr>),
     (''flush_logs'', \<lambda>c. c\<lparr>cfg_flush_logs := (value = ''true'')\<rparr>),
     (''max_connections'', \<lambda>c. c\<lparr>cfg_override_conns := unwrap_or (parse_word value) 0\<rparr>),
     (''max_allowed_filesize'',
        \<lambda>c. c\<lparr>cfg_max_allowed_filesize := unwrap_or (parse_word value) 1073741824\<rparr>),
     (''max_filename_length'', \<lambda>c. c\<lparr>cfg_max_filename_length := unwrap_or (parse_word value) 125\<rparr>),
     (''static_ranges'', \<lambda>c. apply_static_ranges c value),
     (''static_range_count'',
        \<lambda>c. c\<lparr>cfg_static_range_count := unwrap_or (parse_word value) (cfg_static_range_count c)\<rparr>),
     (''cache_dir'', \<lambda>c. c\<lparr>cfg_cache_dir := path_from value\<rparr>),
     (''temp_dir'', \<lambda>c. c\<lparr>cfg_temp_dir := path_from value\<rparr>),
     (''data_dir'', \<lambda>c. c\<lparr>cfg_data_dir := path_from value\<rparr>),
     (''log_dir'', \<lambda>c. c\<lparr>cfg_log_dir := path_from value\<rparr>),
     (''download_dir'', \<lambda>c. c\<lparr>cfg_download_dir := path_from value\<rparr>),
     (''image_proxy_type'', \<lambda>c. c\<lparr>cfg_image_proxy_type := Some (to_lowercase value)\<rparr>),
     (''image_proxy_host'', \<lambda>c. c\<lparr>cfg_image_proxy_host := Some (to_lowercase value)\<rparr>),
     (''image_proxy_port'', \<lambda>c. c\<lparr>cfg_image_proxy_port := parse_word value\<rparr>)]"

definition apply_setting :: "int \<Rightarrow> string \<Rightarrow> string \<Rightarrow> Config \<Rightarrow> Config option" where
  "apply_setting now setting0 value c =
     (let setting = normal_setting setting0 in
      if setting = ''min_client_build'' then
        (case parse_i32 value of
           Some b \<Rightarrow> if CLIENT_BUILD < b then None else Some c
         | None \<Rightarrow> Some c)
      else (case map_of (setting_arms now value) setting of
              Some arm \<Rightarrow> Some (arm c)
            | None \<Rightarrow> Some c))"

fun apply_server_settings :: "int \<Rightarrow> string list \<Rightarrow> Config \<Rightarrow> Config option" where
  "apply_server_settings now [] c = Some c"
| "apply_server_settings now (line # ls) c =
     (case split_once CHR ''='' line of
        Some (key, value) \<Rightarrow>
          (case apply_setting now (to_lowercase key) value c of
             None \<Rightarrow> None
           | Some c' \<Rightarrow> apply_server_settings now ls c')
      | None \<Rightarrow> apply_server_settings now ls c)"

subsection \<open>The credentials file\<close>

definition load_client_login :: "os \<Rightarrow> fs \<Rightarrow> Config \<Rightarrow> (ClientId \<times> ClientKey) option res" where
  "load_client_login os f c =
     (let login_file = cfg_data_dir c @ [''client_login''] in
      if \<not> path_exists f login_file then Inr None
      else case read_string_file os f login_file of
          Inl _ \<Rightarrow> Inl (Io ''client_login'')
        | Inr content \<Rightarrow>
            (case parse_login ''invalid client ID'' ''invalid client key format'' content of Inl e \<Rightarrow> Inl e | Inr r \<Rightarrow> Inr (Some r)))"

definition login_text :: "ClientId \<Rightarrow> ClientKey \<Rightarrow> string" where
  "login_text i key = show_word (client_id_val i) @ ''-'' @ key_str key"

definition save_client_login :: "os \<Rightarrow> fs \<Rightarrow> Config \<Rightarrow> HathError option \<times> fs" where
  "save_client_login os f c =
     (case ensure_dir os f (cfg_data_dir c) of
        (Some _, f1) \<Rightarrow> (Some (Io ''ensure_dir''), f1)
      | (None, f1) \<Rightarrow>
          (case fs_write os f1 (cfg_data_dir c @ [''client_login''])
                  (login_text (cfg_client_id c) (cfg_client_key c)) of
             (Some _, f2) \<Rightarrow> (Some (Io ''client_login''), f2)
           | (None, f2) \<Rightarrow> (None, f2)))"

fun ensure_dirs :: "os \<Rightarrow> fs \<Rightarrow> path list \<Rightarrow> HathError option \<times> fs" where
  "ensure_dirs os f [] = (None, f)"
| "ensure_dirs os f (d # ds) =
     (case ensure_dir os f d of
        (Some _, f1) \<Rightarrow> (Some (Io ''ensure_dir''), f1)
      | (None, f1) \<Rightarrow> ensure_dirs os f1 ds)"

definition initialize_directories :: "os \<Rightarrow> fs \<Rightarrow> Config \<Rightarrow> HathError option \<times> fs" where
  "initialize_directories os f c =
     ensure_dirs os f [cfg_data_dir c, cfg_log_dir c, cfg_cache_dir c, cfg_temp_dir c, cfg_download_dir c]"

subsection \<open>What settings can change\<close>

lemma unwrap_or_simps [simp]: "unwrap_or (Some v) d = v" "unwrap_or None d = d"
  by (simp_all add: unwrap_or_def)

lemma apply_server_settings_induct:
  assumes "\<And>s v c c'. P c \<Longrightarrow> apply_setting now s v c = Some c' \<Longrightarrow> P c'"
    and "apply_server_settings now ls c = Some c'" "P c"
  shows "P c'"
  using assms(2,3)
  by (induction ls arbitrary: c) (auto split: option.splits prod.splits dest: assms(1))

text \<open>What later settings can rely on: the settings are a machine that keeps this invariant.\<close>

definition config_inv :: "Config \<Rightarrow> bool" where
  "config_inv c \<longleftrightarrow>
     is_i64 (cfg_server_time_delta c)
     \<and> (\<forall>ip \<in> set (cfg_rpc_servers c). normalize_ip ip = ip)
     \<and> distinct (map fst (cfg_static_ranges c))
     \<and> (\<forall>r \<in> fst ` set (cfg_static_ranges c). length r = 4)"

lemma add_static_range_keeps:
  "cfg_disklimit_bytes (add_static_range c s) = cfg_disklimit_bytes c"
  "cfg_filesystem_blocksize (add_static_range c s) = cfg_filesystem_blocksize c"
  "cfg_client_port (add_static_range c s) = cfg_client_port c"
  "cfg_client_id (add_static_range c s) = cfg_client_id c"
  "cfg_client_key (add_static_range c s) = cfg_client_key c"
  "config_inv c \<Longrightarrow> config_inv (add_static_range c s)"
  by (auto simp: add_static_range_def config_inv_def distinct_update dest!: update_key_mem)

lemma apply_static_ranges_keeps:
  "cfg_disklimit_bytes (apply_static_ranges c v) = cfg_disklimit_bytes c"
  "cfg_filesystem_blocksize (apply_static_ranges c v) = cfg_filesystem_blocksize c"
  "cfg_client_port (apply_static_ranges c v) = cfg_client_port c"
  "cfg_client_id (apply_static_ranges c v) = cfg_client_id c"
  "cfg_client_key (apply_static_ranges c v) = cfg_client_key c"
proof -
  have "P (foldl add_static_range d rs) = P d" if "\<And>c s. P (add_static_range c s) = P c" for P :: "Config \<Rightarrow> 'x" and d rs
    using that by (induction rs arbitrary: d) auto
  note k = this
  show "cfg_disklimit_bytes (apply_static_ranges c v) = cfg_disklimit_bytes c"
    "cfg_filesystem_blocksize (apply_static_ranges c v) = cfg_filesystem_blocksize c"
    "cfg_client_port (apply_static_ranges c v) = cfg_client_port c"
    "cfg_client_id (apply_static_ranges c v) = cfg_client_id c"
    "cfg_client_key (apply_static_ranges c v) = cfg_client_key c"
    by (simp_all add: apply_static_ranges_def k add_static_range_keeps)
qed

interpretation static_ranges: invariant_machine add_static_range config_inv
  by unfold_locales (rule add_static_range_keeps)

lemma apply_static_ranges_inv: "config_inv c \<Longrightarrow> config_inv (apply_static_ranges c v)"
  unfolding apply_static_ranges_def by (rule static_ranges.run_inv) (simp add: config_inv_def)

lemma parse_rpc_servers_normal: "ip \<in> set (parse_rpc_servers v) \<Longrightarrow> normalize_ip ip = ip"
  by (auto simp: parse_rpc_servers_def)

lemma clamp_bounds: "lo \<le> hi \<Longrightarrow> lo \<le> clamp lo hi x \<and> clamp lo hi x \<le> hi"
  by (auto simp: clamp_def)

lemma apply_setting_cases:
  assumes "apply_setting now s v c = Some c'"
  shows "c' = c \<or> (\<exists>k arm. (k, arm) \<in> set (setting_arms now v) \<and> c' = arm c)"
  using assms by (auto simp: apply_setting_def Let_def dest!: map_of_SomeD split: if_splits option.splits)

text \<open>A property of configurations that every arm keeps holds after any list of settings.\<close>

lemma server_settings_keep:
  assumes "\<And>v c arm. P c \<Longrightarrow> arm \<in> snd ` set (setting_arms now v) \<Longrightarrow> P (arm c)"
    and "apply_server_settings now ls c = Some c'" "P c"
  shows "P c'"
proof -
  have step: "P c'" if "P c" "apply_setting now s v c = Some c'" for s v c c'
    using apply_setting_cases [OF that(2)] that(1) assms(1) by force
  show ?thesis by (rule apply_server_settings_induct [where P = P, OF step assms(2,3)])
qed

lemmas arm_simps = set_cur_client_build_def set_server_time_def set_port_def
  set_disklimit_def Let_def apply_static_ranges_keeps

text \<open>Updates of fields the invariant does not mention.\<close>

lemma config_inv_upd:
  "config_inv (c\<lparr>cfg_rpc_port := a\<rparr>) = config_inv c" "config_inv (c\<lparr>cfg_rpc_path := b\<rparr>) = config_inv c"
  "config_inv (c\<lparr>cfg_client_host := b\<rparr>) = config_inv c" "config_inv (c\<lparr>cfg_throttle_bytes := d\<rparr>) = config_inv c"
  "config_inv (c\<lparr>cfg_diskremaining_bytes := e\<rparr>) = config_inv c"
  "config_inv (c\<lparr>cfg_filesystem_blocksize := e\<rparr>) = config_inv c"
  "config_inv (c\<lparr>cfg_rescan_cache := g\<rparr>) = config_inv c"
  "config_inv (c\<lparr>cfg_verify_cache := g\<rparr>) = config_inv c"
  "config_inv (c\<lparr>cfg_use_less_memory := g\<rparr>) = config_inv c"
  "config_inv (c\<lparr>cfg_disable_logging := g\<rparr>) = config_inv c"
  "config_inv (c\<lparr>cfg_disable_bwm := g\<rparr>) = config_inv c"
  "config_inv (c\<lparr>cfg_disable_download_bwm := g\<rparr>) = config_inv c"
  "config_inv (c\<lparr>cfg_disable_file_verification := g\<rparr>) = config_inv c"
  "config_inv (c\<lparr>cfg_disable_ip_origin_check := g\<rparr>) = config_inv c"
  "config_inv (c\<lparr>cfg_disable_flood_control := g\<rparr>) = config_inv c"
  "config_inv (c\<lparr>cfg_skip_free_space_check := g\<rparr>) = config_inv c"
  "config_inv (c\<lparr>cfg_flush_logs := g\<rparr>) = config_inv c"
  "config_inv (c\<lparr>cfg_override_conns := d\<rparr>) = config_inv c"
  "config_inv (c\<lparr>cfg_max_allowed_filesize := e\<rparr>) = config_inv c"
  "config_inv (c\<lparr>cfg_max_filename_length := d\<rparr>) = config_inv c"
  "config_inv (c\<lparr>cfg_static_range_count := d\<rparr>) = config_inv c"
  "config_inv (c\<lparr>cfg_cache_dir := p\<rparr>) = config_inv c" "config_inv (c\<lparr>cfg_temp_dir := p\<rparr>) = config_inv c"
  "config_inv (c\<lparr>cfg_data_dir := p\<rparr>) = config_inv c" "config_inv (c\<lparr>cfg_log_dir := p\<rparr>) = config_inv c"
  "config_inv (c\<lparr>cfg_download_dir := p\<rparr>) = config_inv c"
  "config_inv (c\<lparr>cfg_image_proxy_type := q\<rparr>) = config_inv c"
  "config_inv (c\<lparr>cfg_image_proxy_host := q\<rparr>) = config_inv c"
  "config_inv (c\<lparr>cfg_image_proxy_port := r\<rparr>) = config_inv c"
  by (simp_all add: config_inv_def)

lemma arm_value_inv:
  assumes "config_inv c"
  shows "config_inv (set_cur_client_build v c)" "config_inv (set_server_time now v c)"
    "config_inv (set_port v c)" "config_inv (set_disklimit v c)"
    "config_inv (c\<lparr>cfg_rpc_servers := parse_rpc_servers v\<rparr>)"
  using assms
  by (auto simp: arm_simps config_inv_def parse_rpc_servers_normal split: option.splits)

lemma arms_inv: "config_inv c \<Longrightarrow> list_all (\<lambda>(k, arm). config_inv (arm c)) (setting_arms now v)"
  by (simp add: setting_arms_def config_inv_upd arm_value_inv apply_static_ranges_inv)

lemma arms_disklimit:
  "list_all (\<lambda>(k, arm). cfg_disklimit_bytes c \<le> cfg_disklimit_bytes (arm c)) (setting_arms now v)"
  by (simp add: setting_arms_def arm_simps split: option.split)

lemma arms_credentials:
  "list_all (\<lambda>(k, arm). cfg_client_id (arm c) = cfg_client_id c \<and> cfg_client_key (arm c) = cfg_client_key c)
     (setting_arms now v)"
  by (simp add: setting_arms_def arm_simps split: option.split)

lemma arms_port:
  "cfg_client_port c \<noteq> 0 \<Longrightarrow>
   list_all (\<lambda>(k, arm). cfg_client_port (arm c) = cfg_client_port c) (setting_arms now v)"
  by (simp add: setting_arms_def arm_simps split: option.split)

lemma arms_blocksize:
  "1 \<le> cfg_filesystem_blocksize c \<Longrightarrow> cfg_filesystem_blocksize c \<le> 65536 \<Longrightarrow>
   list_all (\<lambda>(k, arm). 1 \<le> cfg_filesystem_blocksize (arm c) \<and> cfg_filesystem_blocksize (arm c) \<le> 65536)
     (setting_arms now v)"
  by (simp add: setting_arms_def arm_simps clamp_bounds split: option.split)

text \<open>\<^verbatim>\<open>P\<close> of a configuration, kept by every arm, is kept by a whole response.\<close>

lemma server_settings_keep':
  assumes "\<And>c v. P c \<Longrightarrow> list_all (\<lambda>(k, arm). P (arm c)) (setting_arms now v)"
    and "apply_server_settings now ls c = Some c'" "P c"
  shows "P c'"
  by (rule server_settings_keep [where P = P, OF _ assms(2,3)])
    (use assms(1) in \<open>fastforce simp: list_all_iff\<close>)

lemma arms_disklimit':
  "L \<le> cfg_disklimit_bytes c \<Longrightarrow> list_all (\<lambda>(k, arm). L \<le> cfg_disklimit_bytes (arm c)) (setting_arms now v)"
  using arms_disklimit [of c now v] by (fastforce simp: list_all_iff intro: order_trans)

lemma arms_credentials':
  "cfg_client_id c = i \<Longrightarrow> list_all (\<lambda>(k, arm). cfg_client_id (arm c) = i) (setting_arms now v)"
  "cfg_client_key c = y \<Longrightarrow> list_all (\<lambda>(k, arm). cfg_client_key (arm c) = y) (setting_arms now v)"
  using arms_credentials [of c now v] by (auto simp: list_all_iff)

lemma arms_port':
  "cfg_client_port c = p \<Longrightarrow> p \<noteq> 0 \<Longrightarrow> list_all (\<lambda>(k, arm). cfg_client_port (arm c) = p) (setting_arms now v)"
  using arms_port [of c now v] by simp

subsection \<open>The static ranges\<close>

lemma add_static_ranges_fold:
  "fst ` set (cfg_static_ranges (foldl add_static_range c rs))
     = fst ` set (cfg_static_ranges c) \<union> {r \<in> set rs. length r = 4}"
  "cfg_static_range_count (foldl add_static_range c rs)
     = cfg_static_range_count c + of_nat (length (filter (\<lambda>r. length r = 4) rs))"
proof -
  show "fst ` set (cfg_static_ranges (foldl add_static_range c rs))
     = fst ` set (cfg_static_ranges c) \<union> {r \<in> set rs. length r = 4}"
    by (induction rs arbitrary: c) (auto simp: add_static_range_def dom_update)
  show "cfg_static_range_count (foldl add_static_range c rs)
     = cfg_static_range_count c + of_nat (length (filter (\<lambda>r. length r = 4) rs))"
    by (induction rs arbitrary: c) (auto simp: add_static_range_def)
qed

subsection \<open>Properties\<close>

text \<open>
  C37: whatever settings lines the server sends, the credentials stay, the disk limit never
  decreases, a client port that is set stays, a block size inside 1 to 65536 stays inside, and the
  configuration invariant is kept (the clock offset is an \<^verbatim>\<open>i64\<close>, RPC addresses are normalised, static
  ranges are distinct and four characters long).
\<close>

theorem server_settings_safe:
  assumes "apply_server_settings now ls c = Some c'"
  shows "cfg_client_id c' = cfg_client_id c \<and> cfg_client_key c' = cfg_client_key c
    \<and> cfg_disklimit_bytes c \<le> cfg_disklimit_bytes c'
    \<and> (cfg_client_port c \<noteq> 0 \<longrightarrow> cfg_client_port c' = cfg_client_port c)
    \<and> (1 \<le> cfg_filesystem_blocksize c \<and> cfg_filesystem_blocksize c \<le> 65536 \<longrightarrow>
         1 \<le> cfg_filesystem_blocksize c' \<and> cfg_filesystem_blocksize c' \<le> 65536)
    \<and> (config_inv c \<longrightarrow> config_inv c')"
proof (intro conjI impI)
  show "cfg_client_id c' = cfg_client_id c"
    by (rule server_settings_keep' [where P = "\<lambda>d. cfg_client_id d = cfg_client_id c", OF _ assms])
      (simp_all add: arms_credentials')
  show "cfg_client_key c' = cfg_client_key c"
    by (rule server_settings_keep' [where P = "\<lambda>d. cfg_client_key d = cfg_client_key c", OF _ assms])
      (simp_all add: arms_credentials')
  show "cfg_disklimit_bytes c \<le> cfg_disklimit_bytes c'"
    by (rule server_settings_keep' [where P = "\<lambda>d. cfg_disklimit_bytes c \<le> cfg_disklimit_bytes d", OF _ assms])
      (simp_all add: arms_disklimit')
  assume "cfg_client_port c \<noteq> 0"
  then show "cfg_client_port c' = cfg_client_port c"
    by (intro server_settings_keep' [where P = "\<lambda>d. cfg_client_port d = cfg_client_port c", OF _ assms])
      (simp_all add: arms_port')
next
  assume "1 \<le> cfg_filesystem_blocksize c \<and> cfg_filesystem_blocksize c \<le> 65536"
  then have "1 \<le> cfg_filesystem_blocksize c' \<and> cfg_filesystem_blocksize c' \<le> 65536"
    by (intro server_settings_keep' [where P = "\<lambda>d. 1 \<le> cfg_filesystem_blocksize d \<and> cfg_filesystem_blocksize d \<le> 65536", OF _ assms])
      (simp_all add: arms_blocksize)
  then show "1 \<le> cfg_filesystem_blocksize c'" "cfg_filesystem_blocksize c' \<le> 65536" by simp_all
next
  assume "config_inv c"
  then show "config_inv c'"
    by (intro server_settings_keep' [where P = config_inv, OF _ assms]) (simp_all add: arms_inv)
qed

definition sample_args :: CliArgs where
  "sample_args = \<lparr>arg_client_id = Some 7, arg_client_key = Some ''abcdefghijABCDEFGHIJ'',
     arg_data_dir = ''data'', arg_log_dir = ''log'', arg_cache_dir = ''cache'', arg_temp_dir = ''tmp'',
     arg_download_dir = ''download'', arg_port = None, arg_verify_cache = None,
     arg_use_less_memory = None, arg_disable_logging = None, arg_disable_bwm = None,
     arg_disable_download_bwm = None, arg_disable_file_verification = None,
     arg_disable_ip_origin_check = None, arg_disable_flood_control = None,
     arg_skip_free_space_check = None, arg_flush_logs = None, arg_max_connections = None,
     arg_filesystem_blocksize = None, arg_image_proxy_type = None, arg_image_proxy_host = None,
     arg_image_proxy_port = None\<rparr>"

definition sample_config :: Config where
  "sample_config = config_defaults sample_args (ClientId 7) (ClientKey ''abcdefghijABCDEFGHIJ'')"

lemmas setting_eval = apply_setting_def setting_arms_def arm_simps normal_setting_def replace_all.simps
  split_once_def starts_with_def parse_eval

theorem server_settings_safe_witness:
  "apply_server_settings 0 [''disklimit-bytes=1000'', ''disklimit_bytes=10''] sample_config
     = Some (sample_config\<lparr>cfg_disklimit_bytes := 1000\<rparr>)
   \<and> cfg_client_key (sample_config\<lparr>cfg_disklimit_bytes := 1000\<rparr>) = cfg_client_key sample_config
   \<and> config_inv (sample_config\<lparr>cfg_disklimit_bytes := 1000\<rparr>)"
proof -
  have e: "apply_server_settings 0 [''disklimit-bytes=1000'', ''disklimit_bytes=10''] sample_config
    = Some (sample_config\<lparr>cfg_disklimit_bytes := 1000\<rparr>)"
    by (simp add: setting_eval sample_config_def config_defaults_def)
  have "config_inv sample_config" by (simp add: sample_config_def config_defaults_def config_inv_def is_i64_def)
  then show ?thesis using server_settings_safe [OF e] e by blast
qed

text \<open>
  the \<^verbatim>\<open>static_ranges\<close> setting assigns exactly the four-character pieces of its value. The count
  next to the map counts pieces, so a repeated piece counts twice.
\<close>

theorem static_ranges_setting:
  "apply_setting now ''static_ranges'' v c = Some (apply_static_ranges c v)
   \<and> (is_static_range (apply_static_ranges c v) r \<longleftrightarrow> length r = 4 \<and> r \<in> set (split_on CHR '';'' v))
   \<and> cfg_static_range_count (apply_static_ranges c v)
       = of_nat (length (filter (\<lambda>r. length r = 4) (split_on CHR '';'' v)))"
  by (auto simp: apply_static_ranges_def is_static_range_def add_static_ranges_fold
      apply_setting_def setting_arms_def normal_setting_def replace_all.simps starts_with_def)

lemma login_text_parses:
  assumes "ClientKey_new (key_str key) = Some key"
  shows "parse_login a b (login_text i key) = Inr (i, key)"
proof -
  have k: "length (key_str key) = 20" "\<forall>c \<in> set (key_str key). is_ascii_alphanumeric c"
    using assms by (auto simp: ClientKey_new_def list_all_iff split: if_splits)
  have tk: "trim (key_str key) = key_str key"
    using k by (intro trim_no_whitespace) (auto simp: alphanumeric_not_whitespace)
  have "\<not> is_whitespace CHR ''-''" by (simp add: is_whitespace_def char_code_def)
  moreover have "\<forall>c \<in> set (show_word (client_id_val i)). \<not> is_whitespace c"
    using show_nat_digits digit_not_whitespace by blast
  ultimately have "\<forall>c \<in> set (login_text i key). \<not> is_whitespace c"
    using k by (auto simp: login_text_def alphanumeric_not_whitespace)
  then have "trim (login_text i key) = login_text i key" by (rule trim_no_whitespace)
  moreover have "split_once CHR ''-'' (login_text i key) = Some (show_word (client_id_val i), key_str key)"
    by (simp add: login_text_def split_once_append show_nat_no_char)
  ultimately show ?thesis using assms tk by (simp add: parse_login_def)
qed

lemma login_text_ascii:
  assumes "ClientKey_new (key_str key) = Some key"
  shows "is_ascii (login_text i key)"
proof -
  have k: "\<forall>c \<in> set (key_str key). is_ascii_alphanumeric c"
    using assms by (auto simp: ClientKey_new_def list_all_iff split: if_splits)
  have "char_code c < 128" if "is_ascii_alphanumeric c \<or> is_ascii_digit c" for c
    using that by (auto simp: char_class_defs)
  then show ?thesis using k show_nat_digits by (auto simp: is_ascii_def login_text_def char_code_def)
qed

text \<open>
  credentials survive a restart: when \<^verbatim>\<open>save_client_login\<close> succeeds, a later \<^verbatim>\<open>load_client_login\<close>
  from the same data directory returns exactly the id and the key that were saved.
\<close>

theorem client_login_roundtrip:
  assumes "save_client_login os f c = (None, f')"
    and "ClientKey_new (key_str (cfg_client_key c)) = Some (cfg_client_key c)"
    and "cfg_data_dir c' = cfg_data_dir c" "\<not> os_denied os' Read (cfg_data_dir c @ [''client_login''])"
  shows "load_client_login os' f' c' = Inr (Some (cfg_client_id c, cfg_client_key c))"
proof -
  let ?p = "cfg_data_dir c @ [''client_login'']" and ?t = "login_text (cfg_client_id c) (cfg_client_key c)"
  have "fs_get f' ?p = Some (File ?t (os_now_ms os))"
    using assms(1) by (auto simp: save_client_login_def dest!: fs_write_ok split: prod.splits option.splits)
  then have "path_exists f' ?p" "read_string_file os' f' ?p = Inr ?t"
    using assms(4) valid_utf8_ascii [OF login_text_ascii [OF assms(2)]]
    by (auto simp: path_exists_def read_string_file_def fs_read_def)
  then show ?thesis
    using assms(3) login_text_parses [OF assms(2)] by (simp add: load_client_login_def Let_def)
qed

definition sample_os :: os where
  "sample_os = \<lparr>os_denied = (\<lambda>_ _. False), os_partial = (\<lambda>_. None), os_now_ms = 1000,
     os_free_space = (\<lambda>_. None)\<rparr>"

theorem client_login_roundtrip_witness:
  "load_client_login sample_os (snd (save_client_login sample_os [] sample_config)) sample_config
     = Inr (Some (ClientId 7, ClientKey ''abcdefghijABCDEFGHIJ''))"
proof -
  have s: "save_client_login sample_os [] sample_config = (None, snd (save_client_login sample_os [] sample_config))"
    by (simp add: save_client_login_def ensure_dir_def is_file_def is_dir_def prefixes_def sample_config_def
        config_defaults_def sample_args_def path_from_def starts_with_def sample_os_def fs_write_def upt_rec parent_def)
  have "ClientKey_new (key_str (cfg_client_key sample_config)) = Some (cfg_client_key sample_config)"
    by (simp add: sample_config_def config_defaults_def ClientKey_new_def char_eval)
  from client_login_roundtrip [OF s this refl, of sample_os] show ?thesis
    by (simp add: sample_os_def sample_config_def config_defaults_def)
qed

end
