(* ===== verification/Hath_Lru.thy ===== *)
theory Hath_Lru
  imports Hath_File
begin

text \<open>
  The table of recently accessed files, \<^verbatim>\<open>src/src/cache/lru.rs\<close>: one bit per 24-bit prefix of a
  hash, and a pointer that clears seventeen entries per cycle. \<open>recency_set\<close> is the interface the
  cache relies on; \<open>lru_abs\<close> reads the table as the set of marked keys.
\<close>

unbundle bit_operations_syntax

definition LRU_CACHE_SIZE :: nat where
  "LRU_CACHE_SIZE = 1048576"

record LruState =
  lru_cache_table :: "u16 list"
  lru_clear_pointer :: u64

definition LruState_new :: LruState where
  "LruState_new = \<lparr>lru_cache_table = replicate LRU_CACHE_SIZE 0, lru_clear_pointer = 0\<rparr>"

definition lru_index :: "string \<Rightarrow> nat" where
  "lru_index fid = (case from_str_radix 16 (2 ^ 64 - 1) (take 5 (drop 4 fid)) of None \<Rightarrow> 0 | Some v \<Rightarrow> v)"

definition lru_bit :: "string \<Rightarrow> nat" where
  "lru_bit fid = (case from_str_radix 16 (2 ^ 16 - 1) (take 1 (drop 9 fid)) of None \<Rightarrow> 0 | Some v \<Rightarrow> v)"

text \<open>\<open>None\<close> is the panic of an index out of range; \<^verbatim>\<open>1u16 << n\<close> needs \<open>n < 16\<close>.\<close>

definition mark_recently_accessed :: "LruState \<Rightarrow> string \<Rightarrow> (bool \<times> LruState) option" where
  "mark_recently_accessed l fid =
     (if length fid < 10 then Some (False, l)
      else let i = lru_index fid; m = (push_bit (lru_bit fid) 1 :: u16) in
        if length (lru_cache_table l) \<le> i \<or> 16 \<le> lru_bit fid then None
        else if lru_cache_table l ! i AND m \<noteq> 0 then Some (False, l)
        else Some (True, l\<lparr>lru_cache_table := (lru_cache_table l)[i := lru_cache_table l ! i OR m]\<rparr>))"

text \<open>\<open>None\<close> is the panic of the slice \<^verbatim>\<open>[pointer..clear_until]\<close>.\<close>

definition cycle :: "LruState \<Rightarrow> LruState option" where
  "cycle l =
     (let p = lru_clear_pointer l;
          clear_until = min (p + 17) (of_nat LRU_CACHE_SIZE)
      in if p \<le> clear_until \<and> unat clear_until \<le> length (lru_cache_table l)
         then Some \<lparr>lru_cache_table = take (unat p) (lru_cache_table l)
                      @ replicate (unat clear_until - unat p) 0
                      @ drop (unat clear_until) (lru_cache_table l),
                    lru_clear_pointer = (if of_nat LRU_CACHE_SIZE \<le> clear_until then 0 else clear_until)\<rparr>
         else None)"

text \<open>The callers' view of marking: the table keeps its length, so no index is out of range.\<close>

definition lru_mark :: "LruState \<Rightarrow> string \<Rightarrow> bool \<times> LruState" where
  "lru_mark l fid = (case mark_recently_accessed l fid of None \<Rightarrow> (False, l) | Some r \<Rightarrow> r)"

subsection \<open>Invariant and abstraction\<close>

definition lru_inv :: "LruState \<Rightarrow> bool" where
  "lru_inv l \<longleftrightarrow> length (lru_cache_table l) = LRU_CACHE_SIZE \<and> unat (lru_clear_pointer l) < LRU_CACHE_SIZE"

definition lru_abs :: "LruState \<Rightarrow> (nat \<times> nat) set" where
  "lru_abs l = {(i, b). i < length (lru_cache_table l) \<and> b < 16 \<and> bit (lru_cache_table l ! i) b}"

definition lru_key :: "string \<Rightarrow> nat \<times> nat" where
  "lru_key fid = (lru_index fid, lru_bit fid)"

lemma lru_inv_new: "lru_inv LruState_new"
  by (simp add: lru_inv_def LruState_new_def LRU_CACHE_SIZE_def)

lemma lru_index_less: "lru_index fid < LRU_CACHE_SIZE"
proof (cases "from_str_radix 16 (2 ^ 64 - 1) (take 5 (drop 4 fid))")
  case (Some v)
  have "v < 16 ^ length (take 5 (drop 4 fid))" using from_str_radix_bound [OF Some] by simp
  also have "\<dots> \<le> 16 ^ 5" by (rule power_increasing) auto
  finally show ?thesis using Some by (simp add: lru_index_def LRU_CACHE_SIZE_def)
qed (simp add: lru_index_def LRU_CACHE_SIZE_def)

lemma lru_bit_less: "lru_bit fid < 16"
proof (cases "from_str_radix 16 (2 ^ 16 - 1) (take 1 (drop 9 fid))")
  case (Some v)
  have "v < 16 ^ length (take 1 (drop 9 fid))" using from_str_radix_bound [OF Some] by simp
  also have "\<dots> \<le> 16 ^ 1" by (rule power_increasing) auto
  finally show ?thesis using Some by (simp add: lru_bit_def)
qed (simp add: lru_bit_def)

lemma bit_mask_iff: "b < 16 \<Longrightarrow> bit (2 ^ b :: u16) k \<longleftrightarrow> k = b"
  by (auto simp: bit_exp_iff)

lemma and_mask_eq_0:
  assumes "b < 16"
  shows "(w AND 2 ^ b :: u16) = 0 \<longleftrightarrow> \<not> bit w b"
proof
  assume "w AND 2 ^ b = 0"
  then have "\<not> bit (w AND 2 ^ b) b" by simp
  then show "\<not> bit w b" using assms by (simp add: bit_and_iff bit_mask_iff)
next
  assume "\<not> bit w b"
  then show "w AND 2 ^ b = 0" using assms by (intro bit_eqI) (auto simp: bit_and_iff bit_mask_iff)
qed

text \<open>Marking, without its panic branch.\<close>

lemma mark_Some:
  assumes "lru_inv l" "10 \<le> length fid"
  shows "mark_recently_accessed l fid =
    (if bit (lru_cache_table l ! lru_index fid) (lru_bit fid) then Some (False, l)
     else Some (True, l\<lparr>lru_cache_table := (lru_cache_table l)
            [lru_index fid := lru_cache_table l ! lru_index fid OR 2 ^ lru_bit fid]\<rparr>))"
  using assms lru_index_less [of fid] lru_bit_less [of fid]
  by (simp add: mark_recently_accessed_def lru_inv_def and_mask_eq_0 Let_def)

lemma mark_total: "lru_inv l \<Longrightarrow> \<exists>r. mark_recently_accessed l fid = Some r"
  by (cases "10 \<le> length fid") (auto simp: mark_Some, auto simp: mark_recently_accessed_def)

lemma lru_mark_short: "length fid < 10 \<Longrightarrow> lru_mark l fid = (False, l)"
  by (simp add: lru_mark_def mark_recently_accessed_def)

lemma lru_mark_result:
  assumes "lru_inv l" "10 \<le> length fid"
  shows "fst (lru_mark l fid) \<longleftrightarrow> lru_key fid \<notin> lru_abs l"
  using assms lru_index_less [of fid] lru_bit_less [of fid]
  by (auto simp: lru_mark_def mark_Some lru_abs_def lru_key_def lru_inv_def)

lemma lru_mark_abs:
  assumes "lru_inv l" "10 \<le> length fid"
  shows "lru_abs (snd (lru_mark l fid)) = insert (lru_key fid) (lru_abs l)"
proof -
  have b: "lru_index fid < length (lru_cache_table l)" "lru_bit fid < 16"
    using assms lru_index_less [of fid] lru_bit_less [of fid] by (auto simp: lru_inv_def)
  then show ?thesis
    using assms
    by (auto simp: lru_mark_def mark_Some lru_abs_def lru_key_def nth_list_update bit_or_iff bit_mask_iff
        split: if_splits)
qed

lemma lru_mark_inv: "lru_inv l \<Longrightarrow> lru_inv (snd (lru_mark l fid))"
  by (cases "10 \<le> length fid") (auto simp: lru_mark_def mark_Some lru_inv_def,
      auto simp: mark_recently_accessed_def)

lemma lru_mark_pointer: "lru_clear_pointer (snd (lru_mark l fid)) = lru_clear_pointer l"
  by (auto simp: lru_mark_def mark_recently_accessed_def Let_def split: option.splits if_splits)

subsection \<open>The interface of the cache: a set with an idempotent mark\<close>

locale recency_set =
  fixes mark :: "'s \<Rightarrow> 'f \<Rightarrow> bool \<times> 's"
    and key :: "'f \<Rightarrow> 'k"
    and abs :: "'s \<Rightarrow> 'k set"
    and inv :: "'s \<Rightarrow> bool"
    and ok :: "'f \<Rightarrow> bool"
  assumes mark_result: "inv s \<Longrightarrow> ok f \<Longrightarrow> fst (mark s f) \<longleftrightarrow> key f \<notin> abs s"
    and mark_abs: "inv s \<Longrightarrow> ok f \<Longrightarrow> abs (snd (mark s f)) = insert (key f) (abs s)"
    and mark_inv: "inv s \<Longrightarrow> inv (snd (mark s f))"
begin

lemma mark_twice: "inv s \<Longrightarrow> ok f \<Longrightarrow> \<not> fst (mark (snd (mark s f)) f)"
  by (simp add: mark_result mark_abs mark_inv)

lemma mark_list:
  "inv s \<Longrightarrow> \<forall>f \<in> set fs. ok f \<Longrightarrow>
   inv (foldl (\<lambda>s f. snd (mark s f)) s fs)
   \<and> abs (foldl (\<lambda>s f. snd (mark s f)) s fs) = key ` set fs \<union> abs s"
  by (induction fs arbitrary: s) (auto simp: mark_abs mark_inv)

lemma mark_after_list:
  "inv s \<Longrightarrow> \<forall>f \<in> set fs. ok f \<Longrightarrow> ok g \<Longrightarrow>
   fst (mark (foldl (\<lambda>s f. snd (mark s f)) s fs) g) \<longleftrightarrow> key g \<notin> key ` set fs \<union> abs s"
  using mark_list [of s fs] mark_result [of _ g] by metis

end

interpretation lru: recency_set lru_mark lru_key lru_abs lru_inv "\<lambda>fid. 10 \<le> length fid"
  by unfold_locales (auto simp: lru_mark_result lru_mark_abs lru_mark_inv)

subsection \<open>Cycling\<close>

lemma lru_size_word: "unat (of_nat LRU_CACHE_SIZE :: u64) = LRU_CACHE_SIZE"
  by (simp add: LRU_CACHE_SIZE_def)

definition next_pointer :: "nat \<Rightarrow> nat" where
  "next_pointer p = (if LRU_CACHE_SIZE \<le> p + 17 then 0 else p + 17)"

lemma cycle_step:
  assumes "lru_inv l"
  obtains l' where "cycle l = Some l'" "lru_inv l'"
    "unat (lru_clear_pointer l') = next_pointer (unat (lru_clear_pointer l))"
    "lru_abs l' = {(i, b) \<in> lru_abs l. \<not> (unat (lru_clear_pointer l) \<le> i \<and> i < unat (lru_clear_pointer l) + 17)}"
proof -
  define p where "p = unat (lru_clear_pointer l)"
  define c where "c = min (p + 17) LRU_CACHE_SIZE"
  have p: "p < LRU_CACHE_SIZE" and len: "length (lru_cache_table l) = LRU_CACHE_SIZE"
    using assms by (auto simp: lru_inv_def p_def)
  have "unat (lru_clear_pointer l + 17) = p + 17"
    using p unfolding p_def by (subst unat_add_fits) (auto simp: LRU_CACHE_SIZE_def)
  then have c: "unat (min (lru_clear_pointer l + 17) (of_nat LRU_CACHE_SIZE)) = c"
    by (simp add: c_def min_def word_le_nat_alt lru_size_word)
  define l' where "l' = \<lparr>lru_cache_table = take p (lru_cache_table l) @ replicate (c - p) 0 @ drop c (lru_cache_table l),
     lru_clear_pointer = (if LRU_CACHE_SIZE \<le> c then 0 else min (lru_clear_pointer l + 17) (of_nat LRU_CACHE_SIZE))\<rparr>"
  have pc: "p \<le> c" "c \<le> LRU_CACHE_SIZE" using p by (auto simp: c_def)
  have cyc: "cycle l = Some l'"
    using pc len by (simp add: cycle_def Let_def c word_le_nat_alt lru_size_word l'_def p_def [symmetric])
  have ptr: "unat (lru_clear_pointer l') = next_pointer p"
    by (auto simp: l'_def next_pointer_def c c_def)
  have inv: "lru_inv l'"
    using ptr p pc len by (auto simp: lru_inv_def next_pointer_def l'_def)
  have nth: "lru_cache_table l' ! i = (if p \<le> i \<and> i < p + 17 then 0 else lru_cache_table l ! i)"
    if "i < LRU_CACHE_SIZE" for i
    using that pc len p by (auto simp: l'_def nth_append c_def)
  have "lru_abs l' = {(i, b) \<in> lru_abs l. \<not> (p \<le> i \<and> i < p + 17)}"
    using inv len by (auto simp: lru_abs_def lru_inv_def nth split: if_splits)
  then show thesis using that cyc ptr inv unfolding p_def by blast
qed

subsection \<open>Runs of marks and cycles\<close>

datatype lru_op = Mark string | Cycle

definition lru_step :: "LruState \<Rightarrow> lru_op \<Rightarrow> LruState option" where
  "lru_step l a = (case a of Mark fid \<Rightarrow> map_option snd (mark_recently_accessed l fid) | Cycle \<Rightarrow> cycle l)"

lemma lru_step_mark: "lru_inv l \<Longrightarrow> lru_step l (Mark fid) = Some (snd (lru_mark l fid))"
  using mark_total [of l fid] by (auto simp: lru_step_def lru_mark_def)

lemma lru_step_cycle: "lru_step l Cycle = cycle l"
  by (simp add: lru_step_def)

interpretation lru_machine: panic_free_machine lru_step lru_inv
proof
  fix l a
  assume "lru_inv l"
  then show "\<exists>l'. lru_step l a = Some l' \<and> lru_inv l'"
    by (cases a) (auto simp: lru_step_mark lru_mark_inv lru_step_cycle elim: cycle_step)
qed

text \<open>The number of cycles until the pointer passes an entry.\<close>

definition cycles_until :: "nat \<Rightarrow> nat \<Rightarrow> nat" where
  "cycles_until p i = (if p \<le> i then (i - p) div 17 + 1 else (LRU_CACHE_SIZE - p + 16) div 17 + i div 17 + 1)"

lemma cycles_until_le: "p < LRU_CACHE_SIZE \<Longrightarrow> i < LRU_CACHE_SIZE \<Longrightarrow> cycles_until p i \<le> 61682"
  by (auto simp: cycles_until_def LRU_CACHE_SIZE_def)

lemma cycles_until_next:
  assumes "p < LRU_CACHE_SIZE" "i < LRU_CACHE_SIZE" "\<not> (p \<le> i \<and> i < p + 17)"
  shows "cycles_until p i = Suc (cycles_until (next_pointer p) i)"
  using assms unfolding cycles_until_def next_pointer_def LRU_CACHE_SIZE_def by auto

definition num_cycles :: "lru_op list \<Rightarrow> nat" where
  "num_cycles ops = length (filter (\<lambda>a. a = Cycle) ops)"

definition marks_key :: "nat \<times> nat \<Rightarrow> lru_op \<Rightarrow> bool" where
  "marks_key k a = (case a of Mark fid \<Rightarrow> 10 \<le> length fid \<and> lru_key fid = k | Cycle \<Rightarrow> False)"

lemma mark_other_abs:
  assumes "lru_inv l" "\<not> marks_key k (Mark fid)"
  shows "k \<in> lru_abs (snd (lru_mark l fid)) \<longleftrightarrow> k \<in> lru_abs l"
  using assms by (cases "10 \<le> length fid") (auto simp: marks_key_def lru_mark_abs lru_mark_short)

lemma sweep_run:
  assumes "lru_inv l" "\<forall>a \<in> set ops. \<not> marks_key k a"
    "k \<in> lru_abs l \<longrightarrow> cycles_until (unat (lru_clear_pointer l)) (fst k) \<le> num_cycles ops"
    "run_opt lru_step l ops = Some l'"
  shows "k \<notin> lru_abs l'"
  using assms
proof (induction ops arbitrary: l)
  case Nil
  then show ?case by (auto simp: num_cycles_def cycles_until_def split: if_splits)
next
  case (Cons a ops)
  show ?case
  proof (cases a)
    case (Mark fid)
    then show ?thesis
      using Cons.IH [of "snd (lru_mark l fid)"] Cons.prems mark_other_abs [of l k fid]
      by (auto simp: lru_step_mark lru_mark_inv lru_mark_pointer num_cycles_def)
  next
    case Cycle
    define p where "p = unat (lru_clear_pointer l)"
    obtain l1 where l1: "cycle l = Some l1" "lru_inv l1"
      "unat (lru_clear_pointer l1) = next_pointer p"
      "lru_abs l1 = {(i, b) \<in> lru_abs l. \<not> (p \<le> i \<and> i < p + 17)}"
      using cycle_step [OF Cons.prems(1)] unfolding p_def by blast
    have "cycles_until (next_pointer p) (fst k) \<le> num_cycles ops" if "k \<in> lru_abs l1"
    proof -
      have k: "k \<in> lru_abs l" "\<not> (p \<le> fst k \<and> fst k < p + 17)" using that l1(4) by auto
      moreover have "fst k < LRU_CACHE_SIZE" "p < LRU_CACHE_SIZE"
        using k(1) Cons.prems(1) by (auto simp: lru_abs_def lru_inv_def p_def)
      ultimately have "cycles_until p (fst k) = Suc (cycles_until (next_pointer p) (fst k))"
        by (intro cycles_until_next)
      moreover have "cycles_until p (fst k) \<le> Suc (num_cycles ops)"
        using Cons.prems(3) k(1) Cycle by (simp add: p_def num_cycles_def)
      ultimately show ?thesis by simp
    qed
    then show ?thesis using Cons.IH [of l1] Cons.prems l1 Cycle by (simp add: lru_step_cycle)
  qed
qed

subsection \<open>Properties\<close>

text \<open>
  no sequence of marks and cycles on a fresh table panics: every index a file id yields is
  inside the table, every shift is below the width of an entry, and the clear pointer never leaves
  the table.
\<close>

theorem lru_never_panics: "\<exists>l. run_opt lru_step LruState_new ops = Some l \<and> lru_inv l"
  by (rule lru_machine.run_some [OF lru_inv_new])

text \<open>
  marking behaves as a set: after any list of files was marked, marking \<open>g\<close> reports ``not
  recently accessed'' exactly when no file of the list shares its key (bits 16 to 39 of its hash)
  and the key was not in the table before.
\<close>

theorem mark_reports_first_access:
  assumes "lru_inv l" "\<forall>f \<in> set fs. 10 \<le> length f" "10 \<le> length g"
  shows "fst (lru_mark (foldl (\<lambda>l f. snd (lru_mark l f)) l fs) g) \<longleftrightarrow> lru_key g \<notin> lru_key ` set fs \<union> lru_abs l"
  by (rule lru.mark_after_list [OF assms])

theorem mark_reports_first_access_witness:
  "\<not> fst (lru_mark (foldl (\<lambda>l f. snd (lru_mark l f)) LruState_new [''0123456789'']) ''0123456789'')"
  using mark_reports_first_access [of LruState_new "[''0123456789'']" "''0123456789''"] lru_inv_new by simp

text \<open>
  C40: the sweep is complete: whatever the position of the clear pointer and however marks of other
  keys are interleaved, 61682 cycles remove a key, so a file is reported as recently accessed for
  at most that many cycles after its last access.
\<close>

theorem sweep_forgets:
  assumes "lru_inv l" "\<forall>a \<in> set ops. \<not> marks_key k a" "61682 \<le> num_cycles ops"
  shows "\<exists>l'. run_opt lru_step l ops = Some l' \<and> k \<notin> lru_abs l'"
proof -
  obtain l' where l': "run_opt lru_step l ops = Some l'"
    using lru_machine.run_some [OF assms(1)] by blast
  have "cycles_until (unat (lru_clear_pointer l)) (fst k) \<le> 61682" if "k \<in> lru_abs l"
    using that assms(1) by (intro cycles_until_le) (auto simp: lru_abs_def lru_inv_def)
  then show ?thesis using sweep_run [OF assms(1,2) _ l'] l' assms(3) by fastforce
qed

theorem sweep_forgets_witness:
  "\<exists>l'. run_opt lru_step LruState_new (Mark ''0000100000'' # replicate 61682 Cycle) = Some l' \<and> (7, 0) \<notin> lru_abs l'"
proof (rule sweep_forgets)
  have "lru_index ''0000100000'' = 65536"
    by (simp add: lru_index_def from_str_radix_def parse_eval)
  then show "\<forall>a \<in> set (Mark ''0000100000'' # replicate 61682 Cycle). \<not> marks_key (7, 0) a"
    by (auto simp: marks_key_def lru_key_def)
qed (simp_all add: lru_inv_new num_cycles_def)

end
