(* ===== verification/Hath_Persistent.thy ===== *)
theory Hath_Persistent
  imports Hath_Config Hath_Lru
begin

text \<open>
  The snapshot of the cache state, \<^verbatim>\<open>src/src/cache/persistent.rs\<close>: three files in the data directory,
  of which \<^verbatim>\<open>pcache_info\<close> is the publish marker, removed first and written last. The \<open>codec\<close> record
  holds the libraries the file formats use: bincode on the two objects, and SHA-1. A hash map is an
  association list with distinct keys.
\<close>

record codec =
  ser_ages :: "(string \<times> u64) list \<Rightarrow> string option"
  de_ages :: "string \<Rightarrow> (string \<times> u64) list option"
  ser_lru :: "u16 list \<Rightarrow> string option"
  de_lru :: "string \<Rightarrow> u16 list option"
  codec_sha1 :: digest

definition PERSISTENT_CACHE_FORMAT_VERSION :: u32 where
  "PERSISTENT_CACHE_FORMAT_VERSION = 1"

record PersistentCacheState =
  ps_cache_count :: u32
  ps_cache_size :: u64
  ps_lru_clear_pointer :: u64
  ps_static_range_ages :: "(string \<times> u64) list"
  ps_lru_cache_table :: "u16 list"

definition PersistentCacheState_new :: PersistentCacheState where
  "PersistentCacheState_new =
     \<lparr>ps_cache_count = 0, ps_cache_size = 0, ps_lru_clear_pointer = 0, ps_static_range_ages = [],
      ps_lru_cache_table = replicate 1048576 0\<rparr>"

abbreviation info_path :: "Config \<Rightarrow> path" where "info_path c \<equiv> cfg_data_dir c @ [''pcache_info'']"
abbreviation ages_path :: "Config \<Rightarrow> path" where "ages_path c \<equiv> cfg_data_dir c @ [''pcache_ages'']"
abbreviation lru_path :: "Config \<Rightarrow> path" where "lru_path c \<equiv> cfg_data_dir c @ [''pcache_lru'']"

definition remove_if_exists :: "os \<Rightarrow> fs \<Rightarrow> path \<Rightarrow> HathError option \<times> fs" where
  "remove_if_exists os f p =
     (case fs_remove_file os f p of
        Inr f' \<Rightarrow> (None, f')
      | Inl NotFound \<Rightarrow> (None, f)
      | Inl _ \<Rightarrow> (Some (Cache_error ''Failed to remove persistent cache file''), f))"

text \<open>The text of \<^verbatim>\<open>pcache_info\<close>.\<close>

definition info_lines :: "PersistentCacheState \<Rightarrow> string \<Rightarrow> string \<Rightarrow> string list" where
  "info_lines st ages_hash lru_hash =
     [''formatVersion='' @ show_word PERSISTENT_CACHE_FORMAT_VERSION,
      ''cacheCount='' @ show_word (ps_cache_count st),
      ''cacheSize='' @ show_word (ps_cache_size st),
      ''lruClearPointer='' @ show_word (ps_lru_clear_pointer st),
      ''agesHash='' @ ages_hash,
      ''lruHash='' @ lru_hash]"

definition info_text :: "PersistentCacheState \<Rightarrow> string \<Rightarrow> string \<Rightarrow> string" where
  "info_text st ages_hash lru_hash = join_with [LF] (info_lines st ages_hash lru_hash)"

definition save :: "os \<Rightarrow> codec \<Rightarrow> fs \<Rightarrow> Config \<Rightarrow> PersistentCacheState \<Rightarrow> HathError option \<times> fs" where
  "save os x f c st =
     (case remove_if_exists os f (info_path c) of
        (Some e, f1) \<Rightarrow> (Some e, f1)
      | (None, f1) \<Rightarrow>
     (case ser_ages x (ps_static_range_ages st) of
        None \<Rightarrow> (Some (Cache_error ''Failed to serialize ages''), f1)
      | Some ages_data \<Rightarrow>
     (case fs_write os f1 (ages_path c) ages_data of
        (Some _, f2) \<Rightarrow> (Some (Cache_error ''Failed to write ages''), f2)
      | (None, f2) \<Rightarrow>
     (case ser_lru x (ps_lru_cache_table st) of
        None \<Rightarrow> (Some (Cache_error ''Failed to serialize lru''), f2)
      | Some lru_data \<Rightarrow>
     (case fs_write os f2 (lru_path c) lru_data of
        (Some _, f3) \<Rightarrow> (Some (Cache_error ''Failed to write lru''), f3)
      | (None, f3) \<Rightarrow>
     (case fs_write os f3 (info_path c)
             (info_text st (sha1_bytes (codec_sha1 x) ages_data) (sha1_bytes (codec_sha1 x) lru_data)) of
        (Some _, f4) \<Rightarrow> (Some (Cache_error ''Failed to write info''), f4)
      | (None, f4) \<Rightarrow> (None, f4)))))))"

fun remove_all :: "os \<Rightarrow> fs \<Rightarrow> path list \<Rightarrow> HathError option \<times> fs" where
  "remove_all os f [] = (None, f)"
| "remove_all os f (p # ps) =
     (case remove_if_exists os f p of
        (Some e, f1) \<Rightarrow> (Some e, f1)
      | (None, f1) \<Rightarrow> remove_all os f1 ps)"

definition clear :: "os \<Rightarrow> fs \<Rightarrow> Config \<Rightarrow> HathError option \<times> fs" where
  "clear os f c = remove_all os f [info_path c, ages_path c, lru_path c]"

text \<open>The variables the info loop of \<^verbatim>\<open>try_load\<close> fills.\<close>

record info_vars =
  iv_checksum :: u32
  iv_ages_hash :: "string option"
  iv_lru_hash :: "string option"
  iv_cache_count :: u32
  iv_cache_size :: u64
  iv_lru_clear_pointer :: u64
  iv_format_version :: "u32 option"

definition info_vars_init :: info_vars where
  "info_vars_init = \<lparr>iv_checksum = 0, iv_ages_hash = None, iv_lru_hash = None, iv_cache_count = 0,
     iv_cache_size = 0, iv_lru_clear_pointer = 0, iv_format_version = None\<rparr>"

text \<open>One line; \<open>None\<close> is the early return of a value that does not parse.\<close>

definition info_line :: "info_vars \<Rightarrow> string \<Rightarrow> info_vars option" where
  "info_line i line =
     (case split_once CHR ''='' line of
        None \<Rightarrow> Some i
      | Some (key, value) \<Rightarrow>
          if key = ''formatVersion'' then
            map_option (\<lambda>v. i\<lparr>iv_format_version := Some v\<rparr>) (parse_word value)
          else if key = ''cacheCount'' then
            map_option (\<lambda>v. i\<lparr>iv_cache_count := v, iv_checksum := iv_checksum i OR 1\<rparr>) (parse_word value)
          else if key = ''cacheSize'' then
            map_option (\<lambda>v. i\<lparr>iv_cache_size := v, iv_checksum := iv_checksum i OR 2\<rparr>) (parse_word value)
          else if key = ''lruClearPointer'' then
            map_option (\<lambda>v. i\<lparr>iv_lru_clear_pointer := v, iv_checksum := iv_checksum i OR 4\<rparr>) (parse_word value)
          else if key = ''agesHash'' then
            Some (i\<lparr>iv_ages_hash := Some value, iv_checksum := iv_checksum i OR 8\<rparr>)
          else if key = ''lruHash'' then
            Some (i\<lparr>iv_lru_hash := Some value, iv_checksum := iv_checksum i OR 16\<rparr>)
          else Some i)"

definition parse_info :: "string \<Rightarrow> info_vars option" where
  "parse_info content = run_opt info_line info_vars_init (lines content)"

definition read_object :: "os \<Rightarrow> codec \<Rightarrow> fs \<Rightarrow> (string \<Rightarrow> 'a option) \<Rightarrow> path \<Rightarrow> string \<Rightarrow> 'a res" where
  "read_object os x f de p expected_hash =
     (if \<not> path_exists f p then Inl (Cache_error ''Missing file'')
      else case fs_read os f p of
          Inl _ \<Rightarrow> Inl (Cache_error ''Failed to read file'')
        | Inr data \<Rightarrow>
            if sha1_bytes (codec_sha1 x) data \<noteq> expected_hash
            then Inl (Cache_error ''Incorrect file hash while reading'')
            else (case de data of None \<Rightarrow> Inl (Cache_error ''Failed to deserialize'') | Some v \<Rightarrow> Inr v))"

definition load_objects :: "os \<Rightarrow> codec \<Rightarrow> fs \<Rightarrow> Config \<Rightarrow> info_vars \<Rightarrow> PersistentCacheState option" where
  "load_objects os x f c i =
     (if iv_checksum i \<noteq> 31 then None
      else if (case iv_format_version i of None \<Rightarrow> False | Some v \<Rightarrow> v \<noteq> PERSISTENT_CACHE_FORMAT_VERSION) then None
      else (case (iv_ages_hash i, iv_lru_hash i) of
          (Some ages_hash, Some lru_hash) \<Rightarrow>
            (case read_object os x f (de_ages x) (ages_path c) ages_hash of
               Inl _ \<Rightarrow> None
             | Inr ages \<Rightarrow>
                 (case read_object os x f (de_lru x) (lru_path c) lru_hash of
                    Inl _ \<Rightarrow> None
                  | Inr lru \<Rightarrow>
                      Some \<lparr>ps_cache_count = iv_cache_count i, ps_cache_size = iv_cache_size i,
                        ps_lru_clear_pointer = iv_lru_clear_pointer i, ps_static_range_ages = ages,
                        ps_lru_cache_table = lru\<rparr>))
        | _ \<Rightarrow> None))"

definition try_load :: "os \<Rightarrow> codec \<Rightarrow> fs \<Rightarrow> Config \<Rightarrow> PersistentCacheState option" where
  "try_load os x f c =
     (if \<not> path_exists f (info_path c) then None
      else case read_string_file os f (info_path c) of
          Inl _ \<Rightarrow> None
        | Inr content \<Rightarrow>
            (case parse_info content of
               None \<Rightarrow> None
             | Some i \<Rightarrow> load_objects os x f c i))"

subsection \<open>The info file\<close>

lemma info_line_with_key:
  "CHR ''='' \<notin> set k \<Longrightarrow> info_line i (k @ CHR ''='' # v) =
    (if k = ''formatVersion'' then map_option (\<lambda>v. i\<lparr>iv_format_version := Some v\<rparr>) (parse_word v)
     else if k = ''cacheCount'' then
       map_option (\<lambda>v. i\<lparr>iv_cache_count := v, iv_checksum := iv_checksum i OR 1\<rparr>) (parse_word v)
     else if k = ''cacheSize'' then
       map_option (\<lambda>v. i\<lparr>iv_cache_size := v, iv_checksum := iv_checksum i OR 2\<rparr>) (parse_word v)
     else if k = ''lruClearPointer'' then
       map_option (\<lambda>v. i\<lparr>iv_lru_clear_pointer := v, iv_checksum := iv_checksum i OR 4\<rparr>) (parse_word v)
     else if k = ''agesHash'' then Some (i\<lparr>iv_ages_hash := Some v, iv_checksum := iv_checksum i OR 8\<rparr>)
     else if k = ''lruHash'' then Some (i\<lparr>iv_lru_hash := Some v, iv_checksum := iv_checksum i OR 16\<rparr>)
     else Some i)"
  unfolding info_line_def by (simp add: split_once_append)

lemma info_line_cases:
  "info_line i (''formatVersion='' @ a) = map_option (\<lambda>v. i\<lparr>iv_format_version := Some v\<rparr>) (parse_word a)"
  "info_line i (''cacheCount='' @ a) =
     map_option (\<lambda>v. i\<lparr>iv_cache_count := v, iv_checksum := iv_checksum i OR 1\<rparr>) (parse_word a)"
  "info_line i (''cacheSize='' @ a) =
     map_option (\<lambda>v. i\<lparr>iv_cache_size := v, iv_checksum := iv_checksum i OR 2\<rparr>) (parse_word a)"
  "info_line i (''lruClearPointer='' @ a) =
     map_option (\<lambda>v. i\<lparr>iv_lru_clear_pointer := v, iv_checksum := iv_checksum i OR 4\<rparr>) (parse_word a)"
  "info_line i (''agesHash='' @ a) = Some (i\<lparr>iv_ages_hash := Some a, iv_checksum := iv_checksum i OR 8\<rparr>)"
  "info_line i (''lruHash='' @ a) = Some (i\<lparr>iv_lru_hash := Some a, iv_checksum := iv_checksum i OR 16\<rparr>)"
  using info_line_with_key [of "''formatVersion''" i a] info_line_with_key [of "''cacheCount''" i a]
    info_line_with_key [of "''cacheSize''" i a] info_line_with_key [of "''lruClearPointer''" i a]
    info_line_with_key [of "''agesHash''" i a] info_line_with_key [of "''lruHash''" i a]
  by simp_all

definition info_of :: "PersistentCacheState \<Rightarrow> string \<Rightarrow> string \<Rightarrow> info_vars" where
  "info_of st h1 h2 = \<lparr>iv_checksum = 31, iv_ages_hash = Some h1, iv_lru_hash = Some h2,
     iv_cache_count = ps_cache_count st, iv_cache_size = ps_cache_size st,
     iv_lru_clear_pointer = ps_lru_clear_pointer st, iv_format_version = Some PERSISTENT_CACHE_FORMAT_VERSION\<rparr>"

lemma info_run: "run_opt info_line info_vars_init (info_lines st h1 h2) = Some (info_of st h1 h2)"
  by (simp add: info_lines_def info_line_cases info_vars_init_def info_of_def del: append_Cons append_Nil)

lemma show_nat_no_newline: "LF \<notin> set (show_nat n)" "CR \<notin> set (show_nat n)"
  by (rule show_nat_no_char, simp add: char_class_defs char_code_def)+

lemma hex_no_newline: "LF \<notin> set (hex_encode bs)" "CR \<notin> set (hex_encode bs)"
  by (auto dest!: hex_encode_lower simp: char_class_defs char_code_def)

lemma info_lines_clean:
  "l \<in> set (info_lines st (hex_encode a) (hex_encode b)) \<Longrightarrow> LF \<notin> set l \<and> CR \<notin> set l"
  by (auto simp: info_lines_def show_nat_no_newline hex_no_newline)

lemma lines_info_text:
  "lines (info_text st (hex_encode a) (hex_encode b)) = info_lines st (hex_encode a) (hex_encode b)"
  unfolding info_text_def
  by (rule lines_join) (use info_lines_clean in blast | simp add: info_lines_def)+

lemma parse_info_text:
  "parse_info (info_text st (hex_encode a) (hex_encode b)) = Some (info_of st (hex_encode a) (hex_encode b))"
  unfolding parse_info_def lines_info_text by (rule info_run)

lemma info_text_ascii: "is_ascii (info_text st (hex_encode a) (hex_encode b))"
proof -
  have d: "char_code c < 128" if "c \<in> set (show_nat n)" for c n
    using that show_nat_digits [of n] by (auto simp: char_class_defs)
  have h: "char_code c < 128" if "c \<in> set (hex_encode bs)" for c bs
    using hex_encode_lower [OF that] by (auto simp: char_class_defs)
  show ?thesis
    unfolding is_ascii_def info_text_def info_lines_def
    by (auto simp: char_code_def [symmetric] d h) (simp_all add: char_code_def)
qed

subsection \<open>Saving\<close>

text \<open>What bincode promises of the two objects: decoding inverts encoding.\<close>

definition codec_ok :: "codec \<Rightarrow> bool" where
  "codec_ok x \<longleftrightarrow> (\<forall>a d. ser_ages x a = Some d \<longrightarrow> de_ages x d = Some a)
     \<and> (\<forall>a d. ser_lru x a = Some d \<longrightarrow> de_lru x d = Some a)"

text \<open>What a failed write can leave: a prefix of the data.\<close>

definition torn_writes :: "os \<Rightarrow> bool" where
  "torn_writes os \<longleftrightarrow> (\<forall>f p c f' e. fs_write os f p c = (Some e, f') \<longrightarrow>
      f' = f \<or> (\<exists>n t. f' = AList.update p (File (take n c) t) f))"

lemma pcache_paths_distinct [simp]:
  "info_path c \<noteq> ages_path c" "info_path c \<noteq> lru_path c" "ages_path c \<noteq> lru_path c"
  "ages_path c \<noteq> info_path c" "lru_path c \<noteq> info_path c" "lru_path c \<noteq> ages_path c"
  by simp_all

lemma remove_if_exists_ok:
  "remove_if_exists os f p = (None, f') \<Longrightarrow> fs_get f' p = None \<and> (\<forall>q. q \<noteq> p \<longrightarrow> fs_get f' q = fs_get f q)"
  by (auto simp: remove_if_exists_def fs_remove_file_def split: option.splits node.splits sum.splits
      io_error.splits if_splits)

lemma remove_if_exists_frame:
  "q \<noteq> p \<Longrightarrow> fs_get (snd (remove_if_exists os f p)) q = fs_get f q"
  by (auto simp: remove_if_exists_def fs_remove_file_def split: option.splits node.splits sum.splits
      io_error.splits if_splits)

lemma save_ok_files:
  assumes "save os x f c st = (None, f')"
  obtains ad ld where "ser_ages x (ps_static_range_ages st) = Some ad" "ser_lru x (ps_lru_cache_table st) = Some ld"
    "fs_get f' (ages_path c) = Some (File ad (os_now_ms os))"
    "fs_get f' (lru_path c) = Some (File ld (os_now_ms os))"
    "fs_get f' (info_path c) = Some (File (info_text st (hex_encode (codec_sha1 x ad)) (hex_encode (codec_sha1 x ld))) (os_now_ms os))"
  using assms
  by (auto simp: save_def sha1_bytes_def dest!: fs_write_ok split: option.splits prod.splits)

lemma read_object_ok:
  assumes "fs_get f p = Some (File d t)" "\<not> os_denied os Read p" "de d = Some v"
  shows "read_object os x f de p (hex_encode (codec_sha1 x d)) = Inr v"
  using assms by (simp add: read_object_def path_exists_def fs_read_def sha1_bytes_def)

lemma load_published:
  assumes "codec_ok x" "ser_ages x (ps_static_range_ages st) = Some ad" "ser_lru x (ps_lru_cache_table st) = Some ld"
    "fs_get f (ages_path c) = Some (File ad t1)" "fs_get f (lru_path c) = Some (File ld t2)"
    "fs_get f (info_path c) = Some (File (info_text st (hex_encode (codec_sha1 x ad)) (hex_encode (codec_sha1 x ld))) t3)"
    "\<forall>p. \<not> os_denied os Read p"
  shows "try_load os x f c = Some st"
proof -
  have "read_string_file os f (info_path c)
      = Inr (info_text st (hex_encode (codec_sha1 x ad)) (hex_encode (codec_sha1 x ld)))"
    using assms(6,7) valid_utf8_ascii [OF info_text_ascii] by (simp add: read_string_file_def fs_read_def)
  moreover have "de_ages x ad = Some (ps_static_range_ages st)" "de_lru x ld = Some (ps_lru_cache_table st)"
    using assms(1-3) by (auto simp: codec_ok_def)
  ultimately show ?thesis
    using assms(4-7) by (simp add: try_load_def path_exists_def parse_info_text load_objects_def info_of_def read_object_ok)
qed

subsection \<open>Truncated info files\<close>

lemma take_join:
  "xs \<noteq> [] \<Longrightarrow> \<exists>k < length xs. \<exists>m. take n (join_with [c] xs) = join_with [c] (take k xs @ [take m (xs ! k)])"
proof (induction "[c]" xs arbitrary: n rule: join_with.induct)
  case (2 x)
  then show ?case by auto
next
  case (3 x y ys)
  show ?case
  proof (cases "n \<le> length x")
    case True
    then show ?thesis by (intro exI [of _ 0]) auto
  next
    case False
    then obtain n' where n: "n = length x + Suc n'" by (metis add_Suc_right less_natE not_le)
    obtain k m where k: "k < length (y # ys)"
      "take n' (join_with [c] (y # ys)) = join_with [c] (take k (y # ys) @ [take m ((y # ys) ! k)])"
      using 3 by blast
    have "take n (join_with [c] (x # y # ys)) = x @ c # take n' (join_with [c] (y # ys))"
      using n by simp
    also have "\<dots> = join_with [c] (x # take k (y # ys) @ [take m ((y # ys) ! k)])"
      using k(2) by (cases "take k (y # ys)") auto
    finally show ?thesis using k(1) by (intro exI [of _ "Suc k"]) auto
  qed
qed simp

lemma lines_join_any:
  assumes "\<forall>x \<in> set (xs @ [p]). LF \<notin> set x \<and> CR \<notin> set x"
  shows "lines (join_with [LF] (xs @ [p])) = xs @ (if p = [] then [] else [p])"
proof -
  have "split_on LF (join_with [LF] (xs @ [p])) = xs @ [p]"
    using assms by (intro split_on_join) auto
  moreover have "map strip_cr xs = xs"
    using assms by (intro map_idI) (auto simp: strip_cr_def dest!: last_in_set)
  ultimately show ?thesis by (simp add: lines_def)
qed

definition line_key :: "string \<Rightarrow> string option" where
  "line_key l = map_option fst (split_once CHR ''='' l)"

lemma info_line_other_key:
  "info_line i l = Some i' \<Longrightarrow> line_key l \<noteq> Some ''lruHash'' \<Longrightarrow> bit (iv_checksum i') 4 = bit (iv_checksum i) 4"
  unfolding info_line_def line_key_def
  by (auto simp: bit_or_iff split: option.splits if_splits)

lemma run_other_keys:
  "run_opt info_line i ls = Some i' \<Longrightarrow> \<forall>l \<in> set ls. line_key l \<noteq> Some ''lruHash'' \<Longrightarrow>
   bit (iv_checksum i') 4 = bit (iv_checksum i) 4"
proof (induction ls arbitrary: i)
  case (Cons l ls)
  then obtain j where "info_line i l = Some j" "run_opt info_line j ls = Some i'"
    by (auto split: option.splits)
  then show ?case using Cons info_line_other_key by fastforce
qed simp

lemma run_opt_append:
  "run_opt step s (xs @ ys) = (case run_opt step s xs of None \<Rightarrow> None | Some s' \<Rightarrow> run_opt step s' ys)"
  by (induction xs arbitrary: s) (auto split: option.splits)

lemma line_key_take:
  assumes "CHR ''='' \<notin> set k"
  shows "line_key (take m (k @ CHR ''='' # v)) = (if m \<le> length k then None else Some k)"
proof (cases "m \<le> length k")
  case True
  then have "CHR ''='' \<notin> set (take m (k @ CHR ''='' # v))" using assms by (auto dest: in_set_takeD)
  then show ?thesis using True by (simp add: line_key_def)
next
  case False
  then obtain j where "m = length k + Suc j" by (metis add_Suc_right less_natE not_le)
  then show ?thesis using assms by (simp add: line_key_def split_once_append)
qed

text \<open>No line before the last one, cut anywhere, names the key \<^verbatim>\<open>lruHash\<close>.\<close>

lemma early_line_key:
  assumes "k < 5"
  shows "line_key (take m (info_lines st h1 h2 ! k)) \<noteq> Some ''lruHash''"
proof -
  have "k = 0 \<or> k = 1 \<or> k = 2 \<or> k = 3 \<or> k = 4" using assms by auto
  then show ?thesis
    using line_key_take [of "''formatVersion''" m "show_word PERSISTENT_CACHE_FORMAT_VERSION"]
      line_key_take [of "''cacheCount''" m "show_word (ps_cache_count st)"]
      line_key_take [of "''cacheSize''" m "show_word (ps_cache_size st)"]
      line_key_take [of "''lruClearPointer''" m "show_word (ps_lru_clear_pointer st)"]
      line_key_take [of "''agesHash''" m h1]
    by (elim disjE) (simp_all add: info_lines_def split: if_splits)
qed

lemma incomplete_checksum:
  assumes "run_opt info_line info_vars_init ls = Some i" "\<forall>l \<in> set ls. line_key l \<noteq> Some ''lruHash''"
  shows "iv_checksum i \<noteq> 31"
proof
  assume "iv_checksum i = 31"
  then have "bit (iv_checksum i) 4" by simp
  then show False using run_other_keys [OF assms] by (simp add: info_vars_init_def)
qed

lemma early_lines_key: "k \<le> 5 \<Longrightarrow> l \<in> set (take k (info_lines st h1 h2)) \<Longrightarrow> line_key l \<noteq> Some ''lruHash''"
proof -
  assume "k \<le> 5" "l \<in> set (take k (info_lines st h1 h2))"
  then obtain j where "j < 5" "l = info_lines st h1 h2 ! j"
    by (auto simp: in_set_conv_nth) (metis le_trans less_le_not_le linorder_not_less)
  then show ?thesis using early_line_key [of j "length l" st h1 h2] by simp
qed

text \<open>A cut info text yields no usable variables: a field is missing, or the last hash is short.\<close>

lemma truncated_info_vars:
  assumes "parse_info (take n (info_text st (hex_encode a) (hex_encode b))) = Some i"
    and "take n (info_text st (hex_encode a) (hex_encode b)) \<noteq> info_text st (hex_encode a) (hex_encode b)"
  shows "iv_checksum i \<noteq> 31 \<or> (\<exists>h. iv_lru_hash i = Some h \<and> h \<noteq> hex_encode b)"
proof -
  let ?ls = "info_lines st (hex_encode a) (hex_encode b)"
  have l6: "length ?ls = 6" by (simp add: info_lines_def)
  obtain k m where km: "k < 6" "take n (join_with [LF] ?ls) = join_with [LF] (take k ?ls @ [take m (?ls ! k)])"
    using take_join [of ?ls n LF] l6 by (metis length_0_conv zero_neq_numeral)
  define p where "p = take m (?ls ! k)"
  have "\<forall>x \<in> set (take k ?ls @ [p]). LF \<notin> set x \<and> CR \<notin> set x"
    using info_lines_clean [of _ st a b] km(1) l6 unfolding p_def
    by (auto dest!: in_set_takeD)
  from lines_join_any [OF this]
  have run: "run_opt info_line info_vars_init (take k ?ls @ (if p = [] then [] else [p])) = Some i"
    using assms(1) km(2) by (simp add: parse_info_def info_text_def p_def [symmetric])
  show ?thesis
  proof (cases "line_key p = Some ''lruHash''")
    case False
    then have "iv_checksum i \<noteq> 31"
      using incomplete_checksum [OF run] early_lines_key [of k _ st "hex_encode a" "hex_encode b"] km(1) by auto
    then show ?thesis by blast
  next
    case True
    then have k: "k = 5" using early_line_key [of k m st] km(1) unfolding p_def by fastforce
    have l5: "?ls ! 5 = ''lruHash='' @ hex_encode b" by (simp add: info_lines_def)
    have m: "7 < m"
    proof (rule ccontr)
      assume "\<not> 7 < m"
      then have "line_key p = None"
        using line_key_take [of "''lruHash''" m "hex_encode b"] by (simp add: p_def k l5)
      with True show False by simp
    qed
    define j where "j = m - 8"
    have p: "p = ''lruHash='' @ take j (hex_encode b)"
      unfolding p_def k l5 using m by (simp add: j_def take_append numeral_eq_Suc del: append_Cons append_Nil)
    have ne: "take j (hex_encode b) \<noteq> hex_encode b"
    proof
      assume "take j (hex_encode b) = hex_encode b"
      then have "take k ?ls @ [p] = ?ls" using p k by (simp add: info_lines_def)
      then show False using km(2) assms(2) by (simp add: info_text_def p_def)
    qed
    obtain i0 where "info_line i0 p = Some i"
      using run p by (auto simp: run_opt_append split: option.splits)
    then have "iv_lru_hash i = Some (take j (hex_encode b))" using p info_line_cases(6) [of i0 "take j (hex_encode b)"] by auto
    then show ?thesis using ne by blast
  qed
qed

lemma load_truncated:
  assumes "fs_get f (info_path c) = Some (File (take n (info_text st (hex_encode a) (hex_encode (codec_sha1 x ld)))) t)"
    and "fs_get f (lru_path c) = Some (File ld t2)"
    and "take n (info_text st (hex_encode a) (hex_encode (codec_sha1 x ld)))
           \<noteq> info_text st (hex_encode a) (hex_encode (codec_sha1 x ld))"
  shows "try_load os x f c = None"
proof (cases "parse_info (take n (info_text st (hex_encode a) (hex_encode (codec_sha1 x ld))))")
  case None
  then show ?thesis using assms(1)
    by (auto simp: try_load_def read_string_file_def fs_read_def split: sum.splits)
next
  case (Some i)
  have "read_object os x f (de_lru x) (lru_path c) h \<noteq> Inr v" if "h \<noteq> hex_encode (codec_sha1 x ld)" for h v
    using assms(2) that by (auto simp: read_object_def fs_read_def sha1_bytes_def)
  then have "load_objects os x f c i = None"
    using truncated_info_vars [OF Some assms(3)]
    by (auto simp: load_objects_def split: option.splits sum.splits)
  then show ?thesis using assms(1) Some
    by (auto simp: try_load_def read_string_file_def fs_read_def split: sum.splits)
qed

lemma load_without_info: "fs_get f (info_path c) = None \<Longrightarrow> try_load os x f c = None"
  by (simp add: try_load_def path_exists_def)

subsection \<open>Properties\<close>

lemma load_after_save:
  assumes "save os x f c st = (None, f')" "codec_ok x" "\<forall>p. \<not> os_denied os' Read p"
  shows "try_load os' x f' c = Some st"
  using save_ok_files [OF assms(1)] load_published [OF assms(2) _ _ _ _ _ assms(3)] by metis

text \<open>
  a snapshot survives a restart: when \<^verbatim>\<open>save\<close> succeeds, a later \<^verbatim>\<open>try_load\<close> returns exactly the
  state that was saved. bincode's promise is the hypothesis \<open>codec_ok\<close>; SHA-1 is arbitrary.
\<close>

theorem persistent_roundtrip:
  assumes "save os x f c st = (None, f')" "codec_ok x" "\<forall>p. \<not> os_denied os' Read p"
  shows "try_load os' x f' c = Some st"
  using assms by (rule load_after_save)

definition sample_ages :: "(string \<times> u64) list" where
  "sample_ages = [(''0123'', 5)]"

definition sample_codec :: codec where
  "sample_codec = \<lparr>ser_ages = (\<lambda>a. if a = sample_ages then Some ''A'' else None),
     de_ages = (\<lambda>d. if d = ''A'' then Some sample_ages else None),
     ser_lru = (\<lambda>a. if a = [1, 2] then Some ''B'' else None),
     de_lru = (\<lambda>d. if d = ''B'' then Some [1, 2] else None),
     codec_sha1 = (\<lambda>s. map (\<lambda>ch. of_nat (char_code ch)) s)\<rparr>"

definition sample_state :: PersistentCacheState where
  "sample_state = \<lparr>ps_cache_count = 3, ps_cache_size = 70, ps_lru_clear_pointer = 17,
     ps_static_range_ages = sample_ages, ps_lru_cache_table = [1, 2]\<rparr>"

definition sample_fs :: fs where
  "sample_fs = [([''data''], Dir)]"

lemma sample_codec_ok: "codec_ok sample_codec"
  by (simp add: codec_ok_def sample_codec_def)

lemma sample_data_dir: "cfg_data_dir sample_config = [''data'']"
  by (simp add: sample_config_def config_defaults_def sample_args_def path_from_def starts_with_def)

lemmas save_eval = save_def remove_if_exists_def fs_remove_file_def fs_write_def sample_data_dir
  sample_fs_def sample_state_def sample_codec_def sample_os_def is_dir_def parent_def

theorem persistent_roundtrip_witness:
  "try_load sample_os sample_codec (snd (save sample_os sample_codec sample_fs sample_config sample_state)) sample_config
     = Some sample_state"
proof -
  have "save sample_os sample_codec sample_fs sample_config sample_state
     = (None, snd (save sample_os sample_codec sample_fs sample_config sample_state))"
    by (simp add: save_eval)
  from persistent_roundtrip [OF this sample_codec_ok, of sample_os] show ?thesis by (simp add: sample_os_def)
qed


definition full_disk :: os where
  "full_disk = sample_os\<lparr>os_denied := (\<lambda>a p. a = Write \<and> p = [''data'', ''pcache_info'']), os_partial := (\<lambda>_. Some [])\<rparr>"

lemma torn_full_disk: "torn_writes full_disk"
  unfolding torn_writes_def fs_write_def full_disk_def
  by (auto split: if_splits) (metis take_0)


lemma remove_all_frame_none:
  "fst (remove_all os f ps) = None \<Longrightarrow> fs_get f q = None \<Longrightarrow> fs_get (snd (remove_all os f ps)) q = None"
proof (induction ps arbitrary: f)
  case (Cons p ps)
  then show ?case
    using remove_if_exists_ok [of os f p] by (auto split: prod.splits option.splits) (metis snd_conv)
qed simp

lemma remove_all_gone:
  "fst (remove_all os f ps) = None \<Longrightarrow> p \<in> set ps \<Longrightarrow> fs_get (snd (remove_all os f ps)) p = None"
proof (induction ps arbitrary: f)
  case (Cons q ps)
  obtain f1 where f1: "remove_if_exists os f q = (None, f1)"
    using Cons.prems(1) by (auto split: prod.splits option.splits)
  then show ?case
    using Cons remove_all_frame_none [of os f1 ps p] remove_if_exists_ok [OF f1] by auto
qed simp

lemma load_after_clear: "clear os f c = (None, f') \<Longrightarrow> try_load os' x f' c = None"
  using remove_all_gone [of os f _ "info_path c"] unfolding clear_def
  by (metis fst_conv list.set_intros(1) load_without_info snd_conv)

end
