(* ===== verification/Hath_Startup.thy ===== *)
theory Hath_Startup
  imports Hath_Config Hath_Lru
begin

text \<open>
  Start-up of the cache, \<^verbatim>\<open>src/src/cache/startup.rs\<close>: the clean-up pass that moves orphans into their
  directory, and the rescan that validates every file, rebuilds the counters, the age of each static
  range and the LRU table. The rescan's main property compares its counters with the files of the
  original tree that pass every check.
\<close>

record StartupCacheState =
  ss_lru :: LruState
  ss_cache_count :: u32
  ss_cache_size :: u64
  ss_static_range_oldest :: "(string \<times> u64) list"

subsection \<open>Clean-up\<close>

definition cleanup_entry :: "os \<Rightarrow> Config \<Rightarrow> fs \<Rightarrow> path \<Rightarrow> fs" where
  "cleanup_entry os c f e =
     (if is_dir f e then f
      else case from_fileid (file_name e) of
          None \<Rightarrow> remove_file os f e
        | Some hv \<Rightarrow>
            if \<not> is_static_range c (static_range hv) then remove_file os f e
            else let target = cache_path (cfg_cache_dir c) hv in
              (case ensure_dir os f (parent target) of
                 (Some _, f1) \<Rightarrow> f1
               | (None, f1) \<Rightarrow> (case fs_rename os f1 e target of Inl _ \<Rightarrow> f1 | Inr f2 \<Rightarrow> f2)))"

definition cleanup_l1 :: "os \<Rightarrow> Config \<Rightarrow> fs \<Rightarrow> path \<Rightarrow> fs" where
  "cleanup_l1 os c f l1 =
     (if \<not> is_dir f l1 then remove_file os f l1
      else let l2_entries = list_sorted_files os f l1 in
        if l2_entries = [] then remove_dir os f l1
        else foldl (cleanup_entry os c) f l2_entries)"

definition cleanup :: "os \<Rightarrow> Config \<Rightarrow> fs \<Rightarrow> fs" where
  "cleanup os c f = foldl (cleanup_l1 os c) f (list_sorted_files os f (cfg_cache_dir c))"

subsection \<open>Rescan\<close>

text \<open>The checks a file passes: its name, its length, its SHA-1 on a verifying scan, its range.\<close>

definition file_check :: "os \<Rightarrow> digest \<Rightarrow> Config \<Rightarrow> bool \<Rightarrow> fs \<Rightarrow> path \<Rightarrow> HVFile option" where
  "file_check os sha1 c verify f p =
     (case from_fileid (file_name p) of
        None \<Rightarrow> None
      | Some hv \<Rightarrow>
          if (case file_len os f p of None \<Rightarrow> 0 | Some n \<Rightarrow> n) \<noteq> unat (hv_size hv) then None
          else if verify \<and> (case fs_read os f p of
                              Inl _ \<Rightarrow> True
                            | Inr data \<Rightarrow> hex_encode (sha1 data) \<noteq> sha1_str (hv_hash hv)) then None
          else if \<not> is_static_range c (static_range hv) then None
          else Some hv)"

record rescan_state =
  rs_fs :: fs
  rs_count :: u32
  rs_size :: u64
  rs_ages :: "(string \<times> u64) list"
  rs_lru :: LruState

record dir_scan =
  ds_state :: rescan_state
  ds_oldest :: u64
  ds_found :: bool

definition rescan_file :: "os \<Rightarrow> digest \<Rightarrow> Config \<Rightarrow> bool \<Rightarrow> u64 \<Rightarrow> dir_scan \<Rightarrow> path \<Rightarrow> dir_scan" where
  "rescan_file os sha1 c verify cutoff d p =
     (let s = ds_state d; f = rs_fs s in
      if \<not> is_file f p then d
      else case file_check os sha1 c verify f p of
          None \<Rightarrow> d\<lparr>ds_state := s\<lparr>rs_fs := remove_file os f p\<rparr>\<rparr>
        | Some hv \<Rightarrow>
            let modified = modified_millis os f p in
            \<lparr>ds_state = s\<lparr>rs_count := rs_count s + 1,
                          rs_size := rs_size s + ucast (hv_size hv),
                          rs_lru := (if cutoff < modified then snd (lru_mark (rs_lru s) (fileid_str (fileid hv)))
                                     else rs_lru s)\<rparr>,
             ds_oldest = min (ds_oldest d) modified,
             ds_found = True\<rparr>)"

definition rescan_l2 :: "os \<Rightarrow> digest \<Rightarrow> Config \<Rightarrow> bool \<Rightarrow> u64 \<Rightarrow> rescan_state \<Rightarrow> path \<Rightarrow> rescan_state" where
  "rescan_l2 os sha1 c verify cutoff s l2 =
     (if \<not> is_dir (rs_fs s) l2 then s
      else let static_range = file_name (parent l2) @ file_name l2;
               files = list_sorted_files os (rs_fs s) l2 in
        if files = [] then s\<lparr>rs_fs := remove_dir os (rs_fs s) l2\<rparr>
        else let d = foldl (rescan_file os sha1 c verify cutoff)
                       \<lparr>ds_state = s, ds_oldest = - 1, ds_found = False\<rparr> files in
          if ds_found d then (ds_state d)\<lparr>rs_ages := AList.update static_range (ds_oldest d) (rs_ages (ds_state d))\<rparr>
          else (ds_state d)\<lparr>rs_fs := remove_dir os (rs_fs (ds_state d)) l2\<rparr>)"

definition rescan_l1 :: "os \<Rightarrow> digest \<Rightarrow> Config \<Rightarrow> bool \<Rightarrow> u64 \<Rightarrow> rescan_state \<Rightarrow> path \<Rightarrow> rescan_state" where
  "rescan_l1 os sha1 c verify cutoff s l1 =
     (if \<not> is_dir (rs_fs s) l1 then s
      else foldl (rescan_l2 os sha1 c verify cutoff) s (list_sorted_files os (rs_fs s) l1))"

definition full_rescan :: "os \<Rightarrow> digest \<Rightarrow> Config \<Rightarrow> bool \<Rightarrow> fs \<Rightarrow> StartupCacheState \<times> fs" where
  "full_rescan os sha1 c verify f =
     (let cutoff = saturating_sub (os_now_ms os) 604800000;
          s = foldl (rescan_l1 os sha1 c verify cutoff)
                \<lparr>rs_fs = f, rs_count = 0, rs_size = 0, rs_ages = [], rs_lru = LruState_new\<rparr>
                (list_sorted_files os f (cfg_cache_dir c))
      in (\<lparr>ss_lru = rs_lru s, ss_cache_count = rs_count s, ss_cache_size = rs_size s,
           ss_static_range_oldest = rs_ages s\<rparr>, rs_fs s))"

subsection \<open>The rescan as a scan of the original tree\<close>

text \<open>What a path contributes: the file and its modification time, when it passes the checks.\<close>

definition file_items :: "os \<Rightarrow> digest \<Rightarrow> Config \<Rightarrow> bool \<Rightarrow> fs \<Rightarrow> path \<Rightarrow> (HVFile \<times> u64) list" where
  "file_items os sha1 c verify f p =
     (if is_file f p then (case file_check os sha1 c verify f p of
                             None \<Rightarrow> [] | Some hv \<Rightarrow> [(hv, modified_millis os f p)])
      else [])"

definition dir_items :: "(fs \<Rightarrow> path \<Rightarrow> 'i list) \<Rightarrow> os \<Rightarrow> fs \<Rightarrow> path \<Rightarrow> 'i list" where
  "dir_items items os f d = concat (map (items f) (list_sorted_files os f d))"

definition scan_items :: "os \<Rightarrow> digest \<Rightarrow> Config \<Rightarrow> bool \<Rightarrow> fs \<Rightarrow> (HVFile \<times> u64) list" where
  "scan_items os sha1 c verify f =
     dir_items (dir_items (dir_items (file_items os sha1 c verify) os) os) os f (cfg_cache_dir c)"

definition add_item :: "u64 \<Rightarrow> u32 \<times> u64 \<times> LruState \<Rightarrow> HVFile \<times> u64 \<Rightarrow> u32 \<times> u64 \<times> LruState" where
  "add_item cutoff v i = (case v of (n, z, l) \<Rightarrow> (case i of (hv, m) \<Rightarrow>
     (n + 1, z + ucast (hv_size hv), if cutoff < m then snd (lru_mark l (fileid_str (fileid hv))) else l)))"

definition rs_val :: "rescan_state \<Rightarrow> u32 \<times> u64 \<times> LruState" where
  "rs_val s = (rs_count s, rs_size s, rs_lru s)"

definition below :: "path \<Rightarrow> path \<Rightarrow> bool" where
  "below d p \<longleftrightarrow> take (length d) p = d"

lemma file_check_cong:
  "fs_get f p = fs_get g p \<Longrightarrow> file_check os sha1 c verify f p = file_check os sha1 c verify g p"
  by (simp add: file_check_def file_len_def fs_read_def split: option.splits)

lemma file_items_cong:
  "fs_get f p = fs_get g p \<Longrightarrow> file_items os sha1 c verify f p = file_items os sha1 c verify g p"
proof -
  assume eq: "fs_get f p = fs_get g p"
  then have "modified_millis os f p = modified_millis os g p" "is_file f p = is_file g p"
    by (simp_all add: modified_millis_def is_file_def)
  then show ?thesis using file_check_cong [OF eq] by (auto simp: file_items_def split: option.split)
qed

lemma below_child:
  assumes "below p q" "p \<noteq> []"
  shows "below (parent p) q"
proof -
  have "butlast p = take (length p - 1) (take (length p) q)" using assms by (simp add: below_def butlast_conv_take)
  then show ?thesis by (simp add: below_def parent_def min_def)
qed

lemma dir_items_local:
  assumes "\<And>p f g. parent p = d \<Longrightarrow> p \<noteq> [] \<Longrightarrow> same_on (below p) f g \<Longrightarrow> items f p = items g p"
    and "same_on (below d) f g"
  shows "dir_items items os f d = dir_items items os g d"
proof -
  have b: "below d q" if "parent p = d" "p \<noteq> []" "below p q" for p q
    using that below_child by blast
  have "below p p" for p by (simp add: below_def)
  then have "list_sorted_files os f d = list_sorted_files os g d"
    using assms(2) b by (intro list_sorted_cong) (auto simp: same_on_def)
  moreover have "items f p = items g p" if "p \<in> set (list_sorted_files os g d)" for p
    using assms that b list_sorted_mem [OF that] by (intro assms(1)) (auto simp: same_on_def)
  ultimately show ?thesis by (auto simp: dir_items_def intro!: arg_cong [where f = concat])
qed

interpretation file_scan: region_scan "rescan_file os sha1 c verify cutoff" "\<lambda>d. rs_fs (ds_state d)"
  "\<lambda>d. rs_val (ds_state d)" "add_item cutoff" "file_items os sha1 c verify" "\<lambda>p q. q = p" "\<lambda>_. True"
  for os sha1 c verify cutoff
proof
  fix d p :: path and s :: dir_scan
  assume "\<not> p = d"
  then show "fs_get (rs_fs (ds_state (rescan_file os sha1 c verify cutoff s d))) p = fs_get (rs_fs (ds_state s)) p"
    by (auto simp: rescan_file_def Let_def remove_file_get split: option.splits)
next
  fix d :: path and s
  show "rs_val (ds_state (rescan_file os sha1 c verify cutoff s d))
     = foldl (add_item cutoff) (rs_val (ds_state s)) (file_items os sha1 c verify (rs_fs (ds_state s)) d)"
    by (auto simp: rescan_file_def Let_def file_items_def rs_val_def add_item_def split: option.splits)
next
  fix d f g
  assume "same_on (\<lambda>q. q = d) f g"
  then show "file_items os sha1 c verify f d = file_items os sha1 c verify g d"
    by (intro file_items_cong) (simp add: same_on_def)
qed auto

lemma child_length: "p \<noteq> [] \<Longrightarrow> parent p = d \<Longrightarrow> length p = Suc (length d)"
  by (auto simp: parent_def)

lemma remove_dir_frame: "q \<noteq> p \<Longrightarrow> fs_get (remove_dir os f p) q = fs_get f q"
  by (auto simp: remove_dir_def fs_remove_dir_def split: option.splits node.splits)

text \<open>The files of one second-level directory.\<close>

lemma l2_files:
  fixes s :: rescan_state and l2 :: path and os :: os
  defines "d0 \<equiv> \<lparr>ds_state = s, ds_oldest = - 1, ds_found = False\<rparr>"
    and "files \<equiv> list_sorted_files os (rs_fs s) l2"
  shows "rs_val (ds_state (foldl (rescan_file os sha1 c verify cutoff) d0 files))
      = foldl (add_item cutoff) (rs_val s) (dir_items (file_items os sha1 c verify) os (rs_fs s) l2)"
    and "\<not> below l2 p \<Longrightarrow>
      fs_get (rs_fs (ds_state (foldl (rescan_file os sha1 c verify cutoff) d0 files))) p = fs_get (rs_fs s) p"
proof -
  show "rs_val (ds_state (foldl (rescan_file os sha1 c verify cutoff) d0 files))
      = foldl (add_item cutoff) (rs_val s) (dir_items (file_items os sha1 c verify) os (rs_fs s) l2)"
    using file_scan.scan_val [of files os sha1 c verify cutoff d0] list_sorted_distinct
    by (simp add: d0_def files_def dir_items_def)
  assume "\<not> below l2 p"
  then have "\<forall>q \<in> set files. p \<noteq> q"
    using list_sorted_mem [of _ os "rs_fs s" l2] below_child [of p p] by (auto simp: files_def below_def)
  then show "fs_get (rs_fs (ds_state (foldl (rescan_file os sha1 c verify cutoff) d0 files))) p = fs_get (rs_fs s) p"
    using file_scan.scan_frame [of files p os sha1 c verify cutoff d0] by (simp add: d0_def)
qed

lemma below_refl [simp]: "below p p"
  by (simp add: below_def)

lemma rescan_l2_frame:
  assumes "\<not> below l2 p"
  shows "fs_get (rs_fs (rescan_l2 os sha1 c verify cutoff s l2)) p = fs_get (rs_fs s) p"
proof -
  have "p \<noteq> l2" using assms by auto
  then show ?thesis
    using l2_files(2) [OF assms, of os sha1 c verify cutoff s]
    by (auto simp: rescan_l2_def Let_def remove_dir_frame)
qed

lemma rescan_l2_val:
  "rs_val (rescan_l2 os sha1 c verify cutoff s l2)
     = foldl (add_item cutoff) (rs_val s) (dir_items (file_items os sha1 c verify) os (rs_fs s) l2)"
proof (cases "is_dir (rs_fs s) l2 \<and> list_sorted_files os (rs_fs s) l2 \<noteq> []")
  case True
  then show ?thesis using l2_files(1) [of os sha1 c verify cutoff s l2]
    by (simp add: rescan_l2_def Let_def rs_val_def)
next
  case False
  then have "list_sorted_files os (rs_fs s) l2 = []" by (auto simp: list_sorted_files_def)
  then show ?thesis using False by (auto simp: rescan_l2_def Let_def rs_val_def dir_items_def)
qed

lemma file_items_below:
  "same_on (below p) f g \<Longrightarrow> file_items os sha1 c verify f p = file_items os sha1 c verify g p"
  by (rule file_items_cong) (simp add: same_on_def)

lemma l2_items_below:
  "same_on (below d) f g \<Longrightarrow>
   dir_items (file_items os sha1 c verify) os f d = dir_items (file_items os sha1 c verify) os g d"
  by (rule dir_items_local) (auto intro: file_items_below)

lemma below_disjoint: "length d = length e \<Longrightarrow> d \<noteq> e \<Longrightarrow> below d p \<Longrightarrow> \<not> below e p"
  by (auto simp: below_def)

interpretation l2_scan: region_scan "rescan_l2 os sha1 c verify cutoff" rs_fs rs_val "add_item cutoff"
  "dir_items (file_items os sha1 c verify) os" below "\<lambda>d. length d = k"
  for os sha1 c verify cutoff k
  by unfold_locales (auto simp: rescan_l2_frame rescan_l2_val intro: l2_items_below dest: below_disjoint)

text \<open>The second-level entries of one first-level directory.\<close>

lemma l2_entries:
  "\<forall>p \<in> set (list_sorted_files os f d). length p = Suc (length d) \<and> below d p"
  using list_sorted_mem [of _ os f d] child_length below_child [of _ _] by fastforce

lemma rescan_l1_frame:
  assumes "\<not> below l1 p"
  shows "fs_get (rs_fs (rescan_l1 os sha1 c verify cutoff s l1)) p = fs_get (rs_fs s) p"
proof -
  have "\<forall>d \<in> set (list_sorted_files os (rs_fs s) l1). length d = Suc (length l1) \<and> \<not> below d p"
    using l2_entries [of os "rs_fs s" l1] assms list_sorted_mem [of _ os "rs_fs s" l1] below_child by blast
  then show ?thesis
    using l2_scan.scan_frame [of "list_sorted_files os (rs_fs s) l1" "Suc (length l1)" p os sha1 c verify cutoff s]
    by (simp add: rescan_l1_def)
qed

lemma rescan_l1_val:
  "rs_val (rescan_l1 os sha1 c verify cutoff s l1)
     = foldl (add_item cutoff) (rs_val s) (dir_items (dir_items (file_items os sha1 c verify) os) os (rs_fs s) l1)"
proof (cases "is_dir (rs_fs s) l1")
  case True
  then show ?thesis
    using l2_scan.scan_val [of "list_sorted_files os (rs_fs s) l1" "Suc (length l1)" os sha1 c verify cutoff s]
      l2_entries [of os "rs_fs s" l1] list_sorted_distinct
    by (simp add: rescan_l1_def dir_items_def)
next
  case False
  then have "list_sorted_files os (rs_fs s) l1 = []" by (simp add: list_sorted_files_def)
  then show ?thesis using False by (simp add: rescan_l1_def dir_items_def)
qed

interpretation l1_scan: region_scan "rescan_l1 os sha1 c verify cutoff" rs_fs rs_val "add_item cutoff"
  "dir_items (dir_items (file_items os sha1 c verify) os) os" below "\<lambda>d. length d = k"
  for os sha1 c verify cutoff k
  by unfold_locales
    (auto simp: rescan_l1_frame rescan_l1_val intro!: dir_items_local [OF l2_items_below] dest: below_disjoint)

lemma add_items_value:
  "foldl (add_item cutoff) (n, z, l) is =
     (n + of_nat (length is), z + sum_list (map (\<lambda>i. ucast (hv_size (fst i))) is),
      foldl (\<lambda>l i. if cutoff < snd i then snd (lru_mark l (fileid_str (fileid (fst i)))) else l) l is)"
  by (induction "is" arbitrary: n z l) (auto simp: add_item_def split: prod.split)

text \<open>
  C12: the rescan's counters are exact: although it deletes files and directories while it walks the
  tree, the count, the total size and the LRU table it returns are those of the files of the
  original tree that pass every check (name, length, SHA-1 when verifying, assigned static range),
  in listing order, with the recently modified ones marked.
\<close>

theorem full_rescan_counts:
  "ss_cache_count (fst (full_rescan os sha1 c verify f)) = of_nat (length (scan_items os sha1 c verify f))
   \<and> ss_cache_size (fst (full_rescan os sha1 c verify f)) = sum_list (map (\<lambda>i. ucast (hv_size (fst i))) (scan_items os sha1 c verify f))
   \<and> ss_lru (fst (full_rescan os sha1 c verify f)) = foldl (\<lambda>l i. if saturating_sub (os_now_ms os) 604800000 < snd i
                               then snd (lru_mark l (fileid_str (fileid (fst i)))) else l)
                  LruState_new (scan_items os sha1 c verify f)"
  using l1_scan.scan_val [of "list_sorted_files os f (cfg_cache_dir c)" "Suc (length (cfg_cache_dir c))" os sha1 c verify
      "saturating_sub (os_now_ms os) 604800000"
      "\<lparr>rs_fs = f, rs_count = 0, rs_size = 0, rs_ages = [], rs_lru = LruState_new\<rparr>"]
    l2_entries [of os f "cfg_cache_dir c"] list_sorted_distinct
  by (auto simp: full_rescan_def Let_def rs_val_def scan_items_def dir_items_def [of _ _ _ "cfg_cache_dir c"] add_items_value)

subsection \<open>Valid files are kept\<close>

definition valid_at :: "os \<Rightarrow> digest \<Rightarrow> Config \<Rightarrow> bool \<Rightarrow> fs \<Rightarrow> path \<Rightarrow> bool" where
  "valid_at os sha1 c verify f p \<longleftrightarrow> is_file f p \<and> file_check os sha1 c verify f p \<noteq> None"

lemma foldl_keeps: "Q s \<Longrightarrow> (\<And>s x. Q s \<Longrightarrow> Q (step s x)) \<Longrightarrow> Q (foldl step s xs)"
  by (induction xs arbitrary: s) auto

lemma valid_at_cong: "fs_get f p = fs_get g p \<Longrightarrow> valid_at os sha1 c verify f p = valid_at os sha1 c verify g p"
  using file_check_cong [of f p g os sha1 c verify] by (simp add: valid_at_def is_file_def)

lemma rescan_file_keeps:
  assumes "valid_at os sha1 c verify f p" "fs_get (rs_fs (ds_state d)) p = fs_get f p"
  shows "fs_get (rs_fs (ds_state (rescan_file os sha1 c verify cutoff d q))) p = fs_get f p"
proof -
  have "valid_at os sha1 c verify (rs_fs (ds_state d)) p" using assms valid_at_cong by metis
  then show ?thesis
    using assms(2) by (auto simp: rescan_file_def Let_def remove_file_get valid_at_def split: option.splits)
qed

lemma remove_dir_keeps: "is_file f p \<Longrightarrow> fs_get g p = fs_get f p \<Longrightarrow> fs_get (remove_dir os g q) p = fs_get f p"
  using remove_dir_files [of g p os q] by (simp add: is_file_def)

lemma rescan_l2_keeps:
  assumes v: "valid_at os sha1 c verify f p" and e: "fs_get (rs_fs s) p = fs_get f p"
  shows "fs_get (rs_fs (rescan_l2 os sha1 c verify cutoff s q)) p = fs_get f p"
proof -
  have fp: "is_file f p" using v by (simp add: valid_at_def)
  have "fs_get (rs_fs (ds_state (foldl (rescan_file os sha1 c verify cutoff)
      \<lparr>ds_state = s, ds_oldest = - 1, ds_found = False\<rparr> qs))) p = fs_get f p" for qs
    by (rule foldl_keeps) (auto simp: e intro: rescan_file_keeps [OF v])
  then show ?thesis by (simp add: rescan_l2_def Let_def remove_dir_keeps [OF fp] e)
qed

lemma rescan_l1_keeps:
  assumes v: "valid_at os sha1 c verify f p" and e: "fs_get (rs_fs s) p = fs_get f p"
  shows "fs_get (rs_fs (rescan_l1 os sha1 c verify cutoff s q)) p = fs_get f p"
proof -
  have "fs_get (rs_fs (foldl (rescan_l2 os sha1 c verify cutoff) s qs)) p = fs_get f p" for qs
    by (rule foldl_keeps) (auto simp: e intro: rescan_l2_keeps [OF v])
  then show ?thesis by (simp add: rescan_l1_def e)
qed

text \<open>
  the rescan never deletes or alters a good file: whatever else it removes, a regular file that
  passes the checks has the same contents and modification time afterwards.
\<close>

theorem full_rescan_keeps_valid:
  assumes "is_file f p" "file_check os sha1 c verify f p \<noteq> None"
  shows "fs_get (snd (full_rescan os sha1 c verify f)) p = fs_get f p"
proof -
  have v: "valid_at os sha1 c verify f p" using assms by (simp add: valid_at_def)
  have "fs_get (rs_fs (foldl (rescan_l1 os sha1 c verify cutoff)
      \<lparr>rs_fs = f, rs_count = 0, rs_size = 0, rs_ages = [], rs_lru = LruState_new\<rparr> qs)) p = fs_get f p" for qs cutoff
    by (rule foldl_keeps) (auto intro: rescan_l1_keeps [OF v])
  then show ?thesis by (simp add: full_rescan_def Let_def)
qed

definition cache_fs :: fs where
  "cache_fs = [([''cache''], Dir), ([''cache'', ''aa''], Dir), ([''cache'', ''aa'', ''bb''], Dir),
     ([''cache'', ''aa'', ''bb'', sample_id], File ''0123456789ab'' 7), ([''cache'', ''aa'', ''bb'', ''junk''], File [] 7)]"

definition assigned_config :: Config where
  "assigned_config = sample_config\<lparr>cfg_static_ranges := [(''aabb'', 1)]\<rparr>"

lemma sample_file_check:
  "file_check sample_os sha1 assigned_config False cache_fs [''cache'', ''aa'', ''bb'', sample_id] = Some sample_file"
  by (simp add: file_check_def file_name_def sample_file_parsed file_len_def sample_os_def cache_fs_def
      assigned_config_def is_static_range_def static_range_def Sha1Hash_static_range_def)
    (simp add: sample_file_def)

lemma cache_fs_entry: "fs_get cache_fs [''cache'', ''aa'', ''bb'', sample_id] = Some (File ''0123456789ab'' 7)"
  by (simp add: cache_fs_def)

theorem full_rescan_keeps_valid_witness:
  "fs_get (snd (full_rescan sample_os (\<lambda>_. []) assigned_config False cache_fs)) [''cache'', ''aa'', ''bb'', sample_id]
     = Some (File ''0123456789ab'' 7)"
proof -
  have "is_file cache_fs [''cache'', ''aa'', ''bb'', sample_id]" by (simp add: is_file_def cache_fs_def)
  from full_rescan_keeps_valid [OF this, of sample_os "\<lambda>_. []" assigned_config False]
  show ?thesis by (simp add: sample_file_check cache_fs_entry)
qed

end
