(* ===== verification/Hath_Cache.thy ===== *)
theory Hath_Cache
  imports Hath_Stats Hath_Persistent Hath_Startup
begin

text \<open>
  The cache handler, \<^verbatim>\<open>src/src/cache/mod.rs\<close> with \<^verbatim>\<open>prune.rs\<close> and \<^verbatim>\<open>blacklist.rs\<close>: start-up, saving and
  discarding the snapshot, the counters and their accounting, recency marks, and the decision what
  to prune. The shared statistics are a field of the state, the configuration snapshot an argument.
  Each operation runs under the lock the source takes, so an operation is one step.
\<close>

record CacheHandler =
  ch_stats :: Stats
  ch_lru :: LruState
  ch_cache_count :: u32
  ch_cache_size :: u64
  ch_static_range_oldest :: "(string \<times> u64) list"
  ch_cache_loaded :: bool
  ch_persistent_state_valid :: bool
  ch_last_file_verification :: nat

subsection \<open>Sizes\<close>

definition cache_size_with_overhead :: "u64 \<Rightarrow> u32 \<Rightarrow> Config \<Rightarrow> u64" where
  "cache_size_with_overhead actual count c = actual + (ucast count * cfg_filesystem_blocksize c) div 2"

definition get_cache_size_with_overhead :: "Config \<Rightarrow> CacheHandler \<Rightarrow> u64" where
  "get_cache_size_with_overhead c h = cache_size_with_overhead (ch_cache_size h) (ch_cache_count h) c"

subsection \<open>Start-up\<close>

definition clean_temp_file :: "os \<Rightarrow> fs \<Rightarrow> path \<Rightarrow> fs" where
  "clean_temp_file os f p =
     (let name = file_name p in
      if is_file f p \<and> \<not> starts_with ''log_'' name \<and> \<not> starts_with ''pcache_'' name \<and> name \<noteq> ''client_login''
      then remove_file os f p else f)"

definition restore_state :: "PersistentCacheState \<Rightarrow> StartupCacheState" where
  "restore_state ps =
     (let len = min (length (ps_lru_cache_table ps)) LRU_CACHE_SIZE in
      \<lparr>ss_lru = \<lparr>lru_cache_table = take len (ps_lru_cache_table ps) @ drop len (lru_cache_table LruState_new),
                 lru_clear_pointer = ps_lru_clear_pointer ps\<rparr>,
       ss_cache_count = ps_cache_count ps, ss_cache_size = ps_cache_size ps,
       ss_static_range_oldest = ps_static_range_ages ps\<rparr>)"

text \<open>The result, whether the shutdown token was cancelled, and the new tree.\<close>

definition CacheHandler_new ::
  "os \<Rightarrow> codec \<Rightarrow> nat \<Rightarrow> Config \<Rightarrow> Stats \<Rightarrow> fs \<Rightarrow> CacheHandler res \<times> bool \<times> fs" where
  "CacheHandler_new os x instant c stats f =
     (if path_exists f (cfg_cache_dir c) \<and> (os_denied os ReadDir (cfg_cache_dir c) \<or> \<not> is_dir f (cfg_cache_dir c))
      then (Inl (Fatal ''cannot read cache directory''), True, f)
      else
        let f1 = foldl (clean_temp_file os) f (list_sorted_files os f (cfg_temp_dir c));
            persistent_state = (if cfg_rescan_cache c then None else try_load os x f1 c)
        in case clear os f1 c of
            (Some e, f2) \<Rightarrow> (Inl e, False, f2)
          | (None, f2) \<Rightarrow>
              let (st, f3) = (case persistent_state of
                    Some ps \<Rightarrow> (restore_state ps, f2)
                  | None \<Rightarrow> full_rescan os (codec_sha1 x) c (cfg_verify_cache c) (cleanup os c f2));
                  total = cache_size_with_overhead (ss_cache_size st) (ss_cache_count st) c;
                  stats1 = set_cache_size total (set_cache_count (ss_cache_count st) stats)
              in if \<not> cfg_skip_free_space_check c
                   \<and> (case os_free_space os (cfg_cache_dir c) of
                        None \<Rightarrow> False | Some free \<Rightarrow> free < saturating_sub (cfg_disklimit_bytes c) total)
                 then (Inl (Fatal ''insufficient disk space for cache''), True, f3)
                 else if ss_cache_count st < 1 \<and> 20 < cfg_static_range_count c
                 then (Inl (Fatal ''empty cache with static ranges assigned''), True, f3)
                 else (Inr \<lparr>ch_stats = stats1, ch_lru = ss_lru st, ch_cache_count = ss_cache_count st,
                            ch_cache_size = ss_cache_size st, ch_static_range_oldest = ss_static_range_oldest st,
                            ch_cache_loaded = True, ch_persistent_state_valid = True,
                            ch_last_file_verification = instant\<rparr>, False, f3))"

subsection \<open>Saving and discarding\<close>

definition discard_persistent_data :: "os \<Rightarrow> Config \<Rightarrow> CacheHandler \<times> fs \<Rightarrow> CacheHandler \<times> fs" where
  "discard_persistent_data os c hf =
     (case hf of (h, f) \<Rightarrow> (h\<lparr>ch_persistent_state_valid := False\<rparr>, snd (clear os f c)))"

definition snapshot :: "CacheHandler \<Rightarrow> PersistentCacheState" where
  "snapshot h = \<lparr>ps_cache_count = ch_cache_count h, ps_cache_size = ch_cache_size h,
     ps_lru_clear_pointer = lru_clear_pointer (ch_lru h), ps_static_range_ages = ch_static_range_oldest h,
     ps_lru_cache_table = lru_cache_table (ch_lru h)\<rparr>"

definition save_persistent_data ::
  "os \<Rightarrow> codec \<Rightarrow> Config \<Rightarrow> CacheHandler \<times> fs \<Rightarrow> bool \<times> CacheHandler \<times> fs" where
  "save_persistent_data os x c hf =
     (case hf of (h, f) \<Rightarrow>
        if \<not> ch_cache_loaded h then (False, h, f)
        else if \<not> ch_persistent_state_valid h then (False, discard_persistent_data os c (h, f))
        else (case save os x f c (snapshot h) of
                (Some _, f1) \<Rightarrow> (False, discard_persistent_data os c (h, f1))
              | (None, f1) \<Rightarrow> (True, h, f1)))"

definition is_file_verification_on_cooldown :: "nat \<Rightarrow> CacheHandler \<Rightarrow> bool \<times> CacheHandler" where
  "is_file_verification_on_cooldown now h =
     (if now - ch_last_file_verification h < 2000 then (True, h)
      else (False, h\<lparr>ch_last_file_verification := now\<rparr>))"

subsection \<open>Accounting\<close>

definition update_cache_stats :: "Config \<Rightarrow> u32 \<Rightarrow> u64 \<Rightarrow> CacheHandler \<Rightarrow> CacheHandler" where
  "update_cache_stats c count sz h =
     h\<lparr>ch_stats := set_cache_size (cache_size_with_overhead sz count c) (set_cache_count count (ch_stats h))\<rparr>"

definition invalidate_accounting :: "CacheHandler \<Rightarrow> CacheHandler" where
  "invalidate_accounting h = h\<lparr>ch_persistent_state_valid := False\<rparr>"

definition account_file_added :: "Config \<Rightarrow> HVFile \<Rightarrow> CacheHandler \<Rightarrow> CacheHandler" where
  "account_file_added c hv h =
     (case checked_add (ch_cache_count h) 1 of
        None \<Rightarrow> invalidate_accounting h
      | Some next_count \<Rightarrow>
          (case checked_add (ch_cache_size h) (ucast (hv_size hv)) of
             None \<Rightarrow> invalidate_accounting h
           | Some next_size \<Rightarrow>
               update_cache_stats c next_count next_size
                 (h\<lparr>ch_cache_count := next_count, ch_cache_size := next_size\<rparr>)))"

definition account_file_removed :: "Config \<Rightarrow> HVFile \<Rightarrow> CacheHandler \<Rightarrow> CacheHandler" where
  "account_file_removed c hv h =
     (case checked_sub (ch_cache_count h) 1 of
        None \<Rightarrow> invalidate_accounting h
      | Some next_count \<Rightarrow>
          (case checked_sub (ch_cache_size h) (ucast (hv_size hv)) of
             None \<Rightarrow> invalidate_accounting h
           | Some next_size \<Rightarrow>
               update_cache_stats c next_count next_size
                 (h\<lparr>ch_cache_count := next_count, ch_cache_size := next_size\<rparr>)))"

definition record_pruned_file :: "Config \<Rightarrow> HVFile \<Rightarrow> CacheHandler \<Rightarrow> CacheHandler" where
  "record_pruned_file c hv h = account_file_removed c hv h"

definition delete_file_from_cache ::
  "os \<Rightarrow> Config \<Rightarrow> string \<Rightarrow> CacheHandler \<times> fs \<Rightarrow> HathError option \<times> CacheHandler \<times> fs" where
  "delete_file_from_cache os c fid hf =
     (case hf of (h, f) \<Rightarrow>
        case from_fileid fid of
          None \<Rightarrow> (None, h, f)
        | Some hv \<Rightarrow>
            let path = cache_path (cfg_cache_dir c) hv in
            if \<not> path_exists f path then (None, h, f)
            else (case fs_remove_file os f path of
                    Inl _ \<Rightarrow> (Some (Io ''remove_file''), h, f)
                  | Inr f1 \<Rightarrow> (None, account_file_removed c hv h, f1)))"

text \<open>Marking a served file; a file older than a week gets a new modification time.\<close>

definition cache_mark_recently_accessed ::
  "os \<Rightarrow> Config \<Rightarrow> HVFile \<Rightarrow> bool \<Rightarrow> CacheHandler \<times> fs \<Rightarrow> bool \<times> CacheHandler \<times> fs" where
  "cache_mark_recently_accessed os c hv skip_meta_update hf =
     (case hf of (h, f) \<Rightarrow>
        let (mark_file, l) = lru_mark (ch_lru h) (fileid_str (fileid hv));
            h1 = h\<lparr>ch_lru := l\<rparr>;
            p = cache_path (cfg_cache_dir c) hv
        in if mark_file \<and> \<not> skip_meta_update \<and> \<not> os_denied os Stat p \<and> \<not> os_denied os Read p
              \<and> (case fs_get f p of
                    Some (File _ mtime) \<Rightarrow> unat mtime + 604800000 < unat (os_now_ms os)
                  | _ \<Rightarrow> False)
           then (mark_file, h1, fs_set_modified os f p (os_now_ms os))
           else (mark_file, h1, f))"

text \<open>\<open>lock_free\<close> is whether \<^verbatim>\<open>try_lock\<close> on the LRU mutex succeeds.\<close>

definition register_proxy_file :: "bool \<Rightarrow> u64 \<Rightarrow> Config \<Rightarrow> HVFile \<Rightarrow> CacheHandler \<Rightarrow> CacheHandler" where
  "register_proxy_file lock_free now c hv h =
     (let h1 = account_file_added c hv h;
          h2 = (if lock_free then h1\<lparr>ch_lru := snd (lru_mark (ch_lru h1) (fileid_str (fileid hv)))\<rparr> else h1);
          r = static_range hv
      in if r \<notin> fst ` set (ch_static_range_oldest h2)
         then h2\<lparr>ch_static_range_oldest := AList.update r now (ch_static_range_oldest h2)\<rparr>
         else h2)"

subsection \<open>The blacklist\<close>

definition delete_listed_files :: "os \<Rightarrow> Config \<Rightarrow> string list \<Rightarrow> CacheHandler \<times> fs \<Rightarrow> CacheHandler \<times> fs" where
  "delete_listed_files os c fileids hf =
     foldl (\<lambda>hf fid. snd (delete_file_from_cache os c fid hf)) hf fileids"

subsection \<open>What to prune\<close>

definition DAY_MS :: u64 where
  "DAY_MS = 86400000"

record PrunePlan =
  pp_static_range :: string
  pp_range_dir :: path
  pp_cutoff :: u64
  pp_fast_delete :: bool

record PruneResult =
  pr_static_range :: string
  pr_range_dir :: path
  pr_file_count :: nat
  pr_oldest_last_modified :: u64

datatype PruneAction = Prune PrunePlan | NoPrune u32

definition prune_frequency :: "u64 \<Rightarrow> u64 \<Rightarrow> u64 \<Rightarrow> u32" where
  "prune_frequency cache_limit cswo want_free =
     (let free = saturating_sub cache_limit cswo in
      if want_free * 10 < free then 600 else if want_free < free then 60 else 10)"

text \<open>The first entry of the map, in its iteration order, with the least age.\<close>

fun min_by_age :: "(string \<times> u64) list \<Rightarrow> (string \<times> u64) option" where
  "min_by_age [] = None"
| "min_by_age (e # es) =
     (case min_by_age es of
        None \<Rightarrow> Some e
      | Some e' \<Rightarrow> if snd e \<le> snd e' then Some e else Some e')"

definition prune_cutoff :: "u64 \<Rightarrow> u64 \<Rightarrow> u64" where
  "prune_cutoff now age =
     (if age < saturating_sub now (180 * DAY_MS) then age + 30 * DAY_MS
      else if age < saturating_sub now (90 * DAY_MS) then age + 7 * DAY_MS
      else if age < saturating_sub now (30 * DAY_MS) then age + 3 * DAY_MS
      else age + 1 * DAY_MS)"

text \<open>\<open>None\<close> is the panic of the slices \<^verbatim>\<open>[0..2]\<close> and \<^verbatim>\<open>[2..4]\<close> of the range's name.\<close>

definition check_prune_action :: "u64 \<Rightarrow> Config \<Rightarrow> CacheHandler \<Rightarrow> PruneAction option" where
  "check_prune_action now c h =
     (let want_free = 104857600;
          cache_limit = cfg_disklimit_bytes c;
          count = ch_cache_count h;
          cswo = get_cache_size_with_overhead c h;
          range_ages = ch_static_range_oldest h;
          (bytes_to_free, fast_delete) =
            (if cache_limit < cswo then (want_free + cswo - cache_limit, True)
             else if 0 < count \<and> range_ages \<noteq> [] \<and> saturating_sub cache_limit cswo < want_free
             then (want_free - (cache_limit - cswo), False)
             else (0, False))
      in if bytes_to_free = 0 \<or> count = 0 \<or> cfg_static_range_count c = 0 \<or> range_ages = []
         then Some (NoPrune (prune_frequency cache_limit cswo want_free))
         else (case min_by_age range_ages of
                 None \<Rightarrow> Some (NoPrune (prune_frequency cache_limit cswo want_free))
               | Some (r, age) \<Rightarrow>
                   if length r < 4 then None
                   else Some (Prune \<lparr>pp_static_range = r,
                                pp_range_dir = cfg_cache_dir c @ [take 2 r, take 2 (drop 2 r)],
                                pp_cutoff = prune_cutoff now age, pp_fast_delete = fast_delete\<rparr>)))"

definition apply_prune_result :: "os \<Rightarrow> PruneResult \<Rightarrow> CacheHandler \<times> fs \<Rightarrow> CacheHandler \<times> fs" where
  "apply_prune_result os r hf =
     (case hf of (h, f) \<Rightarrow>
        if 0 < pr_file_count r
        then (h\<lparr>ch_static_range_oldest :=
                 AList.update (pr_static_range r) (pr_oldest_last_modified r) (ch_static_range_oldest h)\<rparr>, f)
        else (h\<lparr>ch_static_range_oldest := AList.delete (pr_static_range r) (ch_static_range_oldest h)\<rparr>,
              remove_dir os f (pr_range_dir r)))"

text \<open>The ten-second tick: \<open>None\<close> is the panic of \<^verbatim>\<open>cycle\<close>.\<close>

definition periodic_stats :: "bool \<Rightarrow> CacheHandler \<Rightarrow> CacheHandler option" where
  "periodic_stats lock_free h =
     (case (if lock_free then cycle (ch_lru h) else Some (ch_lru h)) of
        None \<Rightarrow> None
      | Some l \<Rightarrow> Some (h\<lparr>ch_lru := l, ch_stats := shift_bytes_sent_history (ch_stats h)\<rparr>))"

subsection \<open>The accounting interface\<close>

text \<open>
  What the clients of the counters (blacklist, pruner, proxy downloads) rely on: while the state is
  valid, adding and removing a file changes the two counters by exactly one and the file's weight,
  with no wrap-around; an operation that cannot do so makes the state invalid for good.
\<close>

datatype 'f account_op = Added 'f | Removed 'f

locale accounting =
  fixes added :: "'f \<Rightarrow> 's \<Rightarrow> 's"
    and removed :: "'f \<Rightarrow> 's \<Rightarrow> 's"
    and count :: "'s \<Rightarrow> nat"
    and total :: "'s \<Rightarrow> nat"
    and valid :: "'s \<Rightarrow> bool"
    and weight :: "'f \<Rightarrow> nat"
  assumes added_exact: "valid (added x s) \<Longrightarrow>
      valid s \<and> count (added x s) = count s + 1 \<and> total (added x s) = total s + weight x"
    and removed_exact: "valid (removed x s) \<Longrightarrow>
      valid s \<and> count s = count (removed x s) + 1 \<and> total s = total (removed x s) + weight x"
begin

primrec account :: "'s \<Rightarrow> 'f account_op \<Rightarrow> 's" where
  "account s (Added x) = added x s"
| "account s (Removed x) = removed x s"

lemma account_valid: "valid (account s a) \<Longrightarrow> valid s"
proof (cases a)
  case (Added x)
  then show "valid (account s a) \<Longrightarrow> valid s" using added_exact [of x s] by simp
next
  case (Removed x)
  then show "valid (account s a) \<Longrightarrow> valid s" using removed_exact [of x s] by simp
qed

lemma run_valid: "valid (foldl account s ops) \<Longrightarrow> valid s"
proof (induction ops arbitrary: s)
  case (Cons a ops)
  then have "valid (account s a)" by simp
  then show ?case by (rule account_valid)
qed simp

lemma run_balance:
  "valid (foldl account s ops) \<Longrightarrow>
   count (foldl account s ops) + length [x. Removed x \<leftarrow> ops] = count s + length [x. Added x \<leftarrow> ops]
   \<and> total (foldl account s ops) + sum_list (map weight [x. Removed x \<leftarrow> ops])
       = total s + sum_list (map weight [x. Added x \<leftarrow> ops])"
proof (induction ops arbitrary: s)
  case (Cons a ops)
  then have v: "valid (account s a)" using run_valid by simp
  show ?case
  proof (cases a)
    case (Added x)
    then show ?thesis using Cons.IH [of "added x s"] Cons.prems added_exact [of x s] v by simp
  next
    case (Removed x)
    then show ?thesis using Cons.IH [of "removed x s"] Cons.prems removed_exact [of x s] v by simp
  qed
qed simp

end

lemma account_added_exact:
  assumes "ch_persistent_state_valid (account_file_added c hv h)"
  shows "ch_persistent_state_valid h
    \<and> unat (ch_cache_count (account_file_added c hv h)) = unat (ch_cache_count h) + 1
    \<and> unat (ch_cache_size (account_file_added c hv h)) = unat (ch_cache_size h) + unat (hv_size hv)"
  using assms unat_u32 [of "hv_size hv"]
  by (auto simp: account_file_added_def invalidate_accounting_def update_cache_stats_def unat_add_fits
      split: option.splits)

lemma account_removed_exact:
  assumes "ch_persistent_state_valid (account_file_removed c hv h)"
  shows "ch_persistent_state_valid h
    \<and> unat (ch_cache_count h) = unat (ch_cache_count (account_file_removed c hv h)) + 1
    \<and> unat (ch_cache_size h) = unat (ch_cache_size (account_file_removed c hv h)) + unat (hv_size hv)"
  using assms
  by (auto simp: account_file_removed_def invalidate_accounting_def update_cache_stats_def unat_sub_fits
      word_le_nat_alt word_less_nat_alt split: option.splits)

interpretation cache_accounting: accounting "\<lambda>(c, hv). account_file_added c hv" "\<lambda>(c, hv). account_file_removed c hv"
  "\<lambda>h. unat (ch_cache_count h)" "\<lambda>h. unat (ch_cache_size h)" ch_persistent_state_valid "\<lambda>(c, hv). unat (hv_size hv)"
  by unfold_locales (auto dest: account_added_exact account_removed_exact)

definition cache_account :: "CacheHandler \<Rightarrow> (Config \<times> HVFile) account_op \<Rightarrow> CacheHandler" where
  "cache_account h a = (case a of Added (c, hv) \<Rightarrow> account_file_added c hv h | Removed (c, hv) \<Rightarrow> account_file_removed c hv h)"

lemma cache_account_eq: "cache_accounting.account = cache_account"
proof (intro ext)
  fix h a
  show "cache_accounting.account h a = cache_account h a"
    by (cases a) (auto simp: cache_account_def)
qed

subsection \<open>The prune decision\<close>

lemma min_by_age_None [simp]: "min_by_age es = None \<longleftrightarrow> es = []"
  by (cases es) (auto split: option.splits)

lemma min_by_age_least:
  "min_by_age es = Some (r, a) \<Longrightarrow> (r, a) \<in> set es \<and> (\<forall>(r', a') \<in> set es. a \<le> a')"
proof (induction es arbitrary: r a)
  case (Cons e es)
  show ?case
  proof (cases "min_by_age es")
    case None
    then show ?thesis using Cons by simp
  next
    case (Some e')
    then show ?thesis using Cons by (cases e; cases e') (fastforce split: if_splits)
  qed
qed simp

text \<open>Free space as the decision sees it, on natural numbers.\<close>

definition free_space :: "Config \<Rightarrow> CacheHandler \<Rightarrow> nat" where
  "free_space c h = unat (cfg_disklimit_bytes c) - unat (get_cache_size_with_overhead c h)"

lemma prune_cutoff_later:
  assumes "unat age + 2592000000 < 2 ^ 64"
  shows "unat age + 86400000 \<le> unat (prune_cutoff now age) \<and> unat (prune_cutoff now age) \<le> unat age + 2592000000"
proof -
  have "unat (age + of_nat n) = unat age + n" if "n \<le> 2592000000" for n
    using assms that by (simp add: unat_word_ariths unat_of_nat take_bit_nat_eq_self)
  from this [of 2592000000] this [of 604800000] this [of 259200000] this [of 86400000]
  show ?thesis by (simp add: prune_cutoff_def DAY_MS_def)
qed

subsection \<open>Properties\<close>

text \<open>
  C11: the accounting of the cache never wraps: after any sequence of registrations and removals, if
  the state is still valid then the count and the size differ from the initial ones by exactly the
  number and the sizes of the files added minus those removed, as natural numbers.
\<close>

theorem accounting_exact:
  assumes "ch_persistent_state_valid (foldl cache_account h ops)"
  shows "unat (ch_cache_count (foldl cache_account h ops)) + length [x. Removed x \<leftarrow> ops]
         = unat (ch_cache_count h) + length [x. Added x \<leftarrow> ops]
    \<and> unat (ch_cache_size (foldl cache_account h ops)) + sum_list (map (\<lambda>(c, hv). unat (hv_size hv)) [x. Removed x \<leftarrow> ops])
         = unat (ch_cache_size h) + sum_list (map (\<lambda>(c, hv). unat (hv_size hv)) [x. Added x \<leftarrow> ops])"
  using cache_accounting.run_balance [of h ops] assms unfolding cache_account_eq by blast

definition sample_handler :: CacheHandler where
  "sample_handler = \<lparr>ch_stats = Stats_new, ch_lru = LruState_new, ch_cache_count = 0, ch_cache_size = 0,
     ch_static_range_oldest = [(''aabb'', 5)], ch_cache_loaded = True, ch_persistent_state_valid = True,
     ch_last_file_verification = 0\<rparr>"

lemmas account_eval = cache_account_def account_file_added_def account_file_removed_def checked_add_def checked_sub_def
  update_cache_stats_def invalidate_accounting_def

theorem accounting_exact_witness:
  "unat (ch_cache_count (foldl cache_account sample_handler
      [Added (sample_config, sample_file), Added (sample_config, sample_file), Removed (sample_config, sample_file)])) = 1"
proof -
  have "ch_persistent_state_valid (foldl cache_account sample_handler
      [Added (sample_config, sample_file), Added (sample_config, sample_file), Removed (sample_config, sample_file)])"
    by (simp add: account_eval sample_handler_def sample_file_def)
  from accounting_exact [OF this] show ?thesis by (simp add: sample_handler_def)
qed

text \<open>
  the pruner's decision: it plans a deletion only when the cache holds files, the server assigns
  ranges, and the free space (with block overhead) is below 100 MiB; the range it picks is one of the
  least age, its directory is the one of the range, and only files at most thirty days younger than
  that age are in reach of the cutoff.
\<close>

theorem prune_only_when_needed:
  assumes "check_prune_action now c h = Some (Prune plan)"
    and "\<forall>(r, a) \<in> set (ch_static_range_oldest h). unat a + 2592000000 < 2 ^ 64"
  shows "0 < ch_cache_count h \<and> 0 < cfg_static_range_count c \<and> free_space c h < 104857600
    \<and> pp_range_dir plan = cfg_cache_dir c @ [take 2 (pp_static_range plan), take 2 (drop 2 (pp_static_range plan))]
    \<and> (pp_fast_delete plan \<longleftrightarrow> cfg_disklimit_bytes c < get_cache_size_with_overhead c h)
    \<and> (\<exists>a. (pp_static_range plan, a) \<in> set (ch_static_range_oldest h)
         \<and> (\<forall>(r', a') \<in> set (ch_static_range_oldest h). a \<le> a')
         \<and> unat a + 86400000 \<le> unat (pp_cutoff plan) \<and> unat (pp_cutoff plan) \<le> unat a + 2592000000)"
proof -
  let ?s = "get_cache_size_with_overhead c h" and ?l = "cfg_disklimit_bytes c"
  have cnt: "ch_cache_count h \<noteq> 0" "cfg_static_range_count c \<noteq> 0"
    using assms(1) by (auto simp: check_prune_action_def Let_def split: if_splits option.splits)
  have need: "?l < ?s \<or> \<not> ?l < ?s \<and> saturating_sub ?l ?s < 104857600"
    using assms(1) by (auto simp: check_prune_action_def Let_def split: if_splits option.splits)
  obtain r a where m: "min_by_age (ch_static_range_oldest h) = Some (r, a)"
    and plan: "plan = \<lparr>pp_static_range = r, pp_range_dir = cfg_cache_dir c @ [take 2 r, take 2 (drop 2 r)],
        pp_cutoff = prune_cutoff now a, pp_fast_delete = (?l < ?s)\<rparr>"
    using assms(1) by (auto simp: check_prune_action_def Let_def split: if_splits option.splits prod.splits)
  have "free_space c h < 104857600"
    using need by (auto simp: free_space_def word_less_nat_alt unat_saturating_sub)
  moreover have "unat a + 2592000000 < 2 ^ 64" using min_by_age_least [OF m] assms(2) by auto
  ultimately show ?thesis
    using cnt plan min_by_age_least [OF m] prune_cutoff_later [of a now] by (auto simp: word_gt_0)
qed

theorem prune_only_when_needed_witness:
  "check_prune_action 100 (sample_config\<lparr>cfg_static_range_count := 1\<rparr>) (sample_handler\<lparr>ch_cache_count := 1, ch_cache_size := 12\<rparr>)
     = Some (Prune \<lparr>pp_static_range = ''aabb'', pp_range_dir = [''cache'', ''aa'', ''bb''], pp_cutoff = 86400005, pp_fast_delete = True\<rparr>)
   \<and> free_space (sample_config\<lparr>cfg_static_range_count := 1\<rparr>) (sample_handler\<lparr>ch_cache_count := 1, ch_cache_size := 12\<rparr>) < 104857600"
proof -
  have e: "check_prune_action 100 (sample_config\<lparr>cfg_static_range_count := 1\<rparr>) (sample_handler\<lparr>ch_cache_count := 1, ch_cache_size := 12\<rparr>)
     = Some (Prune \<lparr>pp_static_range = ''aabb'', pp_range_dir = [''cache'', ''aa'', ''bb''], pp_cutoff = 86400005, pp_fast_delete = True\<rparr>)"
    by (simp add: check_prune_action_def sample_handler_def sample_config_def config_defaults_def sample_args_def
        get_cache_size_with_overhead_def cache_size_with_overhead_def prune_cutoff_def DAY_MS_def saturating_sub_def
        path_from_def starts_with_def)
  show ?thesis using prune_only_when_needed [OF e] e by (simp add: sample_handler_def)
qed

subsection \<open>Restarts\<close>

lemma clean_temp_keeps_pcache:
  assumes "starts_with ''pcache_'' (file_name p)"
  shows "fs_get (foldl (clean_temp_file os) f qs) p = fs_get f p"
proof (induction qs arbitrary: f)
  case (Cons q qs)
  have "fs_get (clean_temp_file os f q) p = fs_get f p"
    using assms by (auto simp: clean_temp_file_def Let_def remove_file_get)
  then show ?case using Cons by simp
qed simp

lemma try_load_cong:
  assumes "\<forall>p \<in> {info_path c, ages_path c, lru_path c}. fs_get f p = fs_get g p"
  shows "try_load os x f c = try_load os x g c"
proof -
  have r: "read_object os x f de (ages_path c) h = read_object os x g de (ages_path c) h"
    "read_object os x f de' (lru_path c) h = read_object os x g de' (lru_path c) h" for de de' h
    using assms by (simp_all add: read_object_def path_exists_def fs_read_def)
  have i: "read_string_file os f (info_path c) = read_string_file os g (info_path c)"
    "path_exists f (info_path c) = path_exists g (info_path c)"
    using assms by (simp_all add: read_string_file_def fs_read_def path_exists_def)
  have o: "load_objects os x f c i = load_objects os x g c i" for i
    unfolding load_objects_def r ..
  show ?thesis unfolding try_load_def i o ..
qed

lemma pcache_names: "starts_with ''pcache_'' (file_name (info_path c))"
  "starts_with ''pcache_'' (file_name (ages_path c))" "starts_with ''pcache_'' (file_name (lru_path c))"
  by (simp_all add: starts_with_def)

lemma restore_snapshot:
  assumes "length (lru_cache_table (ch_lru h)) = LRU_CACHE_SIZE"
  shows "restore_state (snapshot h) = \<lparr>ss_lru = ch_lru h, ss_cache_count = ch_cache_count h,
    ss_cache_size = ch_cache_size h, ss_static_range_oldest = ch_static_range_oldest h\<rparr>"
  using assms by (simp add: restore_state_def snapshot_def LruState_new_def)

text \<open>
  C10: a clean restart loses nothing: when \<^verbatim>\<open>save_persistent_data\<close> reports success, the next start with
  the same directories (no forced rescan), if it succeeds, has the same counters, static range ages
  and LRU table, and has removed the published snapshot, so that only another clean shutdown can
  publish one.
\<close>

theorem restart_preserves_state:
  assumes "save_persistent_data os x c (h, f) = (True, h', f')" "codec_ok x"
    and "length (lru_cache_table (ch_lru h)) = LRU_CACHE_SIZE"
    and "\<forall>p. \<not> os_denied os' Read p" "\<not> cfg_rescan_cache c'" "cfg_data_dir c' = cfg_data_dir c"
    and "CacheHandler_new os' x t c' stats f' = (Inr h2, cancelled, f2)"
  shows "ch_cache_count h2 = ch_cache_count h \<and> ch_cache_size h2 = ch_cache_size h
    \<and> ch_static_range_oldest h2 = ch_static_range_oldest h \<and> ch_lru h2 = ch_lru h
    \<and> try_load os' x f2 c' = None"
proof -
  let ?f1 = "foldl (clean_temp_file os') f' (list_sorted_files os' f' (cfg_temp_dir c'))"
  have "save os x f c (snapshot h) = (None, f')"
    using assms(1) by (auto simp: save_persistent_data_def split: if_splits prod.splits option.splits)
  then have "try_load os' x f' c = Some (snapshot h)" by (rule load_after_save [OF _ assms(2,4)])
  moreover have "try_load os' x f' c' = try_load os' x f' c"
    unfolding try_load_def load_objects_def assms(6) ..
  moreover have "try_load os' x ?f1 c' = try_load os' x f' c'"
    by (rule try_load_cong) (auto intro!: clean_temp_keeps_pcache pcache_names)
  ultimately have l: "try_load os' x ?f1 c' = Some (snapshot h)" by simp
  obtain f3 where cl: "clear os' ?f1 c' = (None, f3)"
    using assms(5,7) l
    by (cases "clear os' ?f1 c'") (auto simp: CacheHandler_new_def Let_def split: if_splits option.splits)
  then show ?thesis
    using assms(5,7) l load_after_clear [OF cl]
    by (auto simp: CacheHandler_new_def Let_def restore_snapshot [OF assms(3)] split: if_splits)
qed

definition fresh_codec :: codec where
  "fresh_codec = \<lparr>ser_ages = (\<lambda>a. if a = [(''aabb'', 5)] then Some ''A'' else None),
     de_ages = (\<lambda>d. if d = ''A'' then Some [(''aabb'', 5)] else None),
     ser_lru = (\<lambda>a. if a = lru_cache_table LruState_new then Some ''B'' else None),
     de_lru = (\<lambda>d. if d = ''B'' then Some (lru_cache_table LruState_new) else None),
     codec_sha1 = (\<lambda>s. map (\<lambda>ch. of_nat (char_code ch)) s)\<rparr>"

definition saved_fs :: fs where
  "saved_fs = snd (save sample_os fresh_codec sample_fs sample_config (snapshot sample_handler))"

lemma fresh_codec_ok: "codec_ok fresh_codec"
  by (simp add: codec_ok_def fresh_codec_def)

lemma saved_fs_ok: "save sample_os fresh_codec sample_fs sample_config (snapshot sample_handler) = (None, saved_fs)"
  by (simp add: saved_fs_def save_eval snapshot_def sample_handler_def fresh_codec_def)

lemma saved_fs_files:
  "\<exists>a b i. saved_fs = [([''data''], Dir), ([''data'', ''pcache_ages''], File a 1000),
     ([''data'', ''pcache_lru''], File b 1000), ([''data'', ''pcache_info''], File i 1000)]"
  by (simp add: saved_fs_def save_eval snapshot_def sample_handler_def fresh_codec_def)

theorem restart_preserves_state_witness:
  "\<exists>h2 b f2. CacheHandler_new sample_os fresh_codec 0 sample_config Stats_new saved_fs = (Inr h2, b, f2)
     \<and> ch_cache_count h2 = 0 \<and> ch_static_range_oldest h2 = [(''aabb'', 5)] \<and> try_load sample_os fresh_codec f2 sample_config = None"
proof -
  have l: "try_load sample_os fresh_codec saved_fs sample_config = Some (snapshot sample_handler)"
    by (rule load_after_save [OF saved_fs_ok fresh_codec_ok]) (simp add: sample_os_def)
  have d: "cfg_temp_dir sample_config = [''tmp'']" "cfg_cache_dir sample_config = [''cache'']"
    "\<not> cfg_rescan_cache sample_config" "cfg_static_range_count sample_config = 0"
    by (simp_all add: sample_config_def config_defaults_def sample_args_def path_from_def starts_with_def)
  obtain a b i where sf: "saved_fs = [([''data''], Dir), ([''data'', ''pcache_ages''], File a 1000),
     ([''data'', ''pcache_lru''], File b 1000), ([''data'', ''pcache_info''], File i 1000)]"
    using saved_fs_files by blast
  have os_free: "os_free_space sample_os [''cache''] = None" by (simp add: sample_os_def)
  have t: "list_sorted_files sample_os saved_fs [''tmp''] = []" "\<not> path_exists saved_fs [''cache'']"
    by (simp_all add: sf list_sorted_files_def is_dir_def path_exists_def)
  have "fst (clear sample_os saved_fs sample_config) = None"
    by (simp add: clear_def remove_if_exists_def fs_remove_file_def sample_data_dir sf sample_os_def)
  then obtain f3 where "clear sample_os saved_fs sample_config = (None, f3)"
    by (cases "clear sample_os saved_fs sample_config") simp
  then have "\<exists>h2 f2. CacheHandler_new sample_os fresh_codec 0 sample_config Stats_new saved_fs = (Inr h2, False, f2)"
    by (simp add: CacheHandler_new_def d t l Let_def os_free)
  then obtain h2 f2 where n: "CacheHandler_new sample_os fresh_codec 0 sample_config Stats_new saved_fs = (Inr h2, False, f2)"
    by blast
  have "save_persistent_data sample_os fresh_codec sample_config (sample_handler, sample_fs) = (True, sample_handler, saved_fs)"
    by (simp add: save_persistent_data_def saved_fs_ok) (simp add: sample_handler_def)
  from restart_preserves_state [OF this fresh_codec_ok _ _ _ refl n] show ?thesis
    using n d by (auto simp: sample_handler_def LruState_new_def sample_os_def)
qed

text \<open>
  after an accounting violation nothing is published: \<^verbatim>\<open>save_persistent_data\<close> reports failure,
  the handler stays invalid, and unless the system refuses to unlink, the next start rescans.
\<close>

theorem invalid_state_not_saved:
  assumes "ch_cache_loaded h" "\<not> ch_persistent_state_valid h"
  shows "\<exists>h' f'. save_persistent_data os x c (h, f) = (False, h', f') \<and> \<not> ch_persistent_state_valid h'
    \<and> (fst (clear os f c) = None \<longrightarrow> try_load os' x f' c = None)"
proof -
  have "try_load os' x (snd (clear os f c)) c = None" if "fst (clear os f c) = None"
    using that load_after_clear [of os f c "snd (clear os f c)"] by (metis prod.collapse)
  then show ?thesis using assms by (simp add: save_persistent_data_def discard_persistent_data_def)
qed

theorem invalid_state_not_saved_witness:
  "\<exists>h' f'. save_persistent_data sample_os sample_codec sample_config
       (invalidate_accounting sample_handler, sample_fs) = (False, h', f') \<and> \<not> ch_persistent_state_valid h'"
  using invalid_state_not_saved [of "invalidate_accounting sample_handler" sample_os sample_codec sample_config sample_fs sample_os]
  by (auto simp: sample_handler_def invalidate_accounting_def)

subsection \<open>Deletions from the blacklist\<close>

lemma delete_listed_step_frame:
  "fs_get f q = None \<Longrightarrow> fs_get (snd (snd (delete_file_from_cache os c fid (h, f)))) q = None"
  by (auto simp: delete_file_from_cache_def Let_def fs_remove_file_def split: option.splits sum.splits node.splits)

lemma delete_listed_frame:
  "fs_get f q = None \<Longrightarrow> fs_get (snd (delete_listed_files os c ids (h, f))) q = None"
proof (induction ids arbitrary: h f)
  case (Cons i ids)
  obtain h1 f1 where hf: "snd (delete_file_from_cache os c i (h, f)) = (h1, f1)" by force
  then have "fs_get f1 q = None" using delete_listed_step_frame [OF Cons.prems, of os c i h] by simp
  then show ?case using Cons.IH [of f1 h1] hf by (simp add: delete_listed_files_def)
qed (simp add: delete_listed_files_def)

text \<open>
  applying a blacklist removes every listed file: for each listed id that parses, afterwards
  nothing is left at its cache path, unless a directory stands there or the system refuses to unlink.
\<close>

theorem blacklist_removes:
  assumes "fid \<in> set ids" "from_fileid fid = Some hv" "\<not> os_denied os Unlink (cache_path (cfg_cache_dir c) hv)"
    and "\<not> is_dir f (cache_path (cfg_cache_dir c) hv)"
  shows "fs_get (snd (delete_listed_files os c ids (h, f))) (cache_path (cfg_cache_dir c) hv) = None"
  using assms(1,4)
proof (induction ids arbitrary: h f)
  case (Cons i ids)
  let ?p = "cache_path (cfg_cache_dir c) hv"
  obtain h1 f1 where hf: "snd (delete_file_from_cache os c i (h, f)) = (h1, f1)" by force
  have nd: "\<not> is_dir f1 ?p"
    using Cons.prems(2) hf
    by (auto simp: delete_file_from_cache_def Let_def fs_remove_file_def is_dir_def split: option.splits sum.splits node.splits if_splits)
  show ?case
  proof (cases "i = fid")
    case True
    then have "fs_get f1 ?p = None"
      using assms(2,3) Cons.prems(2) hf
      by (auto simp: delete_file_from_cache_def Let_def fs_remove_file_def is_dir_def path_exists_def
          split: option.splits sum.splits node.splits if_splits)
    then show ?thesis using hf delete_listed_frame [of f1 ?p os c ids h1] by (simp add: delete_listed_files_def)
  next
    case False
    then show ?thesis using Cons.IH [of f1 h1] Cons.prems nd hf by (simp add: delete_listed_files_def)
  qed
qed simp

theorem blacklist_removes_witness:
  "fs_get (snd (delete_listed_files sample_os sample_config [''junk'', sample_id] (sample_handler, cache_fs)))
     (cache_path (cfg_cache_dir sample_config) sample_file) = None"
proof (rule blacklist_removes [OF _ sample_file_parsed])
  show "\<not> is_dir cache_fs (cache_path (cfg_cache_dir sample_config) sample_file)"
    by (simp add: is_dir_def cache_fs_def cache_path_def sample_config_def config_defaults_def sample_args_def
        path_from_def starts_with_def)
qed (simp_all add: sample_os_def)

subsection \<open>Two inputs on which the handler panics\<close>

lemma cycle_out_of_range:
  assumes "LRU_CACHE_SIZE < unat (lru_clear_pointer l)"
  shows "cycle l = None"
proof -
  have "(of_nat LRU_CACHE_SIZE :: u64) < lru_clear_pointer l"
    using assms by (simp add: word_less_nat_alt lru_size_word)
  then show ?thesis by (simp add: cycle_def Let_def not_le)
qed

text \<open>
  the start-up does not check the stored clear pointer: a snapshot whose pointer lies beyond the
  table, with intact checksums, is restored, and the first cycle panics.
\<close>

theorem stored_pointer_unchecked:
  assumes "LRU_CACHE_SIZE < unat (ps_lru_clear_pointer ps)"
  shows "periodic_stats True (h\<lparr>ch_lru := ss_lru (restore_state ps)\<rparr>) = None"
proof -
  have "lru_clear_pointer (ss_lru (restore_state ps)) = ps_lru_clear_pointer ps"
    by (simp add: restore_state_def Let_def)
  then have "cycle (ss_lru (restore_state ps)) = None" using assms cycle_out_of_range by simp
  then show ?thesis by (simp add: periodic_stats_def)
qed

theorem stored_pointer_unchecked_witness:
  "periodic_stats True (sample_handler\<lparr>ch_lru := ss_lru (restore_state (sample_state\<lparr>ps_lru_clear_pointer := 1048577\<rparr>))\<rparr>) = None"
  by (rule stored_pointer_unchecked) (simp add: sample_state_def LRU_CACHE_SIZE_def)

end
