(* ===== verification/Hath_Pruner.thy ===== *)
theory Hath_Pruner
  imports Hath_Cache
begin

text \<open>
  The pruner task, \<^verbatim>\<open>src/src/cache/pruner.rs\<close>: one pass over the files of a range, and the body of the
  task's loop, once per second. \<open>poll k\<close> is whether the shutdown token is cancelled when it is looked
  at for the \<open>k\<close>-th time during a pass.
\<close>

datatype PruneExecution = Completed PruneResult | Interrupted

record prune_pass =
  pa_handler :: CacheHandler
  pa_fs :: fs
  pa_valid_files_deleted :: nat
  pa_oldest_last_modified :: u64
  pa_file_count :: nat

text \<open>The body of the loop for one entry, without the checks of the token.\<close>

definition prune_file :: "os \<Rightarrow> Config \<Rightarrow> PrunePlan \<Rightarrow> prune_pass \<Rightarrow> path \<Rightarrow> prune_pass" where
  "prune_file os c plan s p =
     (if \<not> is_file (pa_fs s) p then s
      else let last_modified = modified_millis os (pa_fs s) p;
               s1 = s\<lparr>pa_file_count := pa_file_count s + 1\<rparr> in
        if last_modified < pp_cutoff plan then
          (case from_fileid (file_name p) of
             Some hv \<Rightarrow>
               (case fs_remove_file os (pa_fs s1) p of
                  Inr f \<Rightarrow> s1\<lparr>pa_fs := f, pa_valid_files_deleted := pa_valid_files_deleted s1 + 1,
                              pa_handler := record_pruned_file c hv (pa_handler s1)\<rparr>
                | Inl _ \<Rightarrow> s1)
           | None \<Rightarrow> s1\<lparr>pa_fs := remove_file os (pa_fs s1) p\<rparr>)
        else s1\<lparr>pa_oldest_last_modified := min (pa_oldest_last_modified s1) last_modified\<rparr>)"

text \<open>After a deletion the pass sleeps, and cancellation ends the sleep.\<close>

definition sleeps_after :: "os \<Rightarrow> PrunePlan \<Rightarrow> fs \<Rightarrow> path \<Rightarrow> bool" where
  "sleeps_after os plan f p \<longleftrightarrow> is_file f p \<and> modified_millis os f p < pp_cutoff plan"

fun prune_files :: "os \<Rightarrow> Config \<Rightarrow> PrunePlan \<Rightarrow> (nat \<Rightarrow> bool) \<Rightarrow> nat \<Rightarrow> path list \<Rightarrow> prune_pass \<Rightarrow> bool \<times> prune_pass" where
  "prune_files os c plan poll k [] s = (True, s)"
| "prune_files os c plan poll k (p # ps) s =
     (if poll k then (False, s)
      else let s1 = prune_file os c plan s p in
        if sleeps_after os plan (pa_fs s) p \<and> poll (k + 1) then (False, s1)
        else prune_files os c plan poll (k + 2) ps s1)"

definition pass_init :: "CacheHandler \<Rightarrow> fs \<Rightarrow> prune_pass" where
  "pass_init h f = \<lparr>pa_handler = h, pa_fs = f, pa_valid_files_deleted = 0, pa_oldest_last_modified = - 1,
     pa_file_count = 0\<rparr>"

definition execute_prune ::
  "os \<Rightarrow> Config \<Rightarrow> PrunePlan \<Rightarrow> (nat \<Rightarrow> bool) \<Rightarrow> CacheHandler \<times> fs \<Rightarrow> PruneExecution \<times> CacheHandler \<times> fs" where
  "execute_prune os c plan poll hf =
     (case hf of (h, f) \<Rightarrow>
        case prune_files os c plan poll 0 (list_sorted_files os f (pp_range_dir plan)) (pass_init h f) of
          (False, s) \<Rightarrow> (Interrupted, pa_handler s, pa_fs s)
        | (True, s) \<Rightarrow>
            (Completed \<lparr>pr_static_range = pp_static_range plan, pr_range_dir = pp_range_dir plan,
               pr_file_count = pa_file_count s - pa_valid_files_deleted s,
               pr_oldest_last_modified =
                 (if pa_oldest_last_modified s = - 1 then os_now_ms os else pa_oldest_last_modified s)\<rparr>,
             pa_handler s, pa_fs s))"

subsection \<open>The task\<close>

record pruner_state =
  pn_handler :: CacheHandler
  pn_fs :: fs
  pn_check_frequency :: u32
  pn_cache_check_ticks :: u32
  pn_disk_check_ticks :: u32
  pn_shutdown_failure :: "HathError option"

datatype tick = Continue pruner_state | Exit pruner_state | Panic

definition pruner_new :: "CacheHandler \<Rightarrow> fs \<Rightarrow> pruner_state" where
  "pruner_new h f = \<lparr>pn_handler = h, pn_fs = f, pn_check_frequency = 60, pn_cache_check_ticks = 0,
     pn_disk_check_ticks = 0, pn_shutdown_failure = None\<rparr>"

text \<open>Phase 1: the action, and the counter of ticks since the last check.\<close>

definition pruner_action :: "os \<Rightarrow> Config \<Rightarrow> pruner_state \<Rightarrow> PruneAction option \<times> u32" where
  "pruner_action os c s =
     (if cfg_disklimit_bytes c < get_cache_size_with_overhead c (pn_handler s)
      then (check_prune_action (os_now_ms os) c (pn_handler s), pn_cache_check_ticks s)
      else if pn_cache_check_ticks s < pn_check_frequency s
      then (Some (NoPrune (pn_check_frequency s)), pn_cache_check_ticks s + 1)
      else (check_prune_action (os_now_ms os) c (pn_handler s), 0))"

text \<open>The periodic check of the free disk space, every three hundred ticks.\<close>

definition disk_check :: "os \<Rightarrow> Config \<Rightarrow> pruner_state \<Rightarrow> tick" where
  "disk_check os c s0 =
     (let s = s0\<lparr>pn_disk_check_ticks := pn_disk_check_ticks s0 + 1\<rparr> in
      if 300 \<le> pn_disk_check_ticks s then
        (if \<not> cfg_skip_free_space_check c
            \<and> (case os_free_space os (cfg_cache_dir c) of
                 None \<Rightarrow> False | Some free \<Rightarrow> free < max (cfg_diskremaining_bytes c) 104857600)
         then Exit (s\<lparr>pn_shutdown_failure := Some (Fatal ''insufficient free cache disk space'')\<rparr>)
         else Continue (s\<lparr>pn_disk_check_ticks := 0\<rparr>))
      else Continue s)"

text \<open>One round of the loop, after its sleep; \<open>cancelled\<close> is the token after a completed pass.\<close>

definition pruner_tick :: "os \<Rightarrow> Config \<Rightarrow> (nat \<Rightarrow> bool) \<Rightarrow> bool \<Rightarrow> pruner_state \<Rightarrow> tick" where
  "pruner_tick os c poll cancelled s =
     (case pruner_action os c s of
        (None, _) \<Rightarrow> Panic
      | (Some (NoPrune freq), t) \<Rightarrow>
          disk_check os c (s\<lparr>pn_cache_check_ticks := t, pn_check_frequency := freq\<rparr>)
      | (Some (Prune plan), t) \<Rightarrow>
          (case execute_prune os c plan poll (pn_handler s, pn_fs s) of
             (Interrupted, h, f) \<Rightarrow> Exit (s\<lparr>pn_cache_check_ticks := t, pn_handler := h, pn_fs := f\<rparr>)
           | (Completed r, h, f) \<Rightarrow>
               if cancelled then Exit (s\<lparr>pn_cache_check_ticks := t, pn_handler := h, pn_fs := f\<rparr>)
               else (case apply_prune_result os r (h, f) of
                   (h1, f1) \<Rightarrow> disk_check os c (s\<lparr>pn_cache_check_ticks := t, pn_check_frequency := 0,
                                 pn_handler := h1, pn_fs := f1\<rparr>))))"

subsection \<open>A pass as a scan\<close>

text \<open>What an entry contributes to the pass.\<close>

definition prune_item :: "os \<Rightarrow> fs \<Rightarrow> path \<Rightarrow> (HVFile option \<times> u64 \<times> bool) list" where
  "prune_item os f p =
     (if is_file f p then [(from_fileid (file_name p), modified_millis os f p, \<not> os_denied os Unlink p)] else [])"

definition add_pruned :: "Config \<Rightarrow> PrunePlan \<Rightarrow> CacheHandler \<times> nat \<times> u64 \<times> nat
    \<Rightarrow> HVFile option \<times> u64 \<times> bool \<Rightarrow> CacheHandler \<times> nat \<times> u64 \<times> nat" where
  "add_pruned c plan v i =
     (case v of (h, del, old, cnt) \<Rightarrow> (case i of (hvo, m, removable) \<Rightarrow>
        if m < pp_cutoff plan then
          (case hvo of
             Some hv \<Rightarrow> if removable then (record_pruned_file c hv h, del + 1, old, cnt + 1) else (h, del, old, cnt + 1)
           | None \<Rightarrow> (h, del, old, cnt + 1))
        else (h, del, min old m, cnt + 1)))"

definition pass_val :: "prune_pass \<Rightarrow> CacheHandler \<times> nat \<times> u64 \<times> nat" where
  "pass_val s = (pa_handler s, pa_valid_files_deleted s, pa_oldest_last_modified s, pa_file_count s)"

lemma prune_file_frame: "q \<noteq> p \<Longrightarrow> fs_get (pa_fs (prune_file os c plan s p)) q = fs_get (pa_fs s) q"
  by (auto simp: prune_file_def Let_def remove_file_get fs_remove_file_def split: option.splits sum.splits node.splits)

lemma fs_remove_file_of_file:
  "is_file f p \<Longrightarrow> fs_remove_file os f p = (if os_denied os Unlink p then Inl OtherIo else Inr (AList.delete p f))"
  by (auto simp: fs_remove_file_def is_file_def split: option.splits node.splits)

interpretation prune_scan: region_scan "prune_file os c plan" pa_fs pass_val "add_pruned c plan" "prune_item os"
  "\<lambda>p q. q = p" "\<lambda>_. True" for os c plan
proof
  fix d p :: path and s
  assume "p \<noteq> d"
  then show "fs_get (pa_fs (prune_file os c plan s d)) p = fs_get (pa_fs s) p" by (rule prune_file_frame)
next
  fix d s
  show "pass_val (prune_file os c plan s d) = foldl (add_pruned c plan) (pass_val s) (prune_item os (pa_fs s) d)"
    by (auto simp: prune_file_def Let_def prune_item_def pass_val_def add_pruned_def fs_remove_file_of_file
        split: option.splits)
next
  fix d f g
  assume "same_on (\<lambda>q. q = d) f g"
  then show "prune_item os f d = prune_item os g d"
    by (simp add: prune_item_def same_on_def is_file_def modified_millis_def)
qed auto

lemma prune_files_prefix:
  "\<exists>n. snd (prune_files os c plan poll k ps s) = foldl (prune_file os c plan) s (take n ps)
     \<and> (fst (prune_files os c plan poll k ps s) \<longrightarrow> n = length ps)"
proof (induction ps arbitrary: k s)
  case (Cons p ps)
  let ?s1 = "prune_file os c plan s p"
  consider "poll k" | "\<not> poll k" "sleeps_after os plan (pa_fs s) p \<and> poll (k + 1)"
    | "\<not> poll k" "\<not> (sleeps_after os plan (pa_fs s) p \<and> poll (k + 1))" by blast
  then show ?case
  proof cases
    case 1
    then show ?thesis by (intro exI [of _ 0]) simp
  next
    case 2
    then show ?thesis by (intro exI [of _ 1]) (simp add: Let_def)
  next
    case 3
    obtain n where "snd (prune_files os c plan poll (k + 2) ps ?s1) = foldl (prune_file os c plan) ?s1 (take n ps)"
      "fst (prune_files os c plan poll (k + 2) ps ?s1) \<longrightarrow> n = length ps" using Cons.IH by blast
    then show ?thesis using 3 by (intro exI [of _ "Suc n"]) (auto simp: Let_def)
  qed
qed simp

text \<open>What a pass may have done to the tree, at any point.\<close>

lemma prune_fold_tree:
  "fs_get (pa_fs (foldl (prune_file os c plan) s ps)) q = fs_get (pa_fs s) q
   \<or> (fs_get (pa_fs (foldl (prune_file os c plan) s ps)) q = None \<and> q \<in> set ps \<and> is_file (pa_fs s) q
       \<and> modified_millis os (pa_fs s) q < pp_cutoff plan)"
proof (induction ps arbitrary: s)
  case (Cons p ps)
  let ?s1 = "prune_file os c plan s p"
  have step: "fs_get (pa_fs ?s1) q = fs_get (pa_fs s) q
     \<or> (fs_get (pa_fs ?s1) q = None \<and> q = p \<and> is_file (pa_fs s) q \<and> modified_millis os (pa_fs s) q < pp_cutoff plan)"
    by (auto simp: prune_file_def Let_def remove_file_get fs_remove_file_of_file split: option.splits)
  show ?case
  proof (cases "fs_get (pa_fs ?s1) q = fs_get (pa_fs s) q")
    case True
    then have "is_file (pa_fs ?s1) q = is_file (pa_fs s) q" "modified_millis os (pa_fs ?s1) q = modified_millis os (pa_fs s) q"
      by (simp_all add: is_file_def modified_millis_def)
    then show ?thesis using Cons.IH [of ?s1] True by auto
  next
    case False
    then have "fs_get (pa_fs ?s1) q = None" "\<not> is_file (pa_fs ?s1) q" using step by (auto simp: is_file_def)
    then show ?thesis using Cons.IH [of ?s1] step False by auto
  qed
qed simp

definition victims :: "PrunePlan \<Rightarrow> (HVFile option \<times> u64 \<times> bool) list \<Rightarrow> HVFile list" where
  "victims plan is = [hv. (Some hv, m, removable) \<leftarrow> is, removable \<and> m < pp_cutoff plan]"

lemma victims_Cons:
  "victims plan ((hvo, t, r) # is) =
     (case hvo of Some hv \<Rightarrow> if r \<and> t < pp_cutoff plan then [hv] else [] | None \<Rightarrow> []) @ victims plan is"
  by (auto simp: victims_def split: option.split)

lemma victims_Nil [simp]: "victims plan [] = []"
  by (simp add: victims_def)

lemma add_pruned_step:
  "add_pruned c plan (h, d, m, n) (hvo, t, r) =
     (foldl (\<lambda>h hv. record_pruned_file c hv h) h (victims plan [(hvo, t, r)]), d + length (victims plan [(hvo, t, r)]),
      if t < pp_cutoff plan then m else min m t, n + 1)"
  by (auto simp: add_pruned_def victims_Cons split: option.split)

lemma add_pruned_fold:
  "foldl (add_pruned c plan) (h, d, m, n) is =
     (foldl (\<lambda>h hv. record_pruned_file c hv h) h (victims plan is), d + length (victims plan is),
      foldl min m (filter (\<lambda>t. \<not> t < pp_cutoff plan) (map (fst \<circ> snd) is)), n + length is)"
proof (induction "is" arbitrary: h d m n)
  case (Cons i "is")
  obtain hvo t r where i: "i = (hvo, t, r)" by (cases i) auto
  have "victims plan (i # is) = victims plan [i] @ victims plan is" by (simp add: i victims_Cons)
  then show ?case using Cons.IH by (simp add: i add_pruned_step)
qed simp

definition pass_items :: "os \<Rightarrow> PrunePlan \<Rightarrow> fs \<Rightarrow> (HVFile option \<times> u64 \<times> bool) list" where
  "pass_items os plan f = concat (map (prune_item os f) (list_sorted_files os f (pp_range_dir plan)))"

lemma execute_prune_completed:
  assumes "execute_prune os c plan poll (h, f) = (Completed r, h', f')"
  defines "s \<equiv> foldl (prune_file os c plan) (pass_init h f) (list_sorted_files os f (pp_range_dir plan))"
  shows "h' = pa_handler s \<and> f' = pa_fs s \<and> pr_file_count r = pa_file_count s - pa_valid_files_deleted s
    \<and> pr_static_range r = pp_static_range plan \<and> pr_range_dir r = pp_range_dir plan"
proof -
  let ?r = "prune_files os c plan poll 0 (list_sorted_files os f (pp_range_dir plan)) (pass_init h f)"
  obtain n where n: "snd ?r = foldl (prune_file os c plan) (pass_init h f) (take n (list_sorted_files os f (pp_range_dir plan)))"
    "fst ?r \<longrightarrow> n = length (list_sorted_files os f (pp_range_dir plan))"
    using prune_files_prefix by blast
  have "fst ?r" using assms(1) by (auto simp: execute_prune_def split: prod.splits bool.splits)
  then have "?r = (True, s)" using n by (cases ?r) (simp add: s_def)
  then show ?thesis using assms(1) by (auto simp: execute_prune_def)
qed

subsection \<open>Properties\<close>

text \<open>
  C34: pruning touches nothing it should not: whether a pass completes or is interrupted, every path
  is as before, except regular files directly in the planned range directory whose modification
  time is before the cutoff, which may be gone.
\<close>

theorem prune_deletes_only_old:
  "fs_get (snd (snd (execute_prune os c plan poll (h, f)))) q = fs_get f q
   \<or> (fs_get (snd (snd (execute_prune os c plan poll (h, f)))) q = None \<and> is_file f q
      \<and> parent q = pp_range_dir plan \<and> modified_millis os f q < pp_cutoff plan)"
proof -
  let ?ps = "list_sorted_files os f (pp_range_dir plan)"
  obtain n where n: "snd (prune_files os c plan poll 0 ?ps (pass_init h f)) = foldl (prune_file os c plan) (pass_init h f) (take n ?ps)"
    using prune_files_prefix by blast
  have "snd (snd (execute_prune os c plan poll (h, f))) = pa_fs (foldl (prune_file os c plan) (pass_init h f) (take n ?ps))"
    unfolding execute_prune_def n [symmetric] by (simp split: prod.split bool.split)
  then show ?thesis
    using prune_fold_tree [of os c plan "pass_init h f" "take n ?ps" q] list_sorted_mem [of q os f "pp_range_dir plan"]
    by (auto simp: pass_init_def dest: in_set_takeD)
qed


definition odd_fs :: fs where
  "odd_fs = [([''cache''], Dir), ([''cache'', ''a''], Dir), ([''cache'', ''a'', ''b''], Dir),
     ([''cache'', ''a'', ''b'', sample_id], File ''0123456789ab'' 7)]"

definition sample_plan :: PrunePlan where
  "sample_plan = \<lparr>pp_static_range = ''aabb'', pp_range_dir = [''cache'', ''a'', ''b''], pp_cutoff = 100, pp_fast_delete = False\<rparr>"

lemma odd_fs_listing: "list_sorted_files sample_os odd_fs [''cache'', ''a'', ''b''] = [[''cache'', ''a'', ''b'', sample_id]]"
  by (simp add: list_sorted_files_def odd_fs_def sample_os_def is_dir_def children_def parent_def)

lemma odd_fs_is_file: "is_file odd_fs [''cache'', ''a'', ''b'', sample_id]"
  by (simp add: is_file_def odd_fs_def)

lemma odd_fs_modified: "modified_millis sample_os odd_fs [''cache'', ''a'', ''b'', sample_id] = 7"
  by (simp add: modified_millis_def odd_fs_def sample_os_def)


subsection \<open>Ranges\<close>

definition ranges_ok :: "CacheHandler \<Rightarrow> bool" where
  "ranges_ok h \<longleftrightarrow> (\<forall>(r, a) \<in> set (ch_static_range_oldest h). length r = 4)"

lemma ranges_ok_update:
  "ranges_ok h \<Longrightarrow> length r = 4 \<Longrightarrow> ranges_ok (h\<lparr>ch_static_range_oldest := AList.update r a (ch_static_range_oldest h)\<rparr>)"
  by (auto simp: ranges_ok_def dest!: update_key_mem)

lemma ranges_ok_delete:
  "ranges_ok h \<Longrightarrow> ranges_ok (h\<lparr>ch_static_range_oldest := AList.delete r (ch_static_range_oldest h)\<rparr>)"
  using delete_notin_dom [of r] set_mp [OF filter_is_subset] by (auto simp: ranges_ok_def AList.delete_eq)

lemma account_ages [simp]:
  "ch_static_range_oldest (account_file_removed c hv h) = ch_static_range_oldest h"
  "ch_static_range_oldest (account_file_added c hv h) = ch_static_range_oldest h"
  by (auto simp: account_file_removed_def account_file_added_def invalidate_accounting_def update_cache_stats_def split: option.splits)

lemma prune_fold_ages:
  "ch_static_range_oldest (pa_handler (foldl (prune_file os c plan) s ps)) = ch_static_range_oldest (pa_handler s)"
  by (induction ps arbitrary: s)
    (auto simp: prune_file_def Let_def record_pruned_file_def split: option.splits sum.splits)

lemma execute_prune_ages:
  "ch_static_range_oldest (fst (snd (execute_prune os c plan poll (h, f)))) = ch_static_range_oldest h"
proof -
  let ?ps = "list_sorted_files os f (pp_range_dir plan)"
  obtain n where n: "snd (prune_files os c plan poll 0 ?ps (pass_init h f)) = foldl (prune_file os c plan) (pass_init h f) (take n ?ps)"
    using prune_files_prefix by blast
  have "fst (snd (execute_prune os c plan poll (h, f))) = pa_handler (foldl (prune_file os c plan) (pass_init h f) (take n ?ps))"
    unfolding execute_prune_def n [symmetric] by (simp split: prod.split bool.split)
  then show ?thesis by (simp add: prune_fold_ages pass_init_def)
qed

lemma check_prune_range:
  "check_prune_action now c h = Some (Prune plan) \<Longrightarrow> \<exists>a. (pp_static_range plan, a) \<in> set (ch_static_range_oldest h)"
proof -
  assume "check_prune_action now c h = Some (Prune plan)"
  then obtain r a where "min_by_age (ch_static_range_oldest h) = Some (r, a)" "pp_static_range plan = r"
    by (auto simp: check_prune_action_def Let_def split: if_splits option.splits prod.splits)
  then show ?thesis using min_by_age_least by blast
qed

lemma check_prune_total: "ranges_ok h \<Longrightarrow> check_prune_action now c h \<noteq> None"
  by (auto simp: check_prune_action_def Let_def ranges_ok_def dest!: min_by_age_least split: option.splits)

definition tick_ok :: "tick \<Rightarrow> bool" where
  "tick_ok t = (case t of Continue s \<Rightarrow> ranges_ok (pn_handler s) | Exit s \<Rightarrow> ranges_ok (pn_handler s) | Panic \<Rightarrow> False)"

lemma disk_check_ok: "ranges_ok (pn_handler s) \<Longrightarrow> tick_ok (disk_check os c s)"
  by (simp add: disk_check_def Let_def tick_ok_def)

text \<open>
  the pruner's loop body never panics while every known range has four characters, and it keeps
  it that way, through deletions, interruptions and updates of the ages.
\<close>

theorem pruner_tick_safe:
  assumes "ranges_ok (pn_handler s)"
  shows "tick_ok (pruner_tick os c poll cancelled s)"
proof -
  obtain a t where a: "pruner_action os c s = (a, t)" by force
  have "a \<noteq> None" using a check_prune_total [OF assms] by (auto simp: pruner_action_def split: if_splits)
  then obtain act where act: "a = Some act" by blast
  show ?thesis
  proof (cases act)
    case (NoPrune q)
    then show ?thesis using a act assms by (simp add: pruner_tick_def disk_check_ok)
  next
    case (Prune plan)
    then have "check_prune_action (os_now_ms os) c (pn_handler s) = Some (Prune plan)"
      using a act by (auto simp: pruner_action_def split: if_splits)
    then have len: "length (pp_static_range plan) = 4" using check_prune_range assms by (fastforce simp: ranges_ok_def)
    obtain ex h f where e: "execute_prune os c plan poll (pn_handler s, pn_fs s) = (ex, h, f)" by (metis prod_cases3)
    have h: "ranges_ok h"
      using execute_prune_ages [of os c plan poll "pn_handler s" "pn_fs s"] e assms by (simp add: ranges_ok_def)
    show ?thesis
    proof (cases ex)
      case Interrupted
      then show ?thesis using a act Prune e h by (simp add: pruner_tick_def tick_ok_def)
    next
      case (Completed r)
      then have "pr_static_range r = pp_static_range plan" using execute_prune_completed e by blast
      then have "ranges_ok (fst (apply_prune_result os r (h, f)))"
        using h len by (auto simp: apply_prune_result_def intro: ranges_ok_update ranges_ok_delete)
      then show ?thesis using a act Prune e h Completed
        by (cases "apply_prune_result os r (h, f)"; cases cancelled)
          (auto simp: pruner_tick_def disk_check_ok, auto simp: tick_ok_def)
    qed
  qed
qed

theorem pruner_tick_safe_witness:
  "tick_ok (pruner_tick sample_os sample_config (\<lambda>_. False) False (pruner_new sample_handler odd_fs))"
  by (rule pruner_tick_safe) (simp add: pruner_new_def ranges_ok_def sample_handler_def)


end
