(* ===== verification/Hath_Hpcache.thy ===== *)
theory Hath_Hpcache
  imports Hath_Lru
begin

text \<open>
  The HPCACHE/1 stream of the migration tool, \<^verbatim>\<open>src/crates/pcache-migrate/src/protocol.rs\<close>: little
  endian fields behind a magic number, closed by the SHA-256 digest of everything before it. SHA-256
  is the parameter \<open>sha256\<close>. A reader is the unread input with the bytes the digest has seen.
\<close>

definition MAGIC :: bytes where
  "MAGIC = map (\<lambda>ch. of_nat (char_code ch)) ''HATHPC01''"

definition VERSION :: u16 where
  "VERSION = 1"

definition MAX_STATIC_RANGES :: u32 where
  "MAX_STATIC_RANGES = 65536"

record LegacyCacheState =
  lc_cache_count :: u32
  lc_cache_size :: u64
  lc_lru_clear_pointer :: nat
  lc_static_range_ages :: "(string \<times> u64) list"
  lc_lru_cache_table :: "u16 list"

datatype ProtocolError =
    Protocol_Io
  | Magic
  | Version u16
  | InvalidValue string nat
  | InvalidRange bytes
  | DuplicateRange string
  | DigestMismatch
  | TrailingData

subsection \<open>Little endian numbers\<close>

fun to_le :: "nat \<Rightarrow> nat \<Rightarrow> bytes" where
  "to_le 0 k = []"
| "to_le (Suc n) k = of_nat (k mod 256) # to_le n (k div 256)"

fun from_le :: "bytes \<Rightarrow> nat" where
  "from_le [] = 0"
| "from_le (b # bs) = unat b + 256 * from_le bs"

subsection \<open>The reader\<close>

type_synonym reader = "bytes \<times> bytes"

definition and_then :: "'e + 'a \<Rightarrow> ('a \<Rightarrow> 'e + 'b) \<Rightarrow> 'e + 'b" where
  "and_then m f = (case m of Inl e \<Rightarrow> Inl e | Inr x \<Rightarrow> f x)"

definition read_exact :: "nat \<Rightarrow> reader \<Rightarrow> ProtocolError + bytes \<times> reader" where
  "read_exact n r =
     (case r of (input, digest) \<Rightarrow>
        if length input < n then Inl Protocol_Io
        else Inr (take n input, drop n input, digest @ take n input))"

definition read_u16 :: "reader \<Rightarrow> ProtocolError + u16 \<times> reader" where
  "read_u16 r = and_then (read_exact 2 r) (\<lambda>(bs, r1). Inr (of_nat (from_le bs), r1))"

definition read_u32 :: "reader \<Rightarrow> ProtocolError + u32 \<times> reader" where
  "read_u32 r = and_then (read_exact 4 r) (\<lambda>(bs, r1). Inr (of_nat (from_le bs), r1))"

definition read_u64 :: "reader \<Rightarrow> ProtocolError + u64 \<times> reader" where
  "read_u64 r = and_then (read_exact 8 r) (\<lambda>(bs, r1). Inr (of_nat (from_le bs), r1))"

text \<open>A field repeated a fixed number of times.\<close>

primrec read_many :: "(reader \<Rightarrow> ProtocolError + 'a \<times> reader) \<Rightarrow> nat \<Rightarrow> reader \<Rightarrow> ProtocolError + 'a list \<times> reader" where
  "read_many rd 0 r = Inr ([], r)"
| "read_many rd (Suc n) r =
     and_then (rd r) (\<lambda>(x, r1). and_then (read_many rd n r1) (\<lambda>(xs, r2). Inr (x # xs, r2)))"

definition byte_char :: "u8 \<Rightarrow> char" where
  "byte_char b = char_of (unat b)"

definition read_range :: "reader \<Rightarrow> ProtocolError + (string \<times> u64) \<times> reader" where
  "read_range r =
     and_then (read_u16 r) (\<lambda>(range_length, r1).
       if range_length \<noteq> 4 then Inl (InvalidValue ''static range length'' (unat range_length))
       else and_then (read_exact 4 r1) (\<lambda>(range_bytes, r2).
         if \<not> list_all is_lower_hex (map byte_char range_bytes) then Inl (InvalidRange range_bytes)
         else and_then (read_u64 r2) (\<lambda>(oldest_modified_ms, r3).
           Inr ((map byte_char range_bytes, oldest_modified_ms), r3))))"

primrec read_ranges :: "nat \<Rightarrow> (string \<times> u64) list \<Rightarrow> reader \<Rightarrow> ProtocolError + (string \<times> u64) list \<times> reader" where
  "read_ranges 0 ages r = Inr (ages, r)"
| "read_ranges (Suc n) ages r =
     and_then (read_range r) (\<lambda>((range, oldest), r1).
       if map_of ages range \<noteq> None then Inl (DuplicateRange range)
       else read_ranges n (AList.update range oldest ages) r1)"

text \<open>The trailer: the digest, then nothing.\<close>

definition read_trailer :: "(bytes \<Rightarrow> bytes) \<Rightarrow> reader \<Rightarrow> ProtocolError + unit" where
  "read_trailer sha256 r =
     (case r of (input, digest) \<Rightarrow>
        if length input < 32 then Inl Protocol_Io
        else if take 32 input \<noteq> sha256 digest then Inl DigestMismatch
        else if drop 32 input \<noteq> [] then Inl TrailingData
        else Inr ())"

definition read_hpcache :: "(bytes \<Rightarrow> bytes) \<Rightarrow> bytes \<Rightarrow> ProtocolError + LegacyCacheState" where
  "read_hpcache sha256 input =
     and_then (read_exact (length MAGIC) (input, [])) (\<lambda>(magic, r0).
     if magic \<noteq> MAGIC then Inl Magic
     else and_then (read_u16 r0) (\<lambda>(version, r1).
     if version \<noteq> VERSION then Inl (Version version)
     else and_then (read_u32 r1) (\<lambda>(cache_count, r2).
     and_then (read_u64 r2) (\<lambda>(cache_size, r3).
     and_then (read_u32 r3) (\<lambda>(pointer, r4).
     if LRU_CACHE_SIZE \<le> unat pointer then Inl (InvalidValue ''lru_clear_pointer'' (unat pointer))
     else and_then (read_u32 r4) (\<lambda>(range_count, r5).
     if MAX_STATIC_RANGES < range_count then Inl (InvalidValue ''static_range_count'' (unat range_count))
     else and_then (read_ranges (unat range_count) [] r5) (\<lambda>(ages, r6).
     and_then (read_u32 r6) (\<lambda>(lru_length, r7).
     if unat lru_length \<noteq> LRU_CACHE_SIZE then Inl (InvalidValue ''lru_length'' (unat lru_length))
     else and_then (read_many read_u16 LRU_CACHE_SIZE r7) (\<lambda>(table, r8).
     and_then (read_trailer sha256 r8) (\<lambda>_.
       Inr \<lparr>lc_cache_count = cache_count, lc_cache_size = cache_size, lc_lru_clear_pointer = unat pointer,
            lc_static_range_ages = ages, lc_lru_cache_table = table\<rparr>))))))))))"

subsection \<open>The encoder\<close>

definition enc_range :: "string \<times> u64 \<Rightarrow> bytes" where
  "enc_range e = to_le 2 (length (fst e)) @ map (\<lambda>ch. of_nat (char_code ch)) (fst e) @ to_le 8 (unat (snd e))"

definition hpcache_payload :: "LegacyCacheState \<Rightarrow> bytes" where
  "hpcache_payload st =
     MAGIC @ to_le 2 (unat VERSION) @ to_le 4 (unat (lc_cache_count st)) @ to_le 8 (unat (lc_cache_size st))
     @ to_le 4 (lc_lru_clear_pointer st) @ to_le 4 (length (lc_static_range_ages st))
     @ concat (map enc_range (lc_static_range_ages st))
     @ to_le 4 (length (lc_lru_cache_table st)) @ concat (map (\<lambda>v. to_le 2 (unat v)) (lc_lru_cache_table st))"

definition encode_hpcache :: "(bytes \<Rightarrow> bytes) \<Rightarrow> LegacyCacheState \<Rightarrow> bytes" where
  "encode_hpcache sha256 st = hpcache_payload st @ sha256 (hpcache_payload st)"

subsection \<open>Fields and their encodings\<close>

text \<open>
  A field of the stream: reading succeeds exactly on the encoding of an acceptable value, consumes
  that encoding and nothing more, and hands it to the digest. Repetition of a field is a field.
\<close>

locale stream_field =
  fixes rd :: "reader \<Rightarrow> ProtocolError + 'a \<times> reader"
    and enc :: "'a \<Rightarrow> bytes"
    and ok :: "'a \<Rightarrow> bool"
  assumes rd_iff: "rd (input, dg) = Inr (x, input', dg') \<longleftrightarrow> ok x \<and> input = enc x @ input' \<and> dg' = dg @ enc x"
begin

lemma many_iff:
  "read_many rd n (input, dg) = Inr (xs, input', dg') \<longleftrightarrow>
     length xs = n \<and> list_all ok xs \<and> input = concat (map enc xs) @ input' \<and> dg' = dg @ concat (map enc xs)"
proof (induction n arbitrary: input dg xs)
  case 0
  then show ?case by auto
next
  case (Suc n)
  show ?case
  proof
    assume "read_many rd (Suc n) (input, dg) = Inr (xs, input', dg')"
    then obtain x i1 d1 ys where x: "rd (input, dg) = Inr (x, i1, d1)" "read_many rd n (i1, d1) = Inr (ys, input', dg')" "xs = x # ys"
      by (auto simp: and_then_def split: sum.splits prod.splits)
    then show "length xs = Suc n \<and> list_all ok xs \<and> input = concat (map enc xs) @ input' \<and> dg' = dg @ concat (map enc xs)"
      using rd_iff [of input dg x i1 d1] Suc.IH [of i1 d1 ys] by simp
  next
    assume a: "length xs = Suc n \<and> list_all ok xs \<and> input = concat (map enc xs) @ input' \<and> dg' = dg @ concat (map enc xs)"
    then obtain y ys where xs: "xs = y # ys" by (cases xs) auto
    have "rd (input, dg) = Inr (y, concat (map enc ys) @ input', dg @ enc y)" using a xs rd_iff by simp
    moreover have "read_many rd n (concat (map enc ys) @ input', dg @ enc y) = Inr (ys, input', dg')"
      using a xs Suc.IH by simp
    ultimately show "read_many rd (Suc n) (input, dg) = Inr (xs, input', dg')" using xs by (simp add: and_then_def)
  qed
qed

end

lemma and_then_Inr: "and_then m f = Inr y \<longleftrightarrow> (\<exists>x. m = Inr x \<and> f x = Inr y)"
  by (auto simp: and_then_def split: sum.splits)

lemma to_le_length [simp]: "length (to_le n k) = n"
  by (induction n k rule: to_le.induct) auto

lemma from_le_to_le: "from_le (to_le n k) = k mod 256 ^ n"
proof (induction n k rule: to_le.induct)
  case (2 n k)
  have "unat (of_nat (k mod 256) :: u8) = k mod 256" by (simp add: unat_of_nat take_bit_nat_eq_self)
  then show ?case using 2 by (simp add: mod_mult2_eq)
qed simp

lemma from_le_less: "from_le bs < 256 ^ length bs"
proof (induction bs)
  case (Cons b bs)
  have "unat b < 256" by (rule unat_u8)
  then have "unat b + 256 * from_le bs < 256 * (from_le bs + 1)" by simp
  also have "\<dots> \<le> 256 * 256 ^ length bs" using Cons by (intro mult_le_mono2) simp
  finally show ?case by simp
qed simp

lemma to_le_from_le: "to_le (length bs) (from_le bs) = bs"
proof (induction bs)
  case (Cons b bs)
  have b: "unat b < 256" by (rule unat_u8)
  then have "(unat b + 256 * from_le bs) mod 256 = unat b" "(unat b + 256 * from_le bs) div 256 = from_le bs" by simp_all
  then show ?case using Cons by simp
qed simp

lemma read_exact_iff:
  "read_exact n (input, dg) = Inr (bs, input', dg') \<longleftrightarrow> length bs = n \<and> input = bs @ input' \<and> dg' = dg @ bs"
  by (auto simp: read_exact_def)

text \<open>The three widths at once: a word of \<open>8 n\<close> bits in \<open>n\<close> bytes.\<close>

lemma word_field:
  fixes w :: "'a::len word"
  assumes "256 ^ n = (2::nat) ^ LENGTH('a)"
  shows "and_then (read_exact n (input, dg)) (\<lambda>(bs, r1). Inr (of_nat (from_le bs), r1)) = Inr (w, input', dg')
    \<longleftrightarrow> input = to_le n (unat w) @ input' \<and> dg' = dg @ to_le n (unat w)"
proof
  assume "and_then (read_exact n (input, dg)) (\<lambda>(bs, r1). Inr (of_nat (from_le bs), r1)) = Inr (w, input', dg')"
  then obtain bs where bs: "read_exact n (input, dg) = Inr (bs, input', dg')" "w = of_nat (from_le bs)"
    by (auto simp: and_then_Inr)
  then have l: "length bs = n" by (simp add: read_exact_iff)
  have "from_le bs < 2 ^ LENGTH('a)" using from_le_less [of bs] l assms by simp
  then have "unat w = from_le bs" using bs(2) by (simp add: unat_of_nat take_bit_nat_eq_self)
  then have "to_le n (unat w) = bs" using to_le_from_le [of bs] l by simp
  then show "input = to_le n (unat w) @ input' \<and> dg' = dg @ to_le n (unat w)" using bs(1) by (simp add: read_exact_iff)
next
  assume a: "input = to_le n (unat w) @ input' \<and> dg' = dg @ to_le n (unat w)"
  have "unat w < 2 ^ LENGTH('a)" by simp
  then have "from_le (to_le n (unat w)) = unat w" unfolding from_le_to_le assms by simp
  then have "of_nat (from_le (to_le n (unat w))) = w" by simp
  moreover have "read_exact n (input, dg) = Inr (to_le n (unat w), input', dg')" using a by (simp add: read_exact_iff)
  ultimately show "and_then (read_exact n (input, dg)) (\<lambda>(bs, r1). Inr (of_nat (from_le bs), r1)) = Inr (w, input', dg')"
    by (simp add: and_then_def)
qed

interpretation u16_field: stream_field read_u16 "\<lambda>w. to_le 2 (unat w)" "\<lambda>_. True"
  by unfold_locales (simp add: read_u16_def word_field)

interpretation u32_field: stream_field read_u32 "\<lambda>w. to_le 4 (unat w)" "\<lambda>_. True"
  by unfold_locales (simp add: read_u32_def word_field)

interpretation u64_field: stream_field read_u64 "\<lambda>w. to_le 8 (unat w)" "\<lambda>_. True"
  by unfold_locales (simp add: read_u64_def word_field)

definition range_ok :: "string \<times> u64 \<Rightarrow> bool" where
  "range_ok e \<longleftrightarrow> length (fst e) = 4 \<and> list_all is_lower_hex (fst e)"

lemma byte_char_inverse:
  "map byte_char (map (\<lambda>ch. of_nat (char_code ch)) s) = s" "map (\<lambda>ch. of_nat (char_code ch)) (map byte_char bs) = bs"
proof -
  have "byte_char (of_nat (char_code ch)) = ch" for ch
    by (simp add: byte_char_def unat_of_nat take_bit_nat_eq_self)
  then show "map byte_char (map (\<lambda>ch. of_nat (char_code ch)) s) = s" by (simp add: map_idI)
  have "of_nat (char_code (byte_char b)) = b" for b using unat_u8 [of b] by (simp add: byte_char_def)
  then show "map (\<lambda>ch. of_nat (char_code ch)) (map byte_char bs) = bs" by (simp add: map_idI)
qed

interpretation range_field: stream_field read_range enc_range range_ok
proof
  fix input dg x input' dg'
  have four: "to_le 2 (unat (4::u16)) = to_le 2 4" by simp
  show "read_range (input, dg) = Inr (x, input', dg') \<longleftrightarrow> range_ok x \<and> input = enc_range x @ input' \<and> dg' = dg @ enc_range x"
  proof
    assume "read_range (input, dg) = Inr (x, input', dg')"
    then obtain w i1 d1 bs i2 d2 t where "read_u16 (input, dg) = Inr (w, i1, d1)" "w = 4"
      "read_exact 4 (i1, d1) = Inr (bs, i2, d2)" "list_all is_lower_hex (map byte_char bs)"
      "read_u64 (i2, d2) = Inr (t, input', dg')" "x = (map byte_char bs, t)"
      by (auto simp: read_range_def and_then_Inr split: if_splits)
    then show "range_ok x \<and> input = enc_range x @ input' \<and> dg' = dg @ enc_range x"
      using byte_char_inverse(2) [of bs]
      by (simp add: u16_field.rd_iff u64_field.rd_iff read_exact_iff range_ok_def enc_range_def o_def)
  next
    assume a: "range_ok x \<and> input = enc_range x @ input' \<and> dg' = dg @ enc_range x"
    obtain s t where x: "x = (s, t)" by force
    let ?bs = "map (\<lambda>ch. of_nat (char_code ch)) s :: bytes"
    have l: "length s = 4" "list_all is_lower_hex s" using a x by (auto simp: range_ok_def)
    have "read_u16 (input, dg) = Inr (4, ?bs @ to_le 8 (unat t) @ input', dg @ to_le 2 4)"
      using a x l by (simp add: u16_field.rd_iff enc_range_def)
    moreover have "read_exact 4 (?bs @ to_le 8 (unat t) @ input', dg @ to_le 2 4)
        = Inr (?bs, to_le 8 (unat t) @ input', dg @ to_le 2 4 @ ?bs)"
      using l by (simp add: read_exact_iff)
    moreover have "read_u64 (to_le 8 (unat t) @ input', dg @ to_le 2 4 @ ?bs) = Inr (t, input', dg')"
      using a x l by (simp add: u64_field.rd_iff enc_range_def)
    moreover have "map byte_char ?bs = s" by (rule byte_char_inverse)
    ultimately show "read_range (input, dg) = Inr (x, input', dg')"
      using l x by (simp add: read_range_def and_then_def del: map_map)
  qed
qed

lemma update_new: "k \<notin> fst ` set al \<Longrightarrow> AList.update k v al = al @ [(k, v)]"
  by (induction al) auto

lemma read_ranges_iff:
  assumes "distinct (map fst ages)"
  shows "read_ranges n ages (input, dg) = Inr (ages', input', dg') \<longleftrightarrow>
    (\<exists>new. ages' = ages @ new \<and> length new = n \<and> list_all range_ok new \<and> distinct (map fst (ages @ new))
       \<and> input = concat (map enc_range new) @ input' \<and> dg' = dg @ concat (map enc_range new))"
  using assms
proof (induction n arbitrary: ages input dg)
  case 0
  then show ?case by auto
next
  case (Suc n)
  show ?case
  proof
    assume "read_ranges (Suc n) ages (input, dg) = Inr (ages', input', dg')"
    then obtain k v i1 d1 where r: "read_range (input, dg) = Inr ((k, v), i1, d1)" "map_of ages k = None"
      "read_ranges n (AList.update k v ages) (i1, d1) = Inr (ages', input', dg')"
      by (auto simp: and_then_Inr split: if_splits)
    have k: "k \<notin> fst ` set ages" using r(2) by (simp add: map_of_eq_None_iff)
    then have "distinct (map fst (AList.update k v ages))" using Suc.prems by (simp add: update_new)
    from Suc.IH [OF this] r(3) obtain new where n: "ages' = AList.update k v ages @ new" "length new = n"
      "list_all range_ok new" "distinct (map fst (AList.update k v ages @ new))"
      "i1 = concat (map enc_range new) @ input'" "dg' = d1 @ concat (map enc_range new)" by blast
    then show "\<exists>new. ages' = ages @ new \<and> length new = Suc n \<and> list_all range_ok new \<and> distinct (map fst (ages @ new))
       \<and> input = concat (map enc_range new) @ input' \<and> dg' = dg @ concat (map enc_range new)"
      using r(1) k by (intro exI [of _ "(k, v) # new"]) (simp add: range_field.rd_iff update_new)
  next
    assume "\<exists>new. ages' = ages @ new \<and> length new = Suc n \<and> list_all range_ok new \<and> distinct (map fst (ages @ new))
       \<and> input = concat (map enc_range new) @ input' \<and> dg' = dg @ concat (map enc_range new)"
    then obtain k v new where n: "ages' = ages @ (k, v) # new" "length new = n" "range_ok (k, v)" "list_all range_ok new"
      "distinct (map fst (ages @ (k, v) # new))" "input = enc_range (k, v) @ concat (map enc_range new) @ input'"
      "dg' = dg @ enc_range (k, v) @ concat (map enc_range new)"
      by (auto simp: length_Suc_conv)
    have k: "k \<notin> fst ` set ages" using n(5) by auto
    then have u: "AList.update k v ages = ages @ [(k, v)]" "map_of ages k = None"
      by (simp_all add: update_new map_of_eq_None_iff)
    have "read_range (input, dg) = Inr ((k, v), concat (map enc_range new) @ input', dg @ enc_range (k, v))"
      using n by (simp add: range_field.rd_iff)
    moreover have "read_ranges n (ages @ [(k, v)]) (concat (map enc_range new) @ input', dg @ enc_range (k, v)) = Inr (ages', input', dg')"
      using n by (subst Suc.IH) (auto intro: exI [of _ new])
    ultimately show "read_ranges (Suc n) ages (input, dg) = Inr (ages', input', dg')"
      using u by (simp add: and_then_def)
  qed
qed

lemma read_trailer_iff:
  "length (sha256 dg) = 32 \<Longrightarrow> read_trailer sha256 (input, dg) = Inr () \<longleftrightarrow> input = sha256 dg"
  by (auto simp: read_trailer_def)

definition legacy_ok :: "LegacyCacheState \<Rightarrow> bool" where
  "legacy_ok st \<longleftrightarrow> lc_lru_clear_pointer st < LRU_CACHE_SIZE
     \<and> length (lc_static_range_ages st) \<le> 65536 \<and> list_all range_ok (lc_static_range_ages st)
     \<and> distinct (map fst (lc_static_range_ages st)) \<and> length (lc_lru_cache_table st) = LRU_CACHE_SIZE"

lemma unat_of_nat_32: "n < 4294967296 \<Longrightarrow> unat (of_nat n :: u32) = n"
  by (simp add: unat_of_nat take_bit_nat_eq_self)

lemma read_accepts:
  assumes "\<forall>b. length (sha256 b) = 32" "read_hpcache sha256 bs = Inr st"
  shows "legacy_ok st \<and> bs = encode_hpcache sha256 st"
proof -
  obtain r0 ver r1 cc r2 cs r3 ptr r4 rc r5 ages r6 ll r7 tbl r8 where steps:
    "read_exact (length MAGIC) (bs, []) = Inr (MAGIC, r0)" "read_u16 r0 = Inr (VERSION, r1)"
    "read_u32 r1 = Inr (cc, r2)" "read_u64 r2 = Inr (cs, r3)" "read_u32 r3 = Inr (ptr, r4)" "\<not> LRU_CACHE_SIZE \<le> unat ptr"
    "read_u32 r4 = Inr (rc, r5)" "\<not> MAX_STATIC_RANGES < rc" "read_ranges (unat rc) [] r5 = Inr (ages, r6)"
    "read_u32 r6 = Inr (ll, r7)" "unat ll = LRU_CACHE_SIZE" "read_many read_u16 LRU_CACHE_SIZE r7 = Inr (tbl, r8)"
    "read_trailer sha256 r8 = Inr ()"
    "st = \<lparr>lc_cache_count = cc, lc_cache_size = cs, lc_lru_clear_pointer = unat ptr, lc_static_range_ages = ages, lc_lru_cache_table = tbl\<rparr>"
    using assms(2) unfolding read_hpcache_def by (auto simp: and_then_Inr split: if_splits)
  obtain i0 d0 i1 d1 i2 d2 i3 d3 i4 d4 i5 d5 i6 d6 i7 d7 i8 d8 where r:
    "r0 = (i0, d0)" "r1 = (i1, d1)" "r2 = (i2, d2)" "r3 = (i3, d3)" "r4 = (i4, d4)" "r5 = (i5, d5)" "r6 = (i6, d6)"
    "r7 = (i7, d7)" "r8 = (i8, d8)" by (metis surj_pair)
  note st = steps [unfolded r]
  have ages: "length ages = unat rc" "list_all range_ok ages" "distinct (map fst ages)" "i5 = concat (map enc_range ages) @ i6"
    "d6 = d5 @ concat (map enc_range ages)" using st(9) by (auto simp: read_ranges_iff)
  have "unat rc \<le> 65536" using st(8) by (simp add: MAX_STATIC_RANGES_def not_less word_le_nat_alt)
  moreover have "bs = encode_hpcache sha256 st"
    using st ages assms(1) unfolding read_exact_iff u16_field.rd_iff u32_field.rd_iff u64_field.rd_iff u16_field.many_iff
    by (simp add: encode_hpcache_def hpcache_payload_def read_trailer_iff)
  ultimately show ?thesis using st ages u16_field.many_iff [of LRU_CACHE_SIZE i7 d7 tbl i8 d8]
    by (simp add: legacy_ok_def)
qed

lemma read_encoded:
  assumes "\<forall>b. length (sha256 b) = 32" "legacy_ok st"
  shows "read_hpcache sha256 (encode_hpcache sha256 st) = Inr st"
proof -
  have n: "LRU_CACHE_SIZE = 1048576" by (simp add: LRU_CACHE_SIZE_def)
  let ?ptr = "of_nat (lc_lru_clear_pointer st) :: u32"
  let ?rc = "of_nat (length (lc_static_range_ages st)) :: u32"
  let ?ll = "of_nat LRU_CACHE_SIZE :: u32"
  have w: "unat ?ptr = lc_lru_clear_pointer st" "unat ?rc = length (lc_static_range_ages st)" "unat ?ll = LRU_CACHE_SIZE"
    using assms(2) by (auto intro!: unat_of_nat_32 simp: legacy_ok_def n)
  let ?a = "concat (map enc_range (lc_static_range_ages st))"
  let ?t = "concat (map (\<lambda>v. to_le 2 (unat v)) (lc_lru_cache_table st))"
  let ?s = "sha256 (hpcache_payload st)"
  let ?x8 = "?s" let ?x7 = "?t @ ?x8" let ?x6 = "to_le 4 (unat ?ll) @ ?x7" let ?x5 = "?a @ ?x6"
  let ?x4 = "to_le 4 (unat ?rc) @ ?x5" let ?x3 = "to_le 4 (unat ?ptr) @ ?x4" let ?x2 = "to_le 8 (unat (lc_cache_size st)) @ ?x3"
  let ?x1 = "to_le 4 (unat (lc_cache_count st)) @ ?x2" let ?x0 = "to_le 2 (unat VERSION) @ ?x1"
  let ?d0 = "MAGIC" let ?d1 = "?d0 @ to_le 2 (unat VERSION)" let ?d2 = "?d1 @ to_le 4 (unat (lc_cache_count st))"
  let ?d3 = "?d2 @ to_le 8 (unat (lc_cache_size st))" let ?d4 = "?d3 @ to_le 4 (unat ?ptr)" let ?d5 = "?d4 @ to_le 4 (unat ?rc)"
  let ?d6 = "?d5 @ ?a" let ?d7 = "?d6 @ to_le 4 (unat ?ll)" let ?d8 = "?d7 @ ?t"
  have lt: "length (lc_lru_cache_table st) = LRU_CACHE_SIZE" using assms(2) by (simp add: legacy_ok_def)
  have e: "encode_hpcache sha256 st = MAGIC @ ?x0" by (simp add: encode_hpcache_def hpcache_payload_def w lt)
  have p: "?d8 = hpcache_payload st" by (simp add: hpcache_payload_def w lt)
  have s: "read_exact (length MAGIC) (MAGIC @ ?x0, []) = Inr (MAGIC, ?x0, ?d0)" "read_u16 (?x0, ?d0) = Inr (VERSION, ?x1, ?d1)"
    "read_u32 (?x1, ?d1) = Inr (lc_cache_count st, ?x2, ?d2)" "read_u64 (?x2, ?d2) = Inr (lc_cache_size st, ?x3, ?d3)"
    "read_u32 (?x3, ?d3) = Inr (?ptr, ?x4, ?d4)" "read_u32 (?x4, ?d4) = Inr (?rc, ?x5, ?d5)"
    "read_u32 (?x6, ?d6) = Inr (?ll, ?x7, ?d7)"
    by (simp_all only: read_exact_iff u16_field.rd_iff u32_field.rd_iff u64_field.rd_iff) simp_all
  have ra: "read_ranges (unat ?rc) [] (?x5, ?d5) = Inr (lc_static_range_ages st, ?x6, ?d6)"
    using assms(2) by (simp add: read_ranges_iff legacy_ok_def w)
  have rt: "read_many read_u16 LRU_CACHE_SIZE (?x7, ?d7) = Inr (lc_lru_cache_table st, ?x8, ?d8)"
    using lt by (simp add: u16_field.many_iff list_all_iff)
  have tr: "read_trailer sha256 (?x8, ?d8) = Inr ()" unfolding p using assms(1) by (simp add: read_trailer_iff)
  have c: "(MAX_STATIC_RANGES < ?rc) = False" "(LRU_CACHE_SIZE \<le> unat ?ptr) = False" "(unat ?ll \<noteq> LRU_CACHE_SIZE) = False"
    using assms(2) w by (simp_all add: MAX_STATIC_RANGES_def legacy_ok_def word_less_nat_alt not_less)
  have "read_hpcache sha256 (encode_hpcache sha256 st) =
      Inr \<lparr>lc_cache_count = lc_cache_count st, lc_cache_size = lc_cache_size st, lc_lru_clear_pointer = unat ?ptr,
           lc_static_range_ages = lc_static_range_ages st, lc_lru_cache_table = lc_lru_cache_table st\<rparr>"
    unfolding read_hpcache_def e
    by (simp only: s ra rt tr c and_then_def sum.case prod.case if_False simp_thms)
  then show ?thesis by (simp add: w)
qed

subsection \<open>Properties\<close>

text \<open>
  C31: The stream format is unambiguous and validated. With any 32-byte digest function, reading
  accepts a stream if and only if it is, byte for byte, the encoding of a well-formed state (pointer
  inside the table, at most 65536 distinct ranges of four lower case hexadecimal digits, a table of
  full size), and then it gives back exactly that state.
\<close>

theorem hpcache_exact:
  assumes "\<forall>b. length (sha256 b) = 32"
  shows "read_hpcache sha256 bs = Inr st \<longleftrightarrow> legacy_ok st \<and> bs = encode_hpcache sha256 st"
  using read_accepts [OF assms, of bs st] read_encoded [OF assms, of st] by blast

definition sample_legacy :: LegacyCacheState where
  "sample_legacy = \<lparr>lc_cache_count = 7, lc_cache_size = 99, lc_lru_clear_pointer = 17,
     lc_static_range_ages = [(''a3f0'', 1700000000000)], lc_lru_cache_table = replicate LRU_CACHE_SIZE 0\<rparr>"

lemma sample_legacy_ok: "legacy_ok sample_legacy"
  by (simp add: legacy_ok_def sample_legacy_def LRU_CACHE_SIZE_def range_ok_def char_class_defs char_code_def)

theorem hpcache_exact_witness:
  "read_hpcache (\<lambda>b. replicate 32 (of_nat (length b))) (encode_hpcache (\<lambda>b. replicate 32 (of_nat (length b))) sample_legacy)
     = Inr sample_legacy"
  using hpcache_exact [of "\<lambda>b. replicate 32 (of_nat (length b))"
      "encode_hpcache (\<lambda>b. replicate 32 (of_nat (length b))) sample_legacy" sample_legacy] sample_legacy_ok
  by simp

end
