(* ===== verification/Hath_Migrate.thy ===== *)
theory Hath_Migrate
  imports Hath_Hpcache Hath_Cache
begin

text \<open>
  The migration tool, \<^verbatim>\<open>src/crates/pcache-migrate/src\<close>: encoding the state of a Java client as the
  three files this client reads (\<^verbatim>\<open>writer.rs\<close>), and publishing them as a transaction that first moves
  existing files aside, \<^verbatim>\<open>pcache_info\<close> before the others, and writes \<^verbatim>\<open>pcache_info\<close> last
  (\<^verbatim>\<open>transaction.rs\<close>). Process id, clock and staging counter are the parameter \<open>proc\<close>. \<open>fs_rename\<close>
  of the file system model moves regular files.
\<close>

datatype ImportError = Protocol ProtocolError | Serialize | Import_Io | ReplaceRequired | Import_Write string

record proc =
  proc_id :: string
  proc_millis :: string
  proc_sequence :: nat

subsection \<open>The writer\<close>

record EncodedSnapshot =
  es_ages :: string
  es_lru :: string
  es_info :: string
  es_ages_hash :: string
  es_lru_hash :: string

definition sha1_hex :: "codec \<Rightarrow> string \<Rightarrow> string" where
  "sha1_hex x data = concat (map hex_byte (codec_sha1 x data))"

definition writer_encode :: "codec \<Rightarrow> LegacyCacheState \<Rightarrow> ImportError + EncodedSnapshot" where
  "writer_encode x st =
     (case ser_ages x (lc_static_range_ages st) of
        None \<Rightarrow> Inl Serialize
      | Some ages \<Rightarrow>
          (case ser_lru x (lc_lru_cache_table st) of
             None \<Rightarrow> Inl Serialize
           | Some lru \<Rightarrow>
               let ages_hash = sha1_hex x ages;
                   lru_hash = sha1_hex x lru;
                   info = ''formatVersion=1'' @ [LF] @ ''cacheCount='' @ show_word (lc_cache_count st) @ [LF]
                     @ ''cacheSize='' @ show_word (lc_cache_size st) @ [LF]
                     @ ''lruClearPointer='' @ show_nat (lc_lru_clear_pointer st) @ [LF]
                     @ ''agesHash='' @ ages_hash @ [LF] @ ''lruHash='' @ lru_hash
               in Inr \<lparr>es_ages = ages, es_lru = lru, es_info = info, es_ages_hash = ages_hash, es_lru_hash = lru_hash\<rparr>))"

subsection \<open>System calls of the transaction\<close>

definition fs_create_dir :: "os \<Rightarrow> fs \<Rightarrow> path \<Rightarrow> io_error option \<times> fs" where
  "fs_create_dir os f p =
     (if path_exists f p then (Some AlreadyExists, f)
      else if \<not> is_dir f (parent p) then (Some NotFound, f)
      else if os_denied os Mkdir p then (Some OtherIo, f)
      else (None, AList.update p Dir f))"

text \<open>\<^verbatim>\<open>create_new\<close>, then write and sync.\<close>

definition write_synced :: "os \<Rightarrow> fs \<Rightarrow> path \<Rightarrow> string \<Rightarrow> io_error option \<times> fs" where
  "write_synced os f p c = (if path_exists f p then (Some AlreadyExists, f) else fs_write os f p c)"

subsection \<open>The transaction\<close>

definition ARTIFACTS :: "string list" where
  "ARTIFACTS = [''pcache_info'', ''pcache_ages'', ''pcache_lru'']"

definition unique_backup_dir :: "proc \<Rightarrow> path \<Rightarrow> path" where
  "unique_backup_dir p d =
     d @ [''pcache-java-backup-'' @ proc_millis p @ ''-'' @ proc_id p @ ''-'' @ show_nat (proc_sequence p)]"

definition staged_path :: "proc \<Rightarrow> path \<Rightarrow> string \<Rightarrow> path" where
  "staged_path p d name =
     d @ [''.'' @ name @ ''.migrate-'' @ proc_id p @ ''-'' @ show_nat (proc_sequence p) @ ''.tmp'']"

definition next_sequence :: "proc \<Rightarrow> proc" where
  "next_sequence p = p\<lparr>proc_sequence := Suc (proc_sequence p)\<rparr>"

fun backup_all :: "os \<Rightarrow> path \<Rightarrow> path \<Rightarrow> string list \<Rightarrow> fs \<Rightarrow> ImportError option \<times> fs" where
  "backup_all os d b [] f = (None, f)"
| "backup_all os d b (n # ns) f =
     (case fs_rename os f (d @ [n]) (b @ [n]) of
        Inl _ \<Rightarrow> (Some Import_Io, f)
      | Inr f1 \<Rightarrow> backup_all os d b ns f1)"

text \<open>The steps of the publication, in order; the first failure ends them.\<close>

datatype stage_action = Write_stage path string | Rename_stage path path

definition stage_step :: "os \<Rightarrow> stage_action \<Rightarrow> fs \<Rightarrow> bool \<times> fs" where
  "stage_step os s f =
     (case s of
        Write_stage p c \<Rightarrow> (case write_synced os f p c of (None, f1) \<Rightarrow> (True, f1) | (Some _, f1) \<Rightarrow> (False, f1))
      | Rename_stage p q \<Rightarrow> (case fs_rename os f p q of Inr f1 \<Rightarrow> (True, f1) | Inl _ \<Rightarrow> (False, f)))"

fun run_stages :: "os \<Rightarrow> stage_action list \<Rightarrow> fs \<Rightarrow> bool \<times> fs" where
  "run_stages os [] f = (True, f)"
| "run_stages os (s # ss) f = (case stage_step os s f of (True, f1) \<Rightarrow> run_stages os ss f1 | (False, f1) \<Rightarrow> (False, f1))"

definition publish_steps :: "path \<Rightarrow> path \<Rightarrow> path \<Rightarrow> path \<Rightarrow> EncodedSnapshot \<Rightarrow> stage_action list" where
  "publish_steps d sa sl si e =
     [Write_stage sa (es_ages e), Write_stage sl (es_lru e),
      Rename_stage sa (d @ [''pcache_ages'']), Rename_stage sl (d @ [''pcache_lru'']),
      Write_stage si (es_info e), Rename_stage si (d @ [''pcache_info''])]"

definition stage_all :: "os \<Rightarrow> proc \<Rightarrow> path \<Rightarrow> EncodedSnapshot \<Rightarrow> fs \<Rightarrow> bool \<times> fs" where
  "stage_all os p d e f =
     (let sa = staged_path p d ''pcache_ages'';
          p1 = next_sequence p;
          sl = staged_path p1 d ''pcache_lru'';
          p2 = next_sequence p1;
          si = staged_path p2 d ''pcache_info''
      in case run_stages os (publish_steps d sa sl si e) f of
           (True, f1) \<Rightarrow> (True, f1)
         | (False, f1) \<Rightarrow> (False, remove_file os (remove_file os (remove_file os f1 sa) sl) si))"

definition publish_with_writer :: "os \<Rightarrow> codec \<Rightarrow> proc \<Rightarrow> path \<Rightarrow> LegacyCacheState \<Rightarrow> bool
    \<Rightarrow> (LegacyCacheState \<Rightarrow> ImportError + EncodedSnapshot) \<Rightarrow> fs \<Rightarrow> (ImportError + path option) \<times> fs" where
  "publish_with_writer os x p d st replace encode f =
     (if path_exists f d \<and> \<not> is_dir f d then (Inl (Import_Write ''data directory is not a directory''), f)
      else case mkdirs os f (prefixes d) of
          (Some _, f1) \<Rightarrow> (Inl Import_Io, f1)
        | (None, f1) \<Rightarrow>
            let existing = filter (\<lambda>n. path_exists f1 (d @ [n])) ARTIFACTS in
            if existing \<noteq> [] \<and> \<not> replace then (Inl ReplaceRequired, f1)
            else (case encode st of
                Inl e \<Rightarrow> (Inl e, f1)
              | Inr encoded \<Rightarrow>
                  if sha1_hex x (es_ages encoded) \<noteq> es_ages_hash encoded \<or> sha1_hex x (es_lru encoded) \<noteq> es_lru_hash encoded
                  then (Inl (Import_Write ''staged cache hash did not match generated info''), f1)
                  else if existing = [] then
                    (case stage_all os p d encoded f1 of (True, f2) \<Rightarrow> (Inr None, f2) | (False, f2) \<Rightarrow> (Inl Import_Io, f2))
                  else
                    let b = unique_backup_dir p d in
                    case fs_create_dir os f1 b of
                      (Some _, f2) \<Rightarrow> (Inl Import_Io, f2)
                    | (None, f2) \<Rightarrow>
                        (case backup_all os d b existing f2 of
                           (Some e, f3) \<Rightarrow> (Inl e, f3)
                         | (None, f3) \<Rightarrow>
                             (case stage_all os (next_sequence p) d encoded f3 of
                                (True, f4) \<Rightarrow> (Inr (Some b), f4)
                              | (False, f4) \<Rightarrow> (Inl Import_Io, f4)))))"

definition publish :: "os \<Rightarrow> codec \<Rightarrow> proc \<Rightarrow> path \<Rightarrow> LegacyCacheState \<Rightarrow> bool \<Rightarrow> fs \<Rightarrow> (ImportError + path option) \<times> fs" where
  "publish os x p d st replace f = publish_with_writer os x p d st replace (writer_encode x) f"

definition import_from_reader :: "(bytes \<Rightarrow> bytes) \<Rightarrow> os \<Rightarrow> codec \<Rightarrow> proc \<Rightarrow> bytes \<Rightarrow> path \<Rightarrow> bool \<Rightarrow> fs
    \<Rightarrow> (ImportError + unit) \<times> fs" where
  "import_from_reader sha256 os x p input d replace f =
     (case read_hpcache sha256 input of
        Inl e \<Rightarrow> (Inl (Protocol e), f)
      | Inr st \<Rightarrow>
          (case publish os x p d st replace f of
             (Inl e, f1) \<Rightarrow> (Inl e, f1)
           | (Inr _, f1) \<Rightarrow> (Inr (), f1)))"


subsection \<open>What the transaction publishes\<close>

text \<open>The state as this client stores it.\<close>

definition to_persistent :: "LegacyCacheState \<Rightarrow> PersistentCacheState" where
  "to_persistent st = \<lparr>ps_cache_count = lc_cache_count st, ps_cache_size = lc_cache_size st,
     ps_lru_clear_pointer = of_nat (lc_lru_clear_pointer st), ps_static_range_ages = lc_static_range_ages st,
     ps_lru_cache_table = lc_lru_cache_table st\<rparr>"

lemma writer_encode_info:
  assumes "lc_lru_clear_pointer st < LRU_CACHE_SIZE" "writer_encode x st = Inr e"
  shows "ser_ages x (lc_static_range_ages st) = Some (es_ages e) \<and> ser_lru x (lc_lru_cache_table st) = Some (es_lru e)
    \<and> es_info e = info_text (to_persistent st) (hex_encode (codec_sha1 x (es_ages e))) (hex_encode (codec_sha1 x (es_lru e)))"
proof -
  have "unat (of_nat (lc_lru_clear_pointer st) :: u64) = lc_lru_clear_pointer st"
    using assms(1) by (simp add: LRU_CACHE_SIZE_def unat_of_nat take_bit_nat_eq_self)
  moreover have "show_word PERSISTENT_CACHE_FORMAT_VERSION = ''1''"
    by (simp add: PERSISTENT_CACHE_FORMAT_VERSION_def show_nat.simps)
  ultimately show ?thesis using assms(2)
    by (auto simp: writer_encode_def Let_def info_text_def info_lines_def to_persistent_def sha1_hex_def hex_encode_def
        split: option.splits)
qed

lemma write_synced_ok: "write_synced os f p c = (None, f') \<Longrightarrow> f' = AList.update p (File c (os_now_ms os)) f"
  by (auto simp: write_synced_def dest!: fs_write_ok split: if_splits)

lemma write_synced_frame: "q \<noteq> p \<Longrightarrow> fs_get (snd (write_synced os f p c)) q = fs_get f q"
  by (simp add: write_synced_def fs_write_frame)

lemma run_stages_True:
  "run_stages os (s # ss) f = (True, f') \<longleftrightarrow> (\<exists>f1. stage_step os s f = (True, f1) \<and> run_stages os ss f1 = (True, f'))"
  by (auto split: prod.splits bool.splits)

lemma stage_write_True: "stage_step os (Write_stage p c) f = (True, f1) \<Longrightarrow> f1 = AList.update p (File c (os_now_ms os)) f"
  by (auto simp: stage_step_def dest!: write_synced_ok split: prod.splits option.splits)

lemma stage_rename_True: "stage_step os (Rename_stage p q) f = (True, f1) \<Longrightarrow> fs_rename os f p q = Inr f1"
  by (auto simp: stage_step_def split: sum.splits)

lemma run_publish_ok:
  assumes "run_stages os (publish_steps d sa sl si e) f = (True, f')"
    and "distinct [sa, sl, si, d @ [''pcache_ages''], d @ [''pcache_lru''], d @ [''pcache_info'']]"
  shows "\<exists>t. fs_get f' (d @ [''pcache_ages'']) = Some (File (es_ages e) t)
    \<and> fs_get f' (d @ [''pcache_lru'']) = Some (File (es_lru e) t)
    \<and> fs_get f' (d @ [''pcache_info'']) = Some (File (es_info e) t)"
proof -
  obtain f1 f2 f3 f4 f5 where s: "stage_step os (Write_stage sa (es_ages e)) f = (True, f1)"
    "stage_step os (Write_stage sl (es_lru e)) f1 = (True, f2)"
    "stage_step os (Rename_stage sa (d @ [''pcache_ages''])) f2 = (True, f3)"
    "stage_step os (Rename_stage sl (d @ [''pcache_lru''])) f3 = (True, f4)"
    "stage_step os (Write_stage si (es_info e)) f4 = (True, f5)"
    "stage_step os (Rename_stage si (d @ [''pcache_info''])) f5 = (True, f')"
    using assms(1) by (auto simp: publish_steps_def run_stages_True simp del: run_stages.simps(2))
  let ?t = "os_now_ms os"
  note w = stage_write_True [OF s(1)] stage_write_True [OF s(2)] stage_write_True [OF s(5)]
  note r = stage_rename_True [OF s(3)] stage_rename_True [OF s(4)] stage_rename_True [OF s(6)]
  have "fs_get f2 sa = Some (File (es_ages e) ?t)" "fs_get f2 sl = Some (File (es_lru e) ?t)"
    using w assms(2) by auto
  then have 3: "fs_get f3 (d @ [''pcache_ages'']) = Some (File (es_ages e) ?t)" "fs_get f3 sl = Some (File (es_lru e) ?t)"
    using fs_rename_target [OF r(1)] fs_rename_frame [OF r(1), of sl] assms(2) by auto
  then have 4: "fs_get f4 (d @ [''pcache_ages'']) = Some (File (es_ages e) ?t)" "fs_get f4 (d @ [''pcache_lru'']) = Some (File (es_lru e) ?t)"
    using fs_rename_target [OF r(2)] fs_rename_frame [OF r(2), of "d @ [''pcache_ages'']"] assms(2) by auto
  then have "fs_get f5 (d @ [''pcache_ages'']) = Some (File (es_ages e) ?t)" "fs_get f5 (d @ [''pcache_lru'']) = Some (File (es_lru e) ?t)"
    "fs_get f5 si = Some (File (es_info e) ?t)"
    using w(3) assms(2) by auto
  then show ?thesis
    using fs_rename_target [OF r(3)] fs_rename_frame [OF r(3)] assms(2) by (intro exI [of _ ?t]) auto
qed

lemma staged_distinct:
  "distinct [staged_path p d ''pcache_ages'', staged_path q d ''pcache_lru'', staged_path r d ''pcache_info'',
     d @ [''pcache_ages''], d @ [''pcache_lru''], d @ [''pcache_info'']]"
  by (simp add: staged_path_def)

lemma stage_all_ok:
  assumes "stage_all os p d e f = (True, f')"
  shows "\<exists>t. fs_get f' (d @ [''pcache_ages'']) = Some (File (es_ages e) t)
    \<and> fs_get f' (d @ [''pcache_lru'']) = Some (File (es_lru e) t)
    \<and> fs_get f' (d @ [''pcache_info'']) = Some (File (es_info e) t)"
  using assms unfolding stage_all_def Let_def
  by (intro run_publish_ok [OF _ staged_distinct]) (auto split: prod.splits bool.splits)

lemma publish_ok_cases:
  assumes "publish_with_writer os x p d st replace enc f = (Inr b, f')"
  shows "\<exists>e p1 f1. enc st = Inr e \<and> stage_all os p1 d e f1 = (True, f')"
  using assms unfolding publish_with_writer_def Let_def
  by (auto split: if_splits prod.splits option.splits sum.splits bool.splits)

subsection \<open>A failed transaction\<close>

lemma prefixes_short: "d @ [n] \<notin> set (prefixes d)"
proof
  assume "d @ [n] \<in> set (prefixes d)"
  then obtain k where "d @ [n] = take k d" by (auto simp: prefixes_def)
  then have "length (d @ [n]) \<le> length d" by (metis length_take min.cobounded1)
  then show False by simp
qed

lemma backup_all_absent:
  "q \<notin> (\<lambda>n. b @ [n]) ` set ns \<Longrightarrow> fs_get f q = None \<Longrightarrow> fs_get (snd (backup_all os d b ns f)) q = None"
proof (induction os d b ns f rule: backup_all.induct)
  case (2 os d b n ns f)
  show ?case
  proof (cases "fs_rename os f (d @ [n]) (b @ [n])")
    case (Inr f1)
    have "fs_get f1 q = None"
      using Inr 2(2,3) fs_rename_frame [OF Inr, of q] by (cases "q = d @ [n]") (auto simp: fs_rename_def split: option.splits node.splits if_splits)
    then show ?thesis using 2 Inr by simp
  qed (use 2 in simp)
qed simp

text \<open>Whatever stage fails, nothing but its last rename brings \<^verbatim>\<open>pcache_info\<close> into being.\<close>

lemma stage_step_absent:
  assumes "fs_get f q = None" "case s of Write_stage p c \<Rightarrow> q \<noteq> p | Rename_stage p r \<Rightarrow> q \<noteq> r"
  shows "fs_get (snd (stage_step os s f)) q = None"
proof (cases s)
  case (Write_stage p c)
  then show ?thesis using assms write_synced_frame [of q p os f c]
    by (auto simp: stage_step_def split: prod.splits option.splits)
next
  case (Rename_stage p r)
  show ?thesis
  proof (cases "fs_rename os f p r")
    case (Inr f1)
    then have "fs_get f1 q = None" using assms Rename_stage fs_rename_frame [OF Inr, of q]
      by (cases "q = p") (auto simp: fs_rename_def split: option.splits node.splits if_splits)
    then show ?thesis using Inr Rename_stage by (simp add: stage_step_def)
  qed (use assms Rename_stage in \<open>simp add: stage_step_def\<close>)
qed

lemma run_stages_absent:
  assumes "fs_get f q = None" "\<forall>s \<in> set ss. case s of Write_stage p c \<Rightarrow> q \<noteq> p | Rename_stage p r \<Rightarrow> q \<noteq> r"
  shows "fs_get (snd (run_stages os ss f)) q = None"
  using assms
proof (induction os ss f rule: run_stages.induct)
  case (2 os s ss f)
  have "fs_get (snd (stage_step os s f)) q = None" using 2(2,3) by (intro stage_step_absent) auto
  then show ?case using 2 by (auto split: prod.splits bool.splits)
qed simp

lemma run_stages_snoc_fail:
  assumes "fs_get f q = None" "\<forall>s \<in> set ss. case s of Write_stage p c \<Rightarrow> q \<noteq> p | Rename_stage p r \<Rightarrow> q \<noteq> r"
    and "run_stages os (ss @ [Rename_stage p q]) f = (False, f')"
  shows "fs_get f' q = None"
proof -
  have snoc: "run_stages os (ss @ [s]) f = (case run_stages os ss f of (True, f1) \<Rightarrow> stage_step os s f1 | (False, f1) \<Rightarrow> (False, f1))" for s
    by (induction os ss f rule: run_stages.induct) (auto split: prod.splits bool.splits)
  have "fs_get (snd (run_stages os ss f)) q = None" using assms by (intro run_stages_absent)
  then show ?thesis using assms(3) unfolding snoc
    by (auto simp: stage_step_def split: prod.splits bool.splits sum.splits)
qed

lemma stage_all_fail:
  assumes "stage_all os p d e f = (False, f')" "fs_get f (d @ [''pcache_info'']) = None"
  shows "fs_get f' (d @ [''pcache_info'']) = None"
proof -
  let ?sa = "staged_path p d ''pcache_ages''"
  let ?sl = "staged_path (next_sequence p) d ''pcache_lru''"
  let ?si = "staged_path (next_sequence (next_sequence p)) d ''pcache_info''"
  obtain f1 where f1: "run_stages os (publish_steps d ?sa ?sl ?si e) f = (False, f1)"
    "f' = remove_file os (remove_file os (remove_file os f1 ?sa) ?sl) ?si"
    using assms(1) unfolding stage_all_def Let_def by (auto split: prod.splits bool.splits)
  let ?ss = "[Write_stage ?sa (es_ages e), Write_stage ?sl (es_lru e), Rename_stage ?sa (d @ [''pcache_ages'']),
    Rename_stage ?sl (d @ [''pcache_lru'']), Write_stage ?si (es_info e)]"
  have "run_stages os (?ss @ [Rename_stage ?si (d @ [''pcache_info''])]) f = (False, f1)"
    using f1(1) unfolding publish_steps_def append_Cons append_Nil .
  moreover have "\<forall>s \<in> set ?ss. case s of Write_stage p c \<Rightarrow> d @ [''pcache_info''] \<noteq> p | Rename_stage p r \<Rightarrow> d @ [''pcache_info''] \<noteq> r"
    by (simp add: staged_path_def)
  ultimately have "fs_get f1 (d @ [''pcache_info'']) = None"
    using run_stages_snoc_fail [OF assms(2)] by blast
  then show ?thesis using f1(2) by (simp add: remove_file_get)
qed

lemma backup_info_first:
  assumes "backup_all os d b (filter (\<lambda>n. path_exists f1 (d @ [n])) ARTIFACTS) f2 = (r, f3)"
    and "\<forall>q. q \<noteq> b \<longrightarrow> fs_get f2 q = fs_get f1 q" "b = d @ [x]" "x \<noteq> ''pcache_info''" "x \<noteq> ''pcache_ages''" "x \<noteq> ''pcache_lru''"
  shows "fs_get f3 (d @ [''pcache_info'']) = None \<or> f3 = f2 \<and> r \<noteq> None"
proof (cases "path_exists f1 (d @ [''pcache_info''])")
  case False
  then have "fs_get f2 (d @ [''pcache_info'']) = None" using assms(2-4) by (simp add: path_exists_def)
  moreover have "d @ [''pcache_info''] \<notin> (\<lambda>n. b @ [n]) ` A" for A using assms(3) by auto
  ultimately show ?thesis using backup_all_absent assms(1) by (metis snd_conv)
next
  case True
  let ?rest = "filter (\<lambda>n. path_exists f1 (d @ [n])) [''pcache_ages'', ''pcache_lru'']"
  have ex: "filter (\<lambda>n. path_exists f1 (d @ [n])) ARTIFACTS = ''pcache_info'' # ?rest" using True by (simp add: ARTIFACTS_def)
  show ?thesis
  proof (cases "fs_rename os f2 (d @ [''pcache_info'']) (b @ [''pcache_info''])")
    case (Inl e)
    then show ?thesis using assms(1) unfolding ex by auto
  next
    case (Inr g)
    have ne: "d @ [''pcache_info''] \<noteq> b @ [''pcache_info'']" using assms(3) by simp
    have "fs_get g (d @ [''pcache_info'']) = None"
      using Inr ne by (auto simp: fs_rename_def split: option.splits node.splits if_splits)
    moreover have "d @ [''pcache_info''] \<notin> (\<lambda>n. b @ [n]) ` A" for A using assms(3) by auto
    moreover have "backup_all os d b ?rest g = (r, f3)" using assms(1) Inr unfolding ex by simp
    ultimately show ?thesis using backup_all_absent by (metis snd_conv)
  qed
qed

text \<open>After a failure \<^verbatim>\<open>pcache_info\<close> is gone, or the three files are what they were.\<close>

lemma publish_fail_cases:
  assumes "publish_with_writer os x p d st replace enc f = (Inl err, f')"
  shows "fs_get f' (d @ [''pcache_info'']) = None \<or> (\<forall>n \<in> set ARTIFACTS. fs_get f' (d @ [n]) = fs_get f (d @ [n]))"
proof -
  obtain m f1 where mk: "mkdirs os f (prefixes d) = (m, f1)" by force
  have fr: "fs_get f1 (d @ [n]) = fs_get f (d @ [n])" for n
    using mkdirs_frame [OF prefixes_short, of os f d n] mk by simp
  let ?ex = "filter (\<lambda>n. path_exists f1 (d @ [n])) ARTIFACTS"
  let ?b = "unique_backup_dir p d"
  obtain c f2 where cd: "fs_create_dir os f1 ?b = (c, f2)" by force
  have cfr: "\<forall>q. q \<noteq> ?b \<longrightarrow> fs_get f2 q = fs_get f1 q" using cd by (auto simp: fs_create_dir_def split: if_splits)
  obtain xb where xb: "?b = d @ [xb]" "xb \<noteq> ''pcache_info''" "xb \<noteq> ''pcache_ages''" "xb \<noteq> ''pcache_lru''"
    by (simp add: unique_backup_dir_def)
  obtain r f3 where bk: "backup_all os d ?b ?ex f2 = (r, f3)" by force
  have art: "set ARTIFACTS = {''pcache_info'', ''pcache_ages'', ''pcache_lru''}" by (auto simp: ARTIFACTS_def)
  have keep2: "fs_get f2 (d @ [n]) = fs_get f (d @ [n])" if "n \<in> set ARTIFACTS" for n
    using that cfr xb fr unfolding art by auto
  consider "f' = f" | "f' = f1" | e where "?ex = []" "stage_all os p d e f1 = (False, f')" | "f' = f2"
    | "f' = f3" "r \<noteq> None" | e where "r = None" "stage_all os (next_sequence p) d e f3 = (False, f')"
    using assms mk cd bk unfolding publish_with_writer_def Let_def
    by (auto split: if_splits option.splits sum.splits prod.splits bool.splits)
  then show ?thesis
  proof cases
    case (3 e)
    then have "fs_get f1 (d @ [''pcache_info'']) = None" by (simp add: ARTIFACTS_def path_exists_def split: if_splits)
    then show ?thesis using stage_all_fail [OF 3(2)] by simp
  next
    case 5
    then show ?thesis using backup_info_first [OF bk cfr xb] keep2 by auto
  next
    case (6 e)
    then show ?thesis using backup_info_first [OF bk cfr xb] stage_all_fail [OF 6(2)] by auto
  qed (use fr keep2 in auto)
qed

subsection \<open>Properties\<close>

text \<open>
  C32: What the migration publishes is what the client loads. If the stream is accepted and the
  publication succeeds, the client that starts on that data directory loads exactly the imported state.
\<close>

theorem migration_loads:
  assumes "\<forall>b. length (sha256 b) = 32" "codec_ok x" "\<forall>p. \<not> os_denied os' Read p"
    and "read_hpcache sha256 input = Inr st"
    and "import_from_reader sha256 os x p input (cfg_data_dir c) replace f = (Inr (), f')"
  shows "try_load os' x f' c = Some (to_persistent st)"
proof -
  have ok: "legacy_ok st" using read_accepts [OF assms(1,4)] by simp
  then have ptr: "lc_lru_clear_pointer st < LRU_CACHE_SIZE" by (simp add: legacy_ok_def)
  obtain b where "publish_with_writer os x p (cfg_data_dir c) st replace (writer_encode x) f = (Inr b, f')"
    using assms(4,5) by (auto simp: import_from_reader_def publish_def split: prod.splits sum.splits)
  then obtain e p1 f1 where e: "writer_encode x st = Inr e" "stage_all os p1 (cfg_data_dir c) e f1 = (True, f')"
    using publish_ok_cases by blast
  obtain t where t: "fs_get f' (ages_path c) = Some (File (es_ages e) t)" "fs_get f' (lru_path c) = Some (File (es_lru e) t)"
    "fs_get f' (info_path c) = Some (File (es_info e) t)"
    using stage_all_ok [OF e(2)] by blast
  note w = writer_encode_info [OF ptr e(1)]
  show ?thesis
    using load_published [OF assms(2), of "to_persistent st" "es_ages e" "es_lru e" f' c t t t os'] t w assms(3)
    by (simp add: to_persistent_def)
qed

definition sample_digest :: "bytes \<Rightarrow> bytes" where
  "sample_digest b = replicate 32 (of_nat (length b))"

definition legacy_codec :: codec where
  "legacy_codec = \<lparr>ser_ages = (\<lambda>a. if a = lc_static_range_ages sample_legacy then Some ''A'' else None),
     de_ages = (\<lambda>d. if d = ''A'' then Some (lc_static_range_ages sample_legacy) else None),
     ser_lru = (\<lambda>a. if a = lc_lru_cache_table sample_legacy then Some ''B'' else None),
     de_lru = (\<lambda>d. if d = ''B'' then Some (lc_lru_cache_table sample_legacy) else None),
     codec_sha1 = (\<lambda>s. map (\<lambda>ch. of_nat (char_code ch)) s)\<rparr>"

definition sample_proc :: proc where
  "sample_proc = \<lparr>proc_id = ''42'', proc_millis = ''1000'', proc_sequence = 0\<rparr>"

lemma sample_input: "read_hpcache sample_digest (encode_hpcache sample_digest sample_legacy) = Inr sample_legacy"
  by (rule read_encoded) (simp_all add: sample_digest_def sample_legacy_ok)

lemma legacy_codec_ok: "codec_ok legacy_codec"
  by (simp add: codec_ok_def legacy_codec_def)

lemma sample_encode: "\<exists>i. writer_encode legacy_codec sample_legacy =
    Inr \<lparr>es_ages = ''A'', es_lru = ''B'', es_info = i, es_ages_hash = sha1_hex legacy_codec ''A'', es_lru_hash = sha1_hex legacy_codec ''B''\<rparr>"
  by (simp add: writer_encode_def Let_def legacy_codec_def)

lemmas publish_eval = import_from_reader_def sample_input publish_def publish_with_writer_def Let_def ARTIFACTS_def sample_fs_def
  is_dir_def path_exists_def prefixes_def upt_rec stage_all_def publish_steps_def stage_step_def write_synced_def
  fs_write_def fs_rename_def parent_def staged_path_def next_sequence_def sample_proc_def sample_os_def

lemma sample_import:
  "fst (import_from_reader sample_digest sample_os legacy_codec sample_proc (encode_hpcache sample_digest sample_legacy)
     [''data''] False sample_fs) = Inr ()"
proof -
  obtain i where i: "writer_encode legacy_codec sample_legacy =
      Inr \<lparr>es_ages = ''A'', es_lru = ''B'', es_info = i, es_ages_hash = sha1_hex legacy_codec ''A'', es_lru_hash = sha1_hex legacy_codec ''B''\<rparr>"
    using sample_encode by blast
  show ?thesis by (simp add: publish_eval i)
qed

theorem migration_loads_witness:
  "try_load sample_os legacy_codec
     (snd (import_from_reader sample_digest sample_os legacy_codec sample_proc (encode_hpcache sample_digest sample_legacy)
        (cfg_data_dir sample_config) False sample_fs)) sample_config = Some (to_persistent sample_legacy)"
proof (rule migration_loads [OF _ legacy_codec_ok _ sample_input])
  show "import_from_reader sample_digest sample_os legacy_codec sample_proc (encode_hpcache sample_digest sample_legacy)
      (cfg_data_dir sample_config) False sample_fs
    = (Inr (), snd (import_from_reader sample_digest sample_os legacy_codec sample_proc (encode_hpcache sample_digest sample_legacy)
        (cfg_data_dir sample_config) False sample_fs))"
    using sample_import by (simp add: sample_data_dir prod_eq_iff)
qed (simp_all add: sample_digest_def sample_os_def)

text \<open>
  C33: A migration that fails does not corrupt the cache state: afterwards the client either finds no
  snapshot and rescans, or loads exactly what it would have loaded before. Moving \<^verbatim>\<open>pcache_info\<close> away
  first and writing it last is what makes this hold at every point of failure.
\<close>

theorem migration_failure_safe:
  assumes "import_from_reader sha256 os x p input (cfg_data_dir c) replace f = (Inl err, f')"
  shows "try_load os' x f' c = None \<or> try_load os' x f' c = try_load os' x f c"
proof (cases "read_hpcache sha256 input")
  case (Inl e)
  then show ?thesis using assms by (simp add: import_from_reader_def)
next
  case (Inr st)
  then have "publish_with_writer os x p (cfg_data_dir c) st replace (writer_encode x) f = (Inl err, f')"
    using assms by (auto simp: import_from_reader_def publish_def split: prod.splits sum.splits)
  from publish_fail_cases [OF this] show ?thesis
  proof
    assume "fs_get f' (cfg_data_dir c @ [''pcache_info'']) = None"
    then show ?thesis by (simp add: try_load_def path_exists_def)
  next
    assume "\<forall>n \<in> set ARTIFACTS. fs_get f' (cfg_data_dir c @ [n]) = fs_get f (cfg_data_dir c @ [n])"
    then have "try_load os' x f' c = try_load os' x f c" by (intro try_load_cong) (simp add: ARTIFACTS_def)
    then show ?thesis ..
  qed
qed

text \<open>Renaming is refused: the transaction fails after staging, and the client rescans.\<close>

theorem migration_failure_safe_witness:
  "\<exists>f'. import_from_reader sample_digest (sample_os\<lparr>os_denied := (\<lambda>a _. a = Rename)\<rparr>) legacy_codec sample_proc
        (encode_hpcache sample_digest sample_legacy) (cfg_data_dir sample_config) False sample_fs = (Inl Import_Io, f')
     \<and> try_load sample_os legacy_codec f' sample_config = None"
proof -
  let ?r = "import_from_reader sample_digest (sample_os\<lparr>os_denied := (\<lambda>a _. a = Rename)\<rparr>) legacy_codec sample_proc
        (encode_hpcache sample_digest sample_legacy) (cfg_data_dir sample_config) False sample_fs"
  obtain i where i: "writer_encode legacy_codec sample_legacy =
      Inr \<lparr>es_ages = ''A'', es_lru = ''B'', es_info = i, es_ages_hash = sha1_hex legacy_codec ''A'', es_lru_hash = sha1_hex legacy_codec ''B''\<rparr>"
    using sample_encode by blast
  have "fst ?r = Inl Import_Io" by (simp add: sample_data_dir publish_eval i)
  then have r: "?r = (Inl Import_Io, snd ?r)" by (simp add: prod_eq_iff)
  moreover have "try_load sample_os legacy_codec sample_fs sample_config = None"
    by (simp add: try_load_def path_exists_def sample_data_dir sample_fs_def)
  ultimately show ?thesis using migration_failure_safe [OF r, of sample_os] by auto
qed

end
