(* ===== verification/Hath_Upstream.thy ===== *)
theory Hath_Upstream
  imports Hath_Stats Hath_Config
begin

text \<open>
  The upstream half of an on-demand download, \<^verbatim>\<open>src/src/proxy_downloader/transfer.rs\<close>: rotation over
  the sources within a budget of attempts, validation of the response headers, and reception into an
  append-only file in which a repeated attempt must first replay the bytes already published.

  What the HTTP client answers to an attempt is a parameter, a function of the number of attempts made
  so far and of the source. An answer lists what happens to its body: chunks with the outcome of
  writing them, transport errors, and the deadline. Byte counts are natural numbers: a chunk is shorter
  than \<open>2 ^ 63\<close> bytes and the counters stay below \<open>2 ^ 32\<close> before one is added, so none of them wraps.
\<close>

subsection \<open>The environment\<close>

text \<open>An error of the HTTP library: whether it is a timeout, and what it and its sources display.\<close>

type_synonym http_error = "bool \<times> string list"

text \<open>A write may fail or be cut off by the deadline after some of its bytes have reached the file.\<close>

datatype write_result = Write_ok | Write_error nat | Write_late nat

datatype body_event = Chunk string write_result | Body_error http_error | Body_late

datatype get_result = Send_failed http_error | Send_late | Answer u16 "u64 option" "body_event list"

record 'u upstream_env =
  env_get :: "nat \<Rightarrow> 'u \<Rightarrow> get_result"
  env_open_ok :: bool
  env_flush :: write_result

subsection \<open>Errors\<close>

datatype DownloadFailReason = Fail_PrematureEof | NetworkError | Fail_Timeout | DiskWriteError | Fail_Sha1Mismatch | FinalizeFailed

datatype DownloadState = InProgress nat | Download_done | Failed DownloadFailReason

datatype ConnectError =
    NoSources
  | Connect_network http_error
  | Status u16
  | MissingLength
  | TooLarge u64 u64
  | LengthMismatch u64 u64
  | Connect_deadline

datatype DownloadError =
    Connect ConnectError
  | Body_failed http_error
  | PrematureEof nat nat
  | SizeExceeded nat
  | PrefixMismatch
  | Sha1Mismatch
  | Deadline
  | File_io

definition connect_reason :: "ConnectError \<Rightarrow> DownloadFailReason" where
  "connect_reason e =
     (case e of
        Connect_deadline \<Rightarrow> Fail_Timeout
      | Connect_network h \<Rightarrow> if fst h then Fail_Timeout else NetworkError
      | _ \<Rightarrow> NetworkError)"

definition connect_retryable :: "ConnectError \<Rightarrow> bool" where
  "connect_retryable e \<longleftrightarrow> e \<noteq> Connect_deadline"

text \<open>The displayed message with those of its sources; \<open>text\<close> displays a status code.\<close>

definition error_chain :: "(u16 \<Rightarrow> string) \<Rightarrow> ConnectError \<Rightarrow> string" where
  "error_chain text e =
     (case e of
        NoSources \<Rightarrow> ''no upstream sources supplied''
      | Connect_network h \<Rightarrow> ''upstream HTTP transfer failed'' @ concat (map (\<lambda>s. '': '' @ s) (snd h))
      | Status s \<Rightarrow> ''upstream returned '' @ text s
      | MissingLength \<Rightarrow> ''missing Content-Length''
      | TooLarge l m \<Rightarrow> ''contentLength '' @ show_word l @ '' exceeds max allowed filesize '' @ show_word m
      | LengthMismatch x a \<Rightarrow> ''size mismatch: expected '' @ show_word x @ '', got '' @ show_word a
      | Connect_deadline \<Rightarrow> ''download deadline exceeded'')"

definition connect_hath_error :: "(u16 \<Rightarrow> string) \<Rightarrow> ConnectError \<Rightarrow> HathError" where
  "connect_hath_error text e =
     ProxyDownloader
       (case e of
          Connect_deadline \<Rightarrow> 504
        | Connect_network h \<Rightarrow> if fst h then 504 else 500
        | _ \<Rightarrow> 502)
       (error_chain text e)"

definition download_reason :: "DownloadError \<Rightarrow> DownloadFailReason" where
  "download_reason e =
     (case e of
        Connect c \<Rightarrow> connect_reason c
      | Body_failed h \<Rightarrow> if fst h then Fail_Timeout else NetworkError
      | SizeExceeded _ \<Rightarrow> NetworkError
      | PrematureEof _ _ \<Rightarrow> Fail_PrematureEof
      | PrefixMismatch \<Rightarrow> Fail_Sha1Mismatch
      | Sha1Mismatch \<Rightarrow> Fail_Sha1Mismatch
      | Deadline \<Rightarrow> Fail_Timeout
      | File_io \<Rightarrow> DiskWriteError)"

definition download_retryable :: "DownloadError \<Rightarrow> bool" where
  "download_retryable e \<longleftrightarrow> e \<noteq> Deadline \<and> e \<noteq> File_io \<and> e \<noteq> Sha1Mismatch"

subsection \<open>Connecting\<close>

definition MAX_ATTEMPTS :: nat where
  "MAX_ATTEMPTS = 3"

record 'u Upstream =
  up_sources :: "'u list"
  up_hath_request :: string
  up_hv_file :: HVFile
  up_max_allowed_filesize :: u64
  up_attempts :: nat
  up_retained :: nat

definition Upstream_new :: "digest \<Rightarrow> 'u list \<Rightarrow> HVFile \<Rightarrow> Config \<Rightarrow> ConnectError + 'u Upstream" where
  "Upstream_new sha1 sources hv c =
     (if sources = [] then Inl NoSources
      else Inr \<lparr>up_sources = sources,
                up_hath_request = show_word (client_id_val (cfg_client_id c)) @ ''-''
                  @ sha1_string sha1 (key_str (cfg_client_key c) @ fileid_str (fileid hv)),
                up_hv_file = hv, up_max_allowed_filesize = cfg_max_allowed_filesize c,
                up_attempts = 0, up_retained = 0\<rparr>)"

definition expected_size :: "'u Upstream \<Rightarrow> nat" where
  "expected_size u = unat (hv_size (up_hv_file u))"

definition validate_proxy_response :: "u16 \<Rightarrow> u64 option \<Rightarrow> u64 \<Rightarrow> u64 \<Rightarrow> ConnectError option" where
  "validate_proxy_response status content_length max_allowed_filesize expected =
     (if status \<noteq> 200 then Some (Status status)
      else case content_length of
          None \<Rightarrow> Some MissingLength
        | Some len \<Rightarrow>
            if max_allowed_filesize < len then Some (TooLarge len max_allowed_filesize)
            else if len \<noteq> expected then Some (LengthMismatch expected len)
            else None)"

definition try_next_source :: "'u upstream_env \<Rightarrow> 'u Upstream \<Rightarrow> (ConnectError + body_event list) \<times> 'u Upstream" where
  "try_next_source env u =
     (let source = up_sources u ! (up_attempts u mod length (up_sources u));
          u1 = u\<lparr>up_attempts := up_attempts u + 1\<rparr>
      in (case env_get env (up_attempts u) source of
            Send_failed h \<Rightarrow> Inl (Connect_network h)
          | Send_late \<Rightarrow> Inl Connect_deadline
          | Answer status len events \<Rightarrow>
              (case validate_proxy_response status len (up_max_allowed_filesize u) (ucast (hv_size (up_hv_file u))) of
                 Some e \<Rightarrow> Inl e
               | None \<Rightarrow> Inr events), u1))"

function connect :: "'u upstream_env \<Rightarrow> 'u Upstream \<Rightarrow> (ConnectError + body_event list) \<times> 'u Upstream" where
  "connect env u =
     (let r = try_next_source env u in
      case fst r of
        Inr response \<Rightarrow> (Inr response, snd r)
      | Inl e \<Rightarrow>
          if \<not> connect_retryable e \<or> MAX_ATTEMPTS \<le> up_attempts (snd r) then (Inl e, snd r)
          else connect env (snd r))"
  by pat_completeness auto
termination
  by (relation "measure (\<lambda>(env, u). MAX_ATTEMPTS - up_attempts u)") (auto simp: try_next_source_def Let_def)

declare connect.simps [simp del]

subsection \<open>Receiving\<close>

text \<open>\<open>pf_file\<close> are the bytes of the file, \<open>pf_sha1\<close> those the hash has been fed.\<close>

record PartialFile =
  pf_file :: string
  pf_written :: nat
  pf_received :: nat
  pf_expected_size :: nat
  pf_sha1 :: string

definition PartialFile_open :: "'u upstream_env \<Rightarrow> nat \<Rightarrow> PartialFile option" where
  "PartialFile_open env sz =
     (if env_open_ok env
      then Some \<lparr>pf_file = [], pf_written = 0, pf_received = 0, pf_expected_size = sz, pf_sha1 = []\<rparr>
      else None)"

text \<open>The file with everything sent on the progress channel and the counters.\<close>

record transfer =
  tr_file :: PartialFile
  tr_progress :: "DownloadState list"
  tr_stats :: Stats

definition write_suffix :: "string \<Rightarrow> write_result \<Rightarrow> transfer \<Rightarrow> DownloadError option \<times> transfer" where
  "write_suffix suffix w t =
     (let p = tr_file t in
      if suffix = [] then (None, t)
      else case w of
          Write_error n \<Rightarrow> (Some File_io, t\<lparr>tr_file := p\<lparr>pf_file := pf_file p @ take n suffix\<rparr>\<rparr>)
        | Write_late n \<Rightarrow> (Some Deadline, t\<lparr>tr_file := p\<lparr>pf_file := pf_file p @ take n suffix\<rparr>\<rparr>)
        | Write_ok \<Rightarrow>
            (let p1 = p\<lparr>pf_file := pf_file p @ suffix, pf_sha1 := pf_sha1 p @ suffix,
                        pf_written := pf_written p + length suffix\<rparr>
             in (None, t\<lparr>tr_file := p1, tr_progress := tr_progress t @ [InProgress (pf_written p1)]\<rparr>)))"

fun receive_loop :: "digest \<Rightarrow> nat \<Rightarrow> bytes \<Rightarrow> body_event list \<Rightarrow> string \<Rightarrow> transfer \<Rightarrow> DownloadError option \<times> transfer" where
  "receive_loop sha1 prefix_len prefix_hash [] replay t =
     (let p = tr_file t in
      if pf_received p \<noteq> pf_expected_size p then (Some (PrematureEof (pf_received p) (pf_expected_size p)), t)
      else (None, t))"
| "receive_loop sha1 prefix_len prefix_hash (Body_error h # es) replay t = (Some (Body_failed h), t)"
| "receive_loop sha1 prefix_len prefix_hash (Body_late # es) replay t = (Some Deadline, t)"
| "receive_loop sha1 prefix_len prefix_hash (Chunk chunk w # es) replay t =
     (let p = tr_file t;
          offset = pf_received p;
          t1 = t\<lparr>tr_stats := record_bytes_rcvd (of_nat (length chunk)) (tr_stats t),
                 tr_file := p\<lparr>pf_received := offset + length chunk\<rparr>\<rparr>
      in if pf_expected_size p < offset + length chunk then (Some (SizeExceeded (pf_expected_size p)), t1)
         else
           let replay_len = min (prefix_len - offset) (length chunk);
               replay1 = (if 0 < replay_len then replay @ take replay_len chunk else replay)
           in if 0 < replay_len \<and> offset + replay_len = prefix_len \<and> sha1 replay1 \<noteq> prefix_hash
              then (Some PrefixMismatch, t1)
              else (case write_suffix (drop replay_len chunk) w t1 of
                      (Some e, t2) \<Rightarrow> (Some e, t2)
                    | (None, t2) \<Rightarrow> receive_loop sha1 prefix_len prefix_hash es replay1 t2))"

definition partial_receive :: "digest \<Rightarrow> body_event list \<Rightarrow> transfer \<Rightarrow> DownloadError option \<times> transfer" where
  "partial_receive sha1 response t =
     (let p = tr_file t in
      receive_loop sha1 (pf_written p) (sha1 (pf_sha1 p)) response [] (t\<lparr>tr_file := p\<lparr>pf_received := 0\<rparr>\<rparr>))"

definition partial_finish :: "'u upstream_env \<Rightarrow> digest \<Rightarrow> string \<Rightarrow> PartialFile \<Rightarrow> DownloadError option" where
  "partial_finish env sha1 expected_hash p =
     (case env_flush env of
        Write_error _ \<Rightarrow> Some File_io
      | Write_late _ \<Rightarrow> Some Deadline
      | Write_ok \<Rightarrow> if hex_encode (sha1 (pf_sha1 p)) \<noteq> expected_hash then Some Sha1Mismatch else None)"

text \<open>Every attempt counts, which bounds the recovery.\<close>

lemma try_next_attempts: "up_attempts (snd (try_next_source env u)) = Suc (up_attempts u)"
  by (simp add: try_next_source_def Let_def)

lemma connect_attempts:
  "up_attempts u < up_attempts (snd (connect env u)) \<and> up_attempts (snd (connect env u)) \<le> max MAX_ATTEMPTS (Suc (up_attempts u))"
proof (induction env u rule: connect.induct)
  case (1 env u)
  note ih = 1 [OF refl]
  show ?case
  proof (cases "fst (try_next_source env u)")
    case (Inl e)
    then show ?thesis using ih [OF Inl] try_next_attempts [of env u]
      by (auto simp: connect.simps [of env u] Let_def)
  next
    case (Inr r)
    then show ?thesis using try_next_attempts [of env u] by (simp add: connect.simps [of env u] Let_def)
  qed
qed

function recover :: "'u upstream_env \<Rightarrow> digest \<Rightarrow> body_event list \<Rightarrow> 'u Upstream \<Rightarrow> transfer
    \<Rightarrow> DownloadError option \<times> 'u Upstream \<times> transfer" where
  "recover env sha1 response u t =
     (let r = partial_receive sha1 response t; t1 = snd r in
      case fst r of
        None \<Rightarrow> (partial_finish env sha1 (sha1_str (hv_hash (up_hv_file u))) (tr_file t1), u, t1)
      | Some e \<Rightarrow>
          (let u1 = u\<lparr>up_retained := pf_written (tr_file t1)\<rparr> in
           if \<not> download_retryable e \<or> MAX_ATTEMPTS \<le> up_attempts u1 then (Some e, u1, t1)
           else let c = connect env u1 in
             case fst c of
               Inl e1 \<Rightarrow> (Some (Connect e1), snd c, t1)
             | Inr response1 \<Rightarrow> recover env sha1 response1 (snd c) t1))"
  by pat_completeness auto
termination
proof (relation "measure (\<lambda>(env, sha1, response, u, t). MAX_ATTEMPTS - up_attempts u)", goal_cases)
  case (2 env sha1 response u t x xa x2 xb xc b)
  then show ?case using connect_attempts [of xb env] by auto
qed simp

declare recover.simps [simp del]

definition upstream_download :: "'u upstream_env \<Rightarrow> digest \<Rightarrow> body_event list \<Rightarrow> 'u Upstream \<Rightarrow> DownloadState list \<Rightarrow> Stats
    \<Rightarrow> DownloadError option \<times> 'u Upstream \<times> transfer option" where
  "upstream_download env sha1 response u progress st =
     (case PartialFile_open env (expected_size u) of
        None \<Rightarrow> (Some File_io, u, None)
      | Some p \<Rightarrow>
          (case recover env sha1 response u \<lparr>tr_file = p, tr_progress = progress, tr_stats = st\<rparr> of
             (r, u1, t) \<Rightarrow> (r, u1\<lparr>up_retained := pf_written (tr_file t)\<rparr>, Some t)))"

subsection \<open>The file only grows\<close>

text \<open>
  One transfer state follows another: bytes were appended, and the values published in between rise
  strictly up to what has been written.
\<close>

definition advances :: "transfer \<Rightarrow> transfer \<Rightarrow> bool" where
  "advances t t' \<longleftrightarrow>
     (\<exists>ext. pf_file (tr_file t') = pf_file (tr_file t) @ ext)
     \<and> pf_expected_size (tr_file t') = pf_expected_size (tr_file t)
     \<and> (\<exists>ns. tr_progress t' = tr_progress t @ map InProgress ns \<and> sorted_wrt (<) (pf_written (tr_file t) # ns)
           \<and> last (pf_written (tr_file t) # ns) = pf_written (tr_file t'))"

lemma advances_refl [simp, intro]: "advances t t"
  unfolding advances_def by (intro conjI exI [of _ "[]"]) simp_all

lemma chain_append:
  "sorted_wrt (<) (a # ns) \<Longrightarrow> sorted_wrt (<) (last (a # ns) # ms) \<Longrightarrow> sorted_wrt (<) (a # ns @ (ms :: nat list))"
proof (induction ns arbitrary: a)
  case (Cons b ns)
  have "sorted_wrt (<) (b # ns)" "sorted_wrt (<) (last (b # ns) # ms)" and ab: "a < b" using Cons.prems by simp_all
  then have s: "sorted_wrt (<) (b # ns @ ms)" by (intro Cons.IH)
  from s have "\<forall>x \<in> set (ns @ ms). b < x" by simp
  with ab have "\<forall>x \<in> set (ns @ ms). a < x" by (blast intro: less_trans)
  with s ab show ?case by simp
qed simp

lemma advances_trans [trans]:
  assumes "advances t1 t2" "advances t2 t3"
  shows "advances t1 t3"
proof -
  let ?w = "\<lambda>t. pf_written (tr_file t)"
  obtain ns where ns: "tr_progress t2 = tr_progress t1 @ map InProgress ns" "sorted_wrt (<) (?w t1 # ns)" "last (?w t1 # ns) = ?w t2"
    using assms(1) unfolding advances_def by blast
  obtain ms where ms: "tr_progress t3 = tr_progress t2 @ map InProgress ms" "sorted_wrt (<) (?w t2 # ms)" "last (?w t2 # ms) = ?w t3"
    using assms(2) unfolding advances_def by blast
  have "tr_progress t3 = tr_progress t1 @ map InProgress (ns @ ms)" using ns(1) ms(1) by simp
  moreover have "sorted_wrt (<) (?w t1 # ns @ ms)" using chain_append [OF ns(2)] ms(2) ns(3) by simp
  moreover have "last (?w t1 # ns @ ms) = ?w t3" using ns(3) ms(3) by (cases "ms = []") simp_all
  ultimately have "\<exists>ns. tr_progress t3 = tr_progress t1 @ map InProgress ns \<and> sorted_wrt (<) (?w t1 # ns) \<and> last (?w t1 # ns) = ?w t3"
    by blast
  moreover obtain e1 e2 where "pf_file (tr_file t2) = pf_file (tr_file t1) @ e1" "pf_file (tr_file t3) = pf_file (tr_file t2) @ e2"
    using assms unfolding advances_def by blast
  then have "\<exists>ext. pf_file (tr_file t3) = pf_file (tr_file t1) @ ext" by simp
  moreover have "pf_expected_size (tr_file t3) = pf_expected_size (tr_file t1)" using assms unfolding advances_def by metis
  ultimately show ?thesis unfolding advances_def by blast
qed

lemma advances_append:
  assumes "pf_file (tr_file t') = pf_file (tr_file t) @ ext" "pf_expected_size (tr_file t') = pf_expected_size (tr_file t)"
    and "tr_progress t' = tr_progress t" "pf_written (tr_file t') = pf_written (tr_file t)"
  shows "advances t t'"
  unfolding advances_def using assms by (intro conjI exI [of _ ext] exI [of _ "[]"]) simp_all

text \<open>The hash has seen exactly the published bytes, and in a clean file there are no others.\<close>

definition hashed :: "PartialFile \<Rightarrow> bool" where
  "hashed p \<longleftrightarrow> pf_sha1 p = take (pf_written p) (pf_file p) \<and> pf_written p \<le> length (pf_file p)
     \<and> pf_written p \<le> pf_expected_size p"

definition clean_file :: "PartialFile \<Rightarrow> bool" where
  "clean_file p \<longleftrightarrow> hashed p \<and> pf_written p = length (pf_file p)"

lemma write_suffix_spec:
  assumes "clean_file (tr_file t)" "pf_written (tr_file t) + length suffix \<le> pf_expected_size (tr_file t)"
    and "write_suffix suffix w t = (r, t')"
  shows "advances t t' \<and> hashed (tr_file t')
    \<and> (r = None \<longrightarrow> clean_file (tr_file t') \<and> pf_file (tr_file t') = pf_file (tr_file t) @ suffix)
    \<and> (\<forall>e. r = Some e \<longrightarrow> \<not> download_retryable e)
    \<and> pf_received (tr_file t') = pf_received (tr_file t)"
proof (cases "suffix = []")
  case True
  then show ?thesis using assms by (auto simp: write_suffix_def Let_def clean_file_def)
next
  case False
  show ?thesis
  proof (cases w)
    case Write_ok
    then have "t' = t\<lparr>tr_file := (tr_file t)\<lparr>pf_file := pf_file (tr_file t) @ suffix, pf_sha1 := pf_sha1 (tr_file t) @ suffix,
          pf_written := pf_written (tr_file t) + length suffix\<rparr>,
        tr_progress := tr_progress t @ [InProgress (pf_written (tr_file t) + length suffix)]\<rparr>" "r = None"
      using False assms(3) by (simp_all add: write_suffix_def Let_def)
    moreover from this have "advances t t'" unfolding advances_def using False
      by (intro conjI exI [of _ suffix] exI [of _ "[pf_written (tr_file t) + length suffix]"]) simp_all
    ultimately show ?thesis using assms(1,2) by (simp add: hashed_def clean_file_def)
  next
    case (Write_error n)
    then have t: "t' = t\<lparr>tr_file := (tr_file t)\<lparr>pf_file := pf_file (tr_file t) @ take n suffix\<rparr>\<rparr>" "r = Some File_io"
      using False assms(3) by (simp_all add: write_suffix_def Let_def)
    then have "advances t t'" by (intro advances_append [of _ _ "take n suffix"]) simp_all
    then show ?thesis using t assms(1) by (simp add: hashed_def clean_file_def download_retryable_def)
  next
    case (Write_late n)
    then have t: "t' = t\<lparr>tr_file := (tr_file t)\<lparr>pf_file := pf_file (tr_file t) @ take n suffix\<rparr>\<rparr>" "r = Some Deadline"
      using False assms(3) by (simp_all add: write_suffix_def Let_def)
    then have "advances t t'" by (intro advances_append [of _ _ "take n suffix"]) simp_all
    then show ?thesis using t assms(1) by (simp add: hashed_def clean_file_def download_retryable_def)
  qed
qed

text \<open>Within an attempt, what is written is what was received, or the retained prefix.\<close>

definition in_step :: "nat \<Rightarrow> transfer \<Rightarrow> bool" where
  "in_step n t \<longleftrightarrow> clean_file (tr_file t) \<and> pf_written (tr_file t) = max n (pf_received (tr_file t))"

definition body_of :: "body_event list \<Rightarrow> string" where
  "body_of es = concat (map (\<lambda>e. case e of Chunk c _ \<Rightarrow> c | _ \<Rightarrow> []) es)"

lemma body_of_simps [simp]:
  "body_of [] = []" "body_of (Chunk c w # es) = c @ body_of es"
  "body_of (Body_error h # es) = body_of es" "body_of (Body_late # es) = body_of es"
  by (simp_all add: body_of_def)

text \<open>The state after a chunk is counted and its suffix is to be written.\<close>

definition counted :: "string \<Rightarrow> transfer \<Rightarrow> transfer" where
  "counted chunk t = t\<lparr>tr_stats := record_bytes_rcvd (of_nat (length chunk)) (tr_stats t),
     tr_file := (tr_file t)\<lparr>pf_received := pf_received (tr_file t) + length chunk\<rparr>\<rparr>"

lemma counted_simps [simp]:
  "pf_file (tr_file (counted c t)) = pf_file (tr_file t)" "pf_written (tr_file (counted c t)) = pf_written (tr_file t)"
  "pf_expected_size (tr_file (counted c t)) = pf_expected_size (tr_file t)" "tr_progress (counted c t) = tr_progress t"
  "pf_received (tr_file (counted c t)) = pf_received (tr_file t) + length c"
  "clean_file (tr_file (counted c t)) = clean_file (tr_file t)" "hashed (tr_file (counted c t)) = hashed (tr_file t)"
  by (simp_all add: counted_def clean_file_def hashed_def)

lemma advances_counted [simp, intro]: "advances t (counted c t)"
  by (rule advances_append [of _ _ "[]"]) simp_all

lemma receive_loop_chunk:
  fixes n t chunk
  defines "k \<equiv> min (n - pf_received (tr_file t)) (length chunk)"
  shows "receive_loop sha1 n h (Chunk chunk w # es) replay t =
    (if pf_expected_size (tr_file t) < pf_received (tr_file t) + length chunk
     then (Some (SizeExceeded (pf_expected_size (tr_file t))), counted chunk t)
     else if 0 < k \<and> pf_received (tr_file t) + k = n \<and> sha1 (replay @ take k chunk) \<noteq> h then (Some PrefixMismatch, counted chunk t)
     else case write_suffix (drop k chunk) w (counted chunk t) of
         (Some e, t2) \<Rightarrow> (Some e, t2)
       | (None, t2) \<Rightarrow> receive_loop sha1 n h es (replay @ take k chunk) t2)"
proof -
  have "(if 0 < k then replay @ take k chunk else replay) = replay @ take k chunk" by simp
  then show ?thesis unfolding k_def by (simp only: receive_loop.simps Let_def counted_def if_False if_True cong: if_cong)
qed

lemma receive_loop_step:
  assumes "\<not> pf_expected_size (tr_file t) < pf_received (tr_file t) + length chunk"
    and "\<not> (0 < min (n - pf_received (tr_file t)) (length chunk)
           \<and> pf_received (tr_file t) + min (n - pf_received (tr_file t)) (length chunk) = n
           \<and> sha1 (replay @ take (min (n - pf_received (tr_file t)) (length chunk)) chunk) \<noteq> h)"
    and "write_suffix (drop (min (n - pf_received (tr_file t)) (length chunk)) chunk) w (counted chunk t) = (e, t2)"
  shows "receive_loop sha1 n h (Chunk chunk w # es) replay t =
    (case e of Some x \<Rightarrow> (Some x, t2)
     | None \<Rightarrow> receive_loop sha1 n h es (replay @ take (min (n - pf_received (tr_file t)) (length chunk)) chunk) t2)"
  unfolding receive_loop_chunk if_not_P [OF assms(1)] if_not_P [OF assms(2)] assms(3) by (simp split: option.split)

lemma in_step_chunk:
  assumes "in_step n t" "pf_received (tr_file t) + length chunk \<le> pf_expected_size (tr_file t)"
    and "write_suffix (drop (min (n - pf_received (tr_file t)) (length chunk)) chunk) w (counted chunk t) = (None, t2)"
  shows "in_step n t2 \<and> pf_received (tr_file t2) = pf_received (tr_file t) + length chunk
    \<and> pf_expected_size (tr_file t2) = pf_expected_size (tr_file t)"
proof -
  let ?r = "pf_received (tr_file t)"
  let ?s = "drop (min (n - ?r) (length chunk)) chunk"
  have w: "pf_written (tr_file t) = max n ?r" "clean_file (tr_file t)" using assms(1) by (simp_all add: in_step_def)
  have fit: "pf_written (tr_file (counted chunk t)) + length ?s \<le> pf_expected_size (tr_file (counted chunk t))"
    using w assms(2) by (auto simp: clean_file_def hashed_def)
  have cl: "clean_file (tr_file (counted chunk t))" using w(2) by simp
  note s = write_suffix_spec [OF cl fit assms(3)]
  then have c2: "clean_file (tr_file t2)" and f2: "pf_file (tr_file t2) = pf_file (tr_file t) @ ?s"
    and r2: "pf_received (tr_file t2) = ?r + length chunk" by simp_all
  then have "pf_written (tr_file t2) = pf_written (tr_file t) + length ?s" using w(2) by (simp add: clean_file_def)
  then have "pf_written (tr_file t2) = max n (?r + length chunk)" using w(1) by (auto simp: max_def min_def)
  moreover have "pf_expected_size (tr_file t2) = pf_expected_size (tr_file t)" using s by (simp add: advances_def)
  ultimately show ?thesis using c2 r2 by (simp add: in_step_def)
qed

definition received_well :: "nat \<Rightarrow> transfer \<Rightarrow> DownloadError option \<Rightarrow> transfer \<Rightarrow> bool" where
  "received_well n t r t' \<longleftrightarrow> advances t t' \<and> hashed (tr_file t')
     \<and> (r = None \<or> download_retryable (the r) \<longrightarrow> clean_file (tr_file t'))
     \<and> (r = None \<longrightarrow> pf_received (tr_file t') = pf_expected_size (tr_file t') \<and> in_step n t')"

lemma receive_chunk_spec:
  assumes "in_step n t" "receive_loop sha1 n h (Chunk chunk w # es) replay t = (r, t')"
    and IH: "\<And>replay t. in_step n t \<Longrightarrow> receive_loop sha1 n h es replay t = (r, t') \<Longrightarrow> received_well n t r t'"
  shows "received_well n t r t'"
proof -
  let ?r = "pf_received (tr_file t)"
  let ?k = "min (n - ?r) (length chunk)"
  have cl: "clean_file (tr_file t)" "hashed (tr_file t)" using assms(1) by (simp_all add: in_step_def clean_file_def)
  consider "pf_expected_size (tr_file t) < ?r + length chunk" | "?r + length chunk \<le> pf_expected_size (tr_file t)"
      "0 < ?k \<and> ?r + ?k = n \<and> sha1 (replay @ take ?k chunk) \<noteq> h"
    | "?r + length chunk \<le> pf_expected_size (tr_file t)" "\<not> (0 < ?k \<and> ?r + ?k = n \<and> sha1 (replay @ take ?k chunk) \<noteq> h)"
    by linarith
  then show ?thesis
  proof cases
    case 1
    then show ?thesis using assms(2) cl unfolding receive_loop_chunk by (auto simp: received_well_def)
  next
    case 2
    have "r = Some PrefixMismatch" "t' = counted chunk t"
      using assms(2) unfolding receive_loop_chunk if_not_P [OF leD [OF 2(1)]] if_P [OF 2(2)] by auto
    then show ?thesis using cl by (simp add: received_well_def)
  next
    case 3
    obtain e t2 where ws: "write_suffix (drop ?k chunk) w (counted chunk t) = (e, t2)" by force
    have fit: "pf_written (tr_file (counted chunk t)) + length (drop ?k chunk) \<le> pf_expected_size (tr_file (counted chunk t))"
      using assms(1) 3(1) by (auto simp: in_step_def clean_file_def hashed_def)
    have clc: "clean_file (tr_file (counted chunk t))" using cl by simp
    note sp = write_suffix_spec [OF clc fit ws]
    then have adv: "advances t t2" using advances_trans [OF advances_counted] by blast
    have step: "(case e of Some x \<Rightarrow> (Some x, t2) | None \<Rightarrow> receive_loop sha1 n h es (replay @ take ?k chunk) t2) = (r, t')"
      using assms(2) unfolding receive_loop_step [of t chunk n sha1 replay h w e t2 es, OF leD [OF 3(1)] 3(2) ws] .
    show ?thesis
    proof (cases e)
      case (Some x)
      then show ?thesis using sp adv step by (auto simp: received_well_def)
    next
      case None
      have "in_step n t2" by (rule in_step_chunk [OF assms(1) 3(1) ws [unfolded None], THEN conjunct1])
      moreover have "receive_loop sha1 n h es (replay @ take ?k chunk) t2 = (r, t')" using step None by simp
      ultimately have "received_well n t2 r t'" by (rule IH)
      then show ?thesis using advances_trans [OF adv] by (simp add: received_well_def)
    qed
  qed
qed

lemma receive_loop_spec:
  assumes "in_step n t" "receive_loop sha1 n h es replay t = (r, t')"
  shows "received_well n t r t'"
  using assms
proof (induction es arbitrary: replay t)
  case Nil
  then show ?case by (auto simp: received_well_def in_step_def clean_file_def Let_def split: if_splits)
next
  case (Cons e es)
  note st = \<open>in_step n t\<close> and run = \<open>receive_loop sha1 n h (e # es) replay t = (r, t')\<close>
  have cl: "clean_file (tr_file t)" "hashed (tr_file t)" using st by (simp_all add: in_step_def clean_file_def)
  show ?case
  proof (cases e)
    case (Chunk chunk w)
    then show ?thesis using receive_chunk_spec [OF st] run Cons.IH by blast
  qed (use run cl in \<open>auto simp: received_well_def\<close>)
qed

lemma partial_receive_spec:
  assumes "clean_file (tr_file t)" "partial_receive sha1 es t = (r, t')"
  shows "received_well (pf_written (tr_file t)) t r t'"
proof -
  let ?t = "t\<lparr>tr_file := (tr_file t)\<lparr>pf_received := 0\<rparr>\<rparr>"
  have "in_step (pf_written (tr_file t)) ?t" using assms(1) by (simp add: in_step_def clean_file_def hashed_def)
  moreover have "receive_loop sha1 (pf_written (tr_file t)) (sha1 (pf_sha1 (tr_file t))) es [] ?t = (r, t')"
    using assms(2) by (simp add: partial_receive_def Let_def)
  ultimately have "received_well (pf_written (tr_file t)) ?t r t'" by (rule receive_loop_spec)
  then show ?thesis by (simp add: received_well_def advances_def)
qed

lemma received_full:
  assumes "received_well n t None t'" "n \<le> pf_expected_size (tr_file t)"
  shows "pf_written (tr_file t') = pf_expected_size (tr_file t) \<and> pf_sha1 (tr_file t') = pf_file (tr_file t')"
proof -
  have "pf_expected_size (tr_file t') = pf_expected_size (tr_file t)" using assms(1) by (simp add: received_well_def advances_def)
  moreover have "pf_written (tr_file t') = max n (pf_expected_size (tr_file t'))" "clean_file (tr_file t')"
    using assms(1) by (simp_all add: received_well_def in_step_def)
  ultimately show ?thesis using assms(2) by (simp add: clean_file_def hashed_def)
qed

lemma connect_keeps: "up_hv_file (snd (connect env u)) = up_hv_file u"
proof (induction env u rule: connect.induct)
  case (1 env u)
  have "up_hv_file (snd (try_next_source env u)) = up_hv_file u" by (simp add: try_next_source_def Let_def)
  then show ?case using 1 [OF refl] by (auto simp: connect.simps [of env u] Let_def split: sum.split)
qed

definition recovered_well :: "digest \<Rightarrow> 'u Upstream \<Rightarrow> transfer \<Rightarrow> DownloadError option \<times> 'u Upstream \<times> transfer \<Rightarrow> bool" where
  "recovered_well sha1 u t res \<longleftrightarrow>
     (case res of (r, u', t') \<Rightarrow> advances t t' \<and> hashed (tr_file t')
       \<and> up_attempts u' \<le> max MAX_ATTEMPTS (up_attempts u)
       \<and> (r = None \<longrightarrow> pf_written (tr_file t') = pf_expected_size (tr_file t)
            \<and> length (pf_file (tr_file t')) = pf_written (tr_file t')
            \<and> hex_encode (sha1 (pf_file (tr_file t'))) = sha1_str (hv_hash (up_hv_file u))))"

lemma recover_spec:
  assumes "clean_file (tr_file t)"
  shows "recovered_well sha1 u t (recover env sha1 es u t)"
  using assms
proof (induction env sha1 es u t rule: recover.induct)
  case (1 env sha1 es u t)
  obtain r t1 where rt: "partial_receive sha1 es t = (r, t1)" by force
  note w = partial_receive_spec [OF 1(2) rt]
  show ?case
  proof (cases r)
    case None
    have le: "pf_written (tr_file t) \<le> pf_expected_size (tr_file t)" using 1(2) by (simp add: clean_file_def hashed_def)
    have "pf_written (tr_file t1) = pf_expected_size (tr_file t)" "pf_sha1 (tr_file t1) = pf_file (tr_file t1)"
      using received_full [OF w [unfolded None] le] by simp_all
    moreover have "clean_file (tr_file t1)" "advances t t1" "hashed (tr_file t1)" using w None by (simp_all add: received_well_def)
    ultimately show ?thesis using rt None
      by (simp add: recover.simps [of env sha1 es u t] Let_def recovered_well_def partial_finish_def clean_file_def
          split: write_result.split)
  next
    case (Some e)
    let ?u = "u\<lparr>up_retained := pf_written (tr_file t1)\<rparr>"
    have adv: "advances t t1" "hashed (tr_file t1)" using w by (simp_all add: received_well_def)
    show ?thesis
    proof (cases "\<not> download_retryable e \<or> MAX_ATTEMPTS \<le> up_attempts u")
      case True
      then show ?thesis using rt Some adv
        by (auto simp: recover.simps [of env sha1 es u t] Let_def recovered_well_def)
    next
      case False
      obtain c u1 where c: "connect env ?u = (c, u1)" by force
      have at: "up_attempts u < up_attempts u1" "up_attempts u1 \<le> MAX_ATTEMPTS" "up_hv_file u1 = up_hv_file u"
        using connect_attempts [of ?u env] connect_keeps [of env ?u] c False by auto
      show ?thesis
      proof (cases c)
        case (Inl x)
        then show ?thesis using rt Some False c adv at
          by (simp add: recover.simps [of env sha1 es u t] Let_def recovered_well_def)
      next
        case (Inr es1)
        have cl: "clean_file (tr_file t1)" using w Some False by (simp add: received_well_def)
        have eq: "recover env sha1 es u t = recover env sha1 es1 u1 t1"
          using rt Some False c Inr by (simp add: recover.simps [of env sha1 es u t] Let_def)
        have "recovered_well sha1 u1 t1 (recover env sha1 es1 u1 t1)"
          using 1(1) [of "(r, t1)" t1 e ?u "(c, u1)" es1] rt Some False c Inr cl by simp
        moreover have "pf_expected_size (tr_file t1) = pf_expected_size (tr_file t)" using adv(1) by (simp add: advances_def)
        ultimately show ?thesis unfolding eq using at advances_trans [OF adv(1)]
          by (auto simp: recovered_well_def split: prod.splits)
      qed
    qed
  qed
qed

text \<open>
  Independent of how the body is cut into chunks: an attempt succeeds only if the body has the
  expected length and begins with bytes of the retained hash, and it then appends the rest.
\<close>

lemma receive_loop_body:
  assumes "in_step n t" "receive_loop sha1 n h es replay t = (None, t')"
  shows "pf_received (tr_file t) + length (body_of es) = pf_expected_size (tr_file t)
    \<and> (pf_received (tr_file t) < n \<and> n \<le> pf_expected_size (tr_file t) \<longrightarrow> sha1 (replay @ take (n - pf_received (tr_file t)) (body_of es)) = h)
    \<and> pf_file (tr_file t') = pf_file (tr_file t) @ drop (n - pf_received (tr_file t)) (body_of es)"
  using assms
proof (induction es arbitrary: replay t)
  case Nil
  then show ?case by (auto simp: Let_def split: if_splits)
next
  case (Cons e es)
  obtain chunk w where e: "e = Chunk chunk w" using Cons.prems(2) by (cases e) auto
  let ?r = "pf_received (tr_file t)"
  let ?k = "min (n - ?r) (length chunk)"
  have le: "?r + length chunk \<le> pf_expected_size (tr_file t)"
    using Cons.prems(2) unfolding e receive_loop_chunk by (auto split: if_splits)
  have mm: "\<not> (0 < ?k \<and> ?r + ?k = n \<and> sha1 (replay @ take ?k chunk) \<noteq> h)"
    using Cons.prems(2) unfolding e receive_loop_chunk if_not_P [OF leD [OF le]] by (metis option.distinct(1) prod.inject)
  obtain x t2 where ws: "write_suffix (drop ?k chunk) w (counted chunk t) = (x, t2)" by force
  have step: "(case x of Some y \<Rightarrow> (Some y, t2) | None \<Rightarrow> receive_loop sha1 n h es (replay @ take ?k chunk) t2) = (None, t')"
    using Cons.prems(2) unfolding e receive_loop_step [of t chunk n sha1 replay h w x t2 es, OF leD [OF le] mm ws] .
  then have x: "x = None" and rest: "receive_loop sha1 n h es (replay @ take ?k chunk) t2 = (None, t')"
    by (auto split: option.splits)
  note st = in_step_chunk [OF Cons.prems(1) le ws [unfolded x]]
  have f2: "pf_file (tr_file t2) = pf_file (tr_file t) @ drop ?k chunk"
    using ws x by (cases w) (auto simp: write_suffix_def Let_def split: if_splits)
  note ih = Cons.IH [OF conjunct1 [OF st] rest]
  have "n - (?r + length chunk) = n - ?r - length chunk" by simp
  then show ?case using ih st f2 mm unfolding e
    by (cases "n - ?r \<le> length chunk") (auto simp: min_def)
qed

definition all_written :: "body_event list \<Rightarrow> bool" where
  "all_written es \<longleftrightarrow> list_all (\<lambda>e. case e of Chunk _ Write_ok \<Rightarrow> True | _ \<Rightarrow> False) es"

lemma receive_loop_succeeds:
  assumes "in_step n t" "all_written es" "pf_received (tr_file t) + length (body_of es) = pf_expected_size (tr_file t)"
    and "pf_received (tr_file t) < n \<longrightarrow> sha1 (replay @ take (n - pf_received (tr_file t)) (body_of es)) = h"
  shows "fst (receive_loop sha1 n h es replay t) = None"
  using assms
proof (induction es arbitrary: replay t)
  case Nil
  then show ?case by (simp add: Let_def)
next
  case (Cons e es)
  obtain chunk where e: "e = Chunk chunk Write_ok" and es: "all_written es"
    using Cons.prems(2) by (auto simp: all_written_def split: body_event.splits write_result.splits)
  let ?r = "pf_received (tr_file t)"
  let ?k = "min (n - ?r) (length chunk)"
  have le: "?r + length chunk \<le> pf_expected_size (tr_file t)" using Cons.prems(3) e by simp
  have mm: "\<not> (0 < ?k \<and> ?r + ?k = n \<and> sha1 (replay @ take ?k chunk) \<noteq> h)"
    using Cons.prems(4) e by (cases "n - ?r \<le> length chunk") (auto simp: min_def)
  obtain x t2 where ws: "write_suffix (drop ?k chunk) Write_ok (counted chunk t) = (x, t2)" by force
  then have x: "x = None" by (auto simp: write_suffix_def Let_def split: if_splits)
  note st = in_step_chunk [OF Cons.prems(1) le ws [unfolded x]]
  have "n - (?r + length chunk) = n - ?r - length chunk" by simp
  then have "pf_received (tr_file t2) < n \<longrightarrow>
      sha1 ((replay @ take ?k chunk) @ take (n - pf_received (tr_file t2)) (body_of es)) = h"
    using Cons.prems(4) st e by (auto simp: min_def)
  then have "fst (receive_loop sha1 n h es (replay @ take ?k chunk) t2) = None"
    using st Cons.prems(3) e by (intro Cons.IH [OF _ es]) auto
  then show ?case unfolding e receive_loop_step [of t chunk n sha1 replay h Write_ok x t2 es, OF leD [OF le] mm ws] x by simp
qed

subsection \<open>Properties\<close>

text \<open>
  An attempt on a file with retained bytes depends only on the whole body, not on its chunks: when
  every write succeeds it ends well exactly if the body has the expected length and the digest of its
  first bytes is that of the retained ones, and then exactly the rest of the body is appended.
\<close>

theorem attempt_exact:
  assumes "clean_file (tr_file t)" "all_written es"
  shows "(fst (partial_receive sha1 es t) = None \<longleftrightarrow>
      length (body_of es) = pf_expected_size (tr_file t)
      \<and> sha1 (take (pf_written (tr_file t)) (body_of es)) = sha1 (pf_file (tr_file t)))
    \<and> (fst (partial_receive sha1 es t) = None \<longrightarrow>
      pf_file (tr_file (snd (partial_receive sha1 es t))) = pf_file (tr_file t) @ drop (pf_written (tr_file t)) (body_of es))"
proof -
  let ?t = "t\<lparr>tr_file := (tr_file t)\<lparr>pf_received := 0\<rparr>\<rparr>" and ?n = "pf_written (tr_file t)"
  have st: "in_step ?n ?t" using assms(1) by (simp add: in_step_def clean_file_def hashed_def)
  have n: "?n \<le> pf_expected_size (tr_file t)" "pf_sha1 (tr_file t) = pf_file (tr_file t)" "?n = 0 \<Longrightarrow> pf_file (tr_file t) = []"
    using assms(1) by (simp_all add: clean_file_def hashed_def)
  have eq: "partial_receive sha1 es t = receive_loop sha1 ?n (sha1 (pf_file (tr_file t))) es [] ?t"
    using n by (simp add: partial_receive_def Let_def)
  obtain r t' where rt: "receive_loop sha1 ?n (sha1 (pf_file (tr_file t))) es [] ?t = (r, t')" by force
  show ?thesis
  proof (cases r)
    case None
    then show ?thesis using receive_loop_body [OF st rt [unfolded None]] n eq rt by (cases "?n = 0") auto
  next
    case (Some e)
    then show ?thesis using receive_loop_succeeds [OF st assms(2), of sha1 "[]" "sha1 (pf_file (tr_file t))"] n eq rt by auto
  qed
qed


text \<open>The first source breaks off after three bytes; the second replays them and completes the file.\<close>

definition sample_hv4 :: HVFile where
  "sample_hv4 = \<lparr>hv_hash = Sha1Hash ''61626364'', hv_size = 4, hv_xres = 0, hv_yres = 0, hv_file_type = Jpeg,
     fileid_cache = FileId ''61626364-4-jpg''\<rparr>"

definition sample_sha1 :: digest where
  "sample_sha1 s = map (\<lambda>ch. of_nat (char_code ch)) s"

definition sample_env :: "nat upstream_env" where
  "sample_env = \<lparr>env_get = (\<lambda>n s. Answer 200 (Some 4) [Chunk ''ab'' Write_ok, Chunk ''cd'' Write_ok]),
     env_open_ok = True, env_flush = Write_ok\<rparr>"

definition sample_upstream :: "nat Upstream" where
  "sample_upstream = \<lparr>up_sources = [7, 8], up_hath_request = [], up_hv_file = sample_hv4,
     up_max_allowed_filesize = 100, up_attempts = 1, up_retained = 0\<rparr>"

definition sample_partial :: "body_event list" where
  "sample_partial = [Chunk ''abc'' Write_ok, Body_error (False, [''reset''])]"

lemmas upstream_eval = partial_receive_def Let_def write_suffix_def sample_sha1_def char_code_def download_retryable_def
  MAX_ATTEMPTS_def record_bytes_rcvd_def

lemma sample_recovers:
  "\<exists>u' t. upstream_download sample_env sample_sha1 sample_partial sample_upstream [InProgress 0] st = (None, u', Some t)
     \<and> up_attempts u' = 2 \<and> pf_file (tr_file t) = ''abcd''"
proof -
  let ?t0 = "\<lparr>tr_file = \<lparr>pf_file = [], pf_written = 0, pf_received = 0, pf_expected_size = 4, pf_sha1 = []\<rparr>,
      tr_progress = [InProgress 0], tr_stats = st\<rparr>"
  have c: "connect sample_env (sample_upstream\<lparr>up_retained := 3\<rparr>)
      = (Inr [Chunk ''ab'' Write_ok, Chunk ''cd'' Write_ok], sample_upstream\<lparr>up_retained := 3, up_attempts := 2\<rparr>)"
    by (simp add: connect.simps try_next_source_def Let_def sample_env_def sample_upstream_def sample_hv4_def
        validate_proxy_response_def)
  obtain t1 where r1: "partial_receive sample_sha1 sample_partial ?t0 = (Some (Body_failed (False, [''reset''])), t1)"
      "tr_file t1 = \<lparr>pf_file = ''abc'', pf_written = 3, pf_received = 3, pf_expected_size = 4, pf_sha1 = ''abc''\<rparr>"
    by (simp add: sample_partial_def upstream_eval)
  obtain t2 where r2: "partial_receive sample_sha1 [Chunk ''ab'' Write_ok, Chunk ''cd'' Write_ok] t1 = (None, t2)"
      "pf_sha1 (tr_file t2) = ''abcd''" "pf_file (tr_file t2) = ''abcd''"
    using r1(2) by (simp add: upstream_eval)
  have h: "hex_encode (sample_sha1 ''abcd'') = ''61626364''"
    by (simp add: hex_encode_def hex_byte_def sample_sha1_def char_code_def hex_digit_def char_of_def bit_0)
  have "recover sample_env sample_sha1 [Chunk ''ab'' Write_ok, Chunk ''cd'' Write_ok] (sample_upstream\<lparr>up_retained := 3, up_attempts := 2\<rparr>) t1
      = (None, sample_upstream\<lparr>up_retained := 3, up_attempts := 2\<rparr>, t2)"
    by (simp add: recover.simps r2 Let_def partial_finish_def h sample_env_def sample_upstream_def sample_hv4_def)
  then have "recover sample_env sample_sha1 sample_partial sample_upstream ?t0
      = (None, sample_upstream\<lparr>up_retained := 3, up_attempts := 2\<rparr>, t2)"
    using c by (simp add: recover.simps [of sample_env sample_sha1 sample_partial sample_upstream] r1 Let_def download_retryable_def
        MAX_ATTEMPTS_def) (simp add: sample_upstream_def)
  then show ?thesis using r2(3)
    by (simp add: upstream_download_def PartialFile_open_def expected_size_def sample_env_def)
       (simp add: sample_upstream_def sample_hv4_def)
qed


theorem attempt_exact_witness:
  "pf_file (tr_file (snd (partial_receive sample_sha1 [Chunk ''ab'' Write_ok, Chunk ''cd'' Write_ok]
     \<lparr>tr_file = \<lparr>pf_file = ''abc'', pf_written = 3, pf_received = 0, pf_expected_size = 4, pf_sha1 = ''abc''\<rparr>,
       tr_progress = [], tr_stats = Stats_new\<rparr>))) = ''abcd''"
  using attempt_exact [of "\<lparr>tr_file = \<lparr>pf_file = ''abc'', pf_written = 3, pf_received = 0, pf_expected_size = 4, pf_sha1 = ''abc''\<rparr>,
       tr_progress = [], tr_stats = Stats_new\<rparr>" "[Chunk ''ab'' Write_ok, Chunk ''cd'' Write_ok]" sample_sha1]
  by (simp add: clean_file_def hashed_def all_written_def)

end
