(* ===== verification/Hath_Body.thy ===== *)
theory Hath_Body
  imports Hath_Upstream Hath_Cache
begin

text \<open>
  Streaming response bodies, \<^verbatim>\<open>src/src/server/body.rs\<close>: static, random, cached-file and proxied
  data, sent in packets that may have to wait for bandwidth. A proxied body reads a file that another
  task is still writing, guarded by the progress that task publishes.

  One round of the loop in \<^verbatim>\<open>poll_frame\<close> is a function of what it observes: whether a pending future
  is ready, the latest progress value, the bytes of the open file and how much a read returns. The
  shared counters are those of the cache handler. The requests to the bandwidth monitor that were
  granted are kept as a list. Futures in the body are flags or the amount they wait for.
\<close>

definition TCP_PACKET_SIZE :: nat where
  "TCP_PACKET_SIZE = 1460"

definition FILE_BUFFER_SIZE :: nat where
  "FILE_BUFFER_SIZE = 65536"

definition SPEEDTEST_RANDOM_LENGTH :: nat where
  "SPEEDTEST_RANDOM_LENGTH = 8192"

text \<open>An open file: the position of the handle and the bytes read ahead.\<close>

record file_reader =
  fr_cursor :: nat
  fr_buf :: string

text \<open>
  A file source has the bytes its hash was fed, the expected hash, the file to delete on a mismatch and
  whether it knows the cache; a proxy source whether it waits and whether it still holds the sender that
  signals its end.
\<close>

datatype DataSource =
    Static string
  | Random string
  | File_source file_reader string string "path option" bool
  | Proxy file_reader bool bool

datatype BodyIncompleteReason = Unknown | FileEndedEarly | FileReadError | ProxyEndedEarly | ProxyTimeout | ProxyReadError

definition reason_as_str :: "BodyIncompleteReason \<Rightarrow> string" where
  "reason_as_str r =
     (case r of Unknown \<Rightarrow> ''unknown'' | FileEndedEarly \<Rightarrow> ''file_ended_early'' | FileReadError \<Rightarrow> ''file_read_error''
      | ProxyEndedEarly \<Rightarrow> ''proxy_ended_early'' | ProxyTimeout \<Rightarrow> ''proxy_timeout'' | ProxyReadError \<Rightarrow> ''proxy_read_error'')"

datatype BodyCompletion = Body_running | Complete | Incomplete BodyIncompleteReason

record StreamingBody =
  sb_source :: DataSource
  sb_offset :: nat
  sb_total_size :: nat
  sb_bwm :: bool
  sb_throttle_fut :: "nat option"
  sb_throttled :: bool
  sb_completion :: BodyCompletion
  sb_traffic_stats :: bool
  sb_proxy_file_stats :: bool

record BodyCompletionSnapshot =
  bs_completion :: BodyCompletion
  bs_offset :: nat
  bs_total_size :: nat

record FileBodyParams =
  fp_path :: path
  fp_total_size :: nat
  fp_expected_hash :: string
  fp_verify :: bool
  fp_cache_handler :: bool

subsection \<open>Constructors\<close>

definition new_reader :: file_reader where
  "new_reader = \<lparr>fr_cursor = 0, fr_buf = []\<rparr>"

definition body_with :: "DataSource \<Rightarrow> nat \<Rightarrow> bool \<Rightarrow> StreamingBody" where
  "body_with src n file_stats =
     \<lparr>sb_source = src, sb_offset = 0, sb_total_size = n, sb_bwm = False, sb_throttle_fut = None, sb_throttled = False,
      sb_completion = Body_running, sb_traffic_stats = False, sb_proxy_file_stats = file_stats\<rparr>"

definition from_bytes :: "string \<Rightarrow> StreamingBody" where
  "from_bytes data = body_with (Static data) (length data) False"

definition StreamingBody_new :: "string \<Rightarrow> StreamingBody" where
  "StreamingBody_new data = from_bytes data"

definition StreamingBody_empty :: StreamingBody where
  "StreamingBody_empty = from_bytes []"

definition new_file :: "FileBodyParams \<Rightarrow> StreamingBody" where
  "new_file p =
     body_with (File_source new_reader [] (fp_expected_hash p) (if fp_verify p then Some (fp_path p) else None) (fp_cache_handler p))
       (fp_total_size p) False"

text \<open>The random pool is filled by a generator, a parameter of 8192 bytes.\<close>

definition new_random :: "string \<Rightarrow> nat \<Rightarrow> StreamingBody" where
  "new_random random_bytes n = body_with (Random random_bytes) n False"

definition new_proxy :: "nat \<Rightarrow> bool \<Rightarrow> StreamingBody" where
  "new_proxy n file_stats = body_with (Proxy new_reader False True) n file_stats"

definition enable_traffic_accounting :: "StreamingBody \<Rightarrow> StreamingBody" where
  "enable_traffic_accounting b = b\<lparr>sb_traffic_stats := True\<rparr>"

definition enable_flow_control :: "StreamingBody \<Rightarrow> StreamingBody" where
  "enable_flow_control b = b\<lparr>sb_bwm := True\<rparr>"

definition completion_status :: "StreamingBody \<Rightarrow> BodyCompletionSnapshot" where
  "completion_status b = \<lparr>bs_completion = sb_completion b, bs_offset = sb_offset b, bs_total_size = sb_total_size b\<rparr>"

definition size_hint :: "StreamingBody \<Rightarrow> nat option" where
  "size_hint b = (if 0 < sb_total_size b then Some (sb_total_size b) else None)"

subsection \<open>Finishing\<close>

record body_world =
  bw_handler :: CacheHandler
  bw_fs :: fs
  bw_quota :: "nat list"

text \<open>What finishing does to the source and the cache: a corrupt file that was sent completely is deleted.\<close>

definition finish_source :: "digest \<Rightarrow> os \<Rightarrow> Config \<Rightarrow> bool \<Rightarrow> DataSource \<Rightarrow> body_world \<Rightarrow> DataSource \<times> body_world" where
  "finish_source sha1 os c completed src w =
     (case src of
        File_source r fed h del cache \<Rightarrow>
          if \<not> completed then (src, w)
          else (case del of
              None \<Rightarrow> (src, w)
            | Some p \<Rightarrow>
                let w1 = (if hex_encode (sha1 fed) \<noteq> h \<and> cache \<and> p \<noteq> []
                          then (case delete_file_from_cache os c (file_name p) (bw_handler w, bw_fs w) of
                                  (_, h1, f1) \<Rightarrow> w\<lparr>bw_handler := h1, bw_fs := f1\<rparr>)
                          else w)
                in (File_source r [] h None cache, w1))
      | Proxy r wt tx \<Rightarrow> (Proxy r wt False, w)
      | _ \<Rightarrow> (src, w))"

definition is_proxy :: "DataSource \<Rightarrow> bool" where
  "is_proxy src \<longleftrightarrow> (case src of Proxy _ _ _ \<Rightarrow> True | _ \<Rightarrow> False)"

definition count_stats :: "(Stats \<Rightarrow> Stats) \<Rightarrow> body_world \<Rightarrow> body_world" where
  "count_stats g w = w\<lparr>bw_handler := (bw_handler w)\<lparr>ch_stats := g (ch_stats (bw_handler w))\<rparr>\<rparr>"

definition finish_with :: "digest \<Rightarrow> os \<Rightarrow> Config \<Rightarrow> BodyIncompleteReason option \<Rightarrow> StreamingBody \<times> body_world
    \<Rightarrow> StreamingBody \<times> body_world" where
  "finish_with sha1 os c reason bw =
     (case bw of (b, w) \<Rightarrow>
        let completed = sb_total_size b \<le> sb_offset b;
            b1 = (if sb_completion b = Body_running
                  then b\<lparr>sb_completion := (if completed then Complete
                                           else Incomplete (case reason of None \<Rightarrow> Unknown | Some r \<Rightarrow> r))\<rparr>
                  else b);
            (src, w1) = finish_source sha1 os c completed (sb_source b1) w;
            b2 = b1\<lparr>sb_source := src\<rparr>
        in if completed \<and> is_proxy src \<and> sb_proxy_file_stats b2
           then (b2\<lparr>sb_proxy_file_stats := False\<rparr>, count_stats record_file_sent w1)
           else (b2, w1))"

definition body_drop :: "digest \<Rightarrow> os \<Rightarrow> Config \<Rightarrow> StreamingBody \<times> body_world \<Rightarrow> StreamingBody \<times> body_world" where
  "body_drop sha1 os c bw = finish_with sha1 os c None bw"

subsection \<open>Reading ahead\<close>

record poll_obs =
  ob_throttle_ready :: bool
  ob_watch :: DownloadState
  ob_sender_gone :: bool
  ob_wait_ready :: bool
  ob_content :: string
  ob_read :: "nat \<Rightarrow> nat option"
  ob_random :: u32

text \<open>
  A read at a position fails, or returns some bytes, at least one when the file has more. The spare
  capacity that \<^verbatim>\<open>reserve\<close> provides is at least what was asked for.
\<close>

function fill_file_buffer_limited :: "poll_obs \<Rightarrow> nat \<Rightarrow> nat \<Rightarrow> file_reader \<Rightarrow> bool \<times> file_reader" where
  "fill_file_buffer_limited ob need remaining_read r =
     (if length (fr_buf r) < need \<and> 0 < remaining_read then
        let read_target = min (max (FILE_BUFFER_SIZE - length (fr_buf r)) (need - length (fr_buf r))) remaining_read in
        case ob_read ob (fr_cursor r) of
          None \<Rightarrow> (False, r)
        | Some k \<Rightarrow>
            let n = min (min read_target (Suc k)) (length (ob_content ob) - fr_cursor r) in
            if n = 0 then (True, r)
            else fill_file_buffer_limited ob need (remaining_read - n)
                   \<lparr>fr_cursor = fr_cursor r + n, fr_buf = fr_buf r @ take n (drop (fr_cursor r) (ob_content ob))\<rparr>
      else (True, r))"
  by pat_completeness auto
termination
proof (relation "measure (\<lambda>(ob, need, remaining, r). remaining)", goal_cases)
  case (2 ob need remaining_read r read_target k n)
  then have "0 < remaining_read" "0 < n" by blast+
  then show ?case by (simp only: in_measure split_conv diff_less)
qed simp

declare fill_file_buffer_limited.simps [simp del]

definition fill_file_buffer :: "poll_obs \<Rightarrow> nat \<Rightarrow> file_reader \<Rightarrow> bool \<times> file_reader" where
  "fill_file_buffer ob need r = fill_file_buffer_limited ob need (2 ^ 64 - 1) r"

subsection \<open>Polling\<close>

datatype poll_step = Continue | Pending | Frame string | End_of_body

datatype proxy_gate = Gate_ready | Gate_pending | Gate_continue | Gate_failed BodyIncompleteReason

definition fail_incomplete :: "DownloadFailReason \<Rightarrow> BodyIncompleteReason" where
  "fail_incomplete r = (case r of Fail_Timeout \<Rightarrow> ProxyTimeout | NetworkError \<Rightarrow> ProxyReadError | _ \<Rightarrow> ProxyEndedEarly)"

text \<open>The gate of a proxied body, with the new state of the waiting future.\<close>

definition proxy_check :: "poll_obs \<Rightarrow> nat \<Rightarrow> nat \<Rightarrow> proxy_gate \<times> bool" where
  "proxy_check ob offset_n total_n =
     (let need = min TCP_PACKET_SIZE (total_n - offset_n);
          (write_offset, fail) =
            (case ob_watch ob of
               InProgress n \<Rightarrow> (n, if ob_sender_gone ob then Some ProxyEndedEarly else None)
             | Download_done \<Rightarrow> (total_n, None)
             | Failed reason \<Rightarrow> (0, Some (fail_incomplete reason)))
      in if offset_n + need \<le> write_offset then (Gate_ready, False)
         else case fail of
             Some incomplete \<Rightarrow> (Gate_failed incomplete, True)
           | None \<Rightarrow> if ob_wait_ready ob then (Gate_continue, False) else (Gate_pending, True))"

datatype chunk_result = Chunk_data string | Chunk_done BodyIncompleteReason

definition take_chunk :: "nat \<Rightarrow> file_reader \<Rightarrow> string \<times> file_reader" where
  "take_chunk n r = (take n (fr_buf r), r\<lparr>fr_buf := drop n (fr_buf r)\<rparr>)"

definition produce_chunk :: "poll_obs \<Rightarrow> StreamingBody \<Rightarrow> chunk_result \<times> DataSource" where
  "produce_chunk ob b =
     (let offset_n = sb_offset b; total_n = sb_total_size b;
          actual_size = min (offset_n + TCP_PACKET_SIZE) total_n - offset_n
      in case sb_source b of
          Static data \<Rightarrow>
            (let chunk_size = (if \<not> sb_bwm b then total_n - offset_n else TCP_PACKET_SIZE);
                 end_n = min (offset_n + chunk_size) total_n
             in (Chunk_data (take (end_n - offset_n) (drop offset_n data)), sb_source b))
        | Random random_bytes \<Rightarrow>
            (let max_start = length random_bytes - actual_size;
                 start = (if max_start = 0 then 0 else unat (ob_random ob) mod (max_start + 1))
             in (Chunk_data (take actual_size (drop start random_bytes)), sb_source b))
        | File_source r fed h del cache \<Rightarrow>
            (case fill_file_buffer ob actual_size r of
               (False, r1) \<Rightarrow> (Chunk_done FileReadError, File_source r1 fed h del cache)
             | (True, r1) \<Rightarrow>
                 if fr_buf r1 = [] then (Chunk_done FileEndedEarly, File_source r1 fed h del cache)
                 else (case take_chunk (min actual_size (length (fr_buf r1))) r1 of
                         (chunk, r2) \<Rightarrow> (Chunk_data chunk, File_source r2 (fed @ chunk) h del cache)))
        | Proxy r wt tx \<Rightarrow>
            (case fill_file_buffer ob actual_size r of
               (False, r1) \<Rightarrow> (Chunk_done ProxyReadError, Proxy r1 wt tx)
             | (True, r1) \<Rightarrow>
                 if fr_buf r1 = [] then (Chunk_done ProxyEndedEarly, Proxy r1 wt tx)
                 else (case take_chunk (min actual_size (length (fr_buf r1))) r1 of
                         (chunk, r2) \<Rightarrow> (Chunk_data chunk, Proxy r2 wt tx))))"

definition set_wait :: "bool \<Rightarrow> DataSource \<Rightarrow> DataSource" where
  "set_wait v src = (case src of Proxy r _ tx \<Rightarrow> Proxy r v tx | _ \<Rightarrow> src)"

text \<open>Steps 4 and 5: wait for bandwidth, then send a chunk.\<close>

definition send_step :: "digest \<Rightarrow> os \<Rightarrow> Config \<Rightarrow> poll_obs \<Rightarrow> StreamingBody \<times> body_world
    \<Rightarrow> poll_step \<times> StreamingBody \<times> body_world" where
  "send_step sha1 os c ob bw =
     (case bw of (b, w) \<Rightarrow>
        if \<not> sb_throttled b \<and> sb_bwm b \<and> sb_throttle_fut b = None
        then (Continue, b\<lparr>sb_throttle_fut := Some (min TCP_PACKET_SIZE (sb_total_size b - sb_offset b))\<rparr>, w)
        else
          let b1 = b\<lparr>sb_throttled := False\<rparr> in
          case produce_chunk ob b1 of
            (Chunk_data chunk, src) \<Rightarrow>
              (Frame chunk, b1\<lparr>sb_source := src, sb_offset := sb_offset b1 + length chunk\<rparr>,
               if sb_traffic_stats b1 then count_stats (record_bytes_sent (of_nat (length chunk))) w else w)
          | (Chunk_done reason, src) \<Rightarrow>
              (End_of_body, finish_with sha1 os c (Some reason) (b1\<lparr>sb_source := src\<rparr>, w)))"

text \<open>Step 1: the throttle future has completed.\<close>

definition throttle_done :: "StreamingBody \<times> body_world \<Rightarrow> StreamingBody \<times> body_world" where
  "throttle_done bw =
     (case bw of (b, w) \<Rightarrow>
        case sb_throttle_fut b of
          None \<Rightarrow> (b, w)
        | Some n \<Rightarrow> (b\<lparr>sb_throttle_fut := None, sb_throttled := True\<rparr>, w\<lparr>bw_quota := bw_quota w @ [n]\<rparr>))"

definition poll_round :: "digest \<Rightarrow> os \<Rightarrow> Config \<Rightarrow> poll_obs \<Rightarrow> StreamingBody \<times> body_world
    \<Rightarrow> poll_step \<times> StreamingBody \<times> body_world" where
  "poll_round sha1 os c ob bw =
     (case bw of (b0, w0) \<Rightarrow>
        if sb_throttle_fut b0 \<noteq> None \<and> \<not> ob_throttle_ready ob then (Pending, b0, w0)
        else
          let (b, w) = throttle_done (b0, w0)
          in if sb_total_size b \<le> sb_offset b then (End_of_body, finish_with sha1 os c None (b, w))
             else if is_proxy (sb_source b) then
               (case proxy_check ob (sb_offset b) (sb_total_size b) of
                  (Gate_ready, v) \<Rightarrow> send_step sha1 os c ob (b\<lparr>sb_source := set_wait v (sb_source b)\<rparr>, w)
                | (Gate_pending, v) \<Rightarrow> (Pending, b\<lparr>sb_source := set_wait v (sb_source b)\<rparr>, w)
                | (Gate_continue, v) \<Rightarrow> (Continue, b\<lparr>sb_source := set_wait v (sb_source b)\<rparr>, w)
                | (Gate_failed incomplete, _) \<Rightarrow> (End_of_body, finish_with sha1 os c (Some incomplete) (b, w)))
             else send_step sha1 os c ob (b, w))"

text \<open>The loop over what its rounds observe; \<open>None\<close>: still in the loop after the given rounds.\<close>

fun poll_frame :: "digest \<Rightarrow> os \<Rightarrow> Config \<Rightarrow> poll_obs list \<Rightarrow> StreamingBody \<times> body_world
    \<Rightarrow> (poll_step \<times> StreamingBody \<times> body_world) option" where
  "poll_frame sha1 os c [] bw = None"
| "poll_frame sha1 os c (ob # obs) bw =
     (case poll_round sha1 os c ob bw of
        (Continue, bw1) \<Rightarrow> poll_frame sha1 os c obs bw1
      | (s, bw1) \<Rightarrow> Some (s, bw1))"

text \<open>Any number of rounds, over any number of polls, with the frames they send.\<close>

fun body_rounds :: "digest \<Rightarrow> os \<Rightarrow> Config \<Rightarrow> poll_obs list \<Rightarrow> StreamingBody \<times> body_world
    \<Rightarrow> string list \<times> StreamingBody \<times> body_world" where
  "body_rounds sha1 os c [] bw = ([], bw)"
| "body_rounds sha1 os c (ob # obs) bw =
     (case poll_round sha1 os c ob bw of
        (Frame x, bw1) \<Rightarrow> (case body_rounds sha1 os c obs bw1 of (xs, bw2) \<Rightarrow> (x # xs, bw2))
      | (_, bw1) \<Rightarrow> body_rounds sha1 os c obs bw1)"

definition delivered :: "poll_step \<Rightarrow> string" where
  "delivered s = (case s of Frame x \<Rightarrow> x | _ \<Rightarrow> [])"

lemma delivered_simps [simp]:
  "delivered (Frame x) = x" "delivered Continue = []" "delivered Pending = []" "delivered End_of_body = []"
  by (simp_all add: delivered_def)

lemma body_rounds_Cons:
  "poll_round sha1 os c ob bw = (s, bw1) \<Longrightarrow>
     concat (fst (body_rounds sha1 os c (ob # obs) bw)) = delivered s @ concat (fst (body_rounds sha1 os c obs bw1))
     \<and> snd (body_rounds sha1 os c (ob # obs) bw) = snd (body_rounds sha1 os c obs bw1)"
  by (cases s) (auto split: prod.splits)

subsection \<open>The reader follows the file\<close>

definition reader_ok :: "string \<Rightarrow> nat \<Rightarrow> file_reader \<Rightarrow> bool" where
  "reader_ok content n r \<longleftrightarrow> fr_cursor r = n + length (fr_buf r) \<and> fr_cursor r \<le> length content
     \<and> fr_buf r = take (length (fr_buf r)) (drop n content)"

lemma reader_ok_grows: "reader_ok content n r \<Longrightarrow> reader_ok (content @ ext) n r"
  by (auto simp: reader_ok_def)

lemma reader_ok_new [simp]: "reader_ok content 0 new_reader"
  by (simp add: reader_ok_def new_reader_def)

lemma reader_ok_read:
  assumes "reader_ok content n r" "k \<le> length content - fr_cursor r"
  shows "reader_ok content n \<lparr>fr_cursor = fr_cursor r + k, fr_buf = fr_buf r @ take k (drop (fr_cursor r) content)\<rparr>"
proof -
  have c: "fr_cursor r = n + length (fr_buf r)" "fr_cursor r \<le> length content" using assms(1) by (simp_all add: reader_ok_def)
  have "take (length (fr_buf r) + k) (drop n content) = take (length (fr_buf r)) (drop n content) @ take k (drop (fr_cursor r) content)"
    unfolding take_add drop_drop using c by (simp add: add.commute)
  moreover have "length (take k (drop (fr_cursor r) content)) = k" using assms(2) by simp
  ultimately show ?thesis using assms c by (simp add: reader_ok_def)
qed

lemma fill_spec:
  assumes "reader_ok (ob_content ob) n r" "fill_file_buffer_limited ob need m r = (ok, r1)"
  shows "reader_ok (ob_content ob) n r1 \<and> length (fr_buf r) \<le> length (fr_buf r1)
    \<and> (ok \<longrightarrow> length (ob_content ob) - fr_cursor r < m \<longrightarrow> need \<le> length (fr_buf r1) \<or> fr_cursor r1 = length (ob_content ob))"
  using assms
proof (induction ob need m r rule: fill_file_buffer_limited.induct)
  case (1 ob need m r)
  show ?case
  proof (cases "length (fr_buf r) < need \<and> 0 < m")
    case False
    then have "(ok, r1) = (True, r)" using 1(3) unfolding fill_file_buffer_limited.simps [of ob need m r] if_not_P [OF False] by simp
    then show ?thesis using 1(2) False by auto
  next
    case True
    let ?t = "min (max (FILE_BUFFER_SIZE - length (fr_buf r)) (need - length (fr_buf r))) m"
    show ?thesis
    proof (cases "ob_read ob (fr_cursor r)")
      case None
      then have "(ok, r1) = (False, r)" using 1(3) unfolding fill_file_buffer_limited.simps [of ob need m r] if_P [OF True] by simp
      then show ?thesis using 1(2) by auto
    next
      case (Some k)
      define j where "j = min (min ?t (Suc k)) (length (ob_content ob) - fr_cursor r)"
      let ?r = "\<lparr>fr_cursor = fr_cursor r + j, fr_buf = fr_buf r @ take j (drop (fr_cursor r) (ob_content ob))\<rparr>"
      have t: "0 < ?t" using True by (simp add: FILE_BUFFER_SIZE_def less_max_iff_disj)
      have step: "(ok, r1) = (if j = 0 then (True, r) else fill_file_buffer_limited ob need (m - j) ?r)"
        using 1(3) unfolding fill_file_buffer_limited.simps [of ob need m r] if_P [OF True] Some option.case(2) Let_def j_def [symmetric]
        by (rule sym)
      have jle: "j \<le> length (ob_content ob) - fr_cursor r" unfolding j_def by (rule min.cobounded2)
      show ?thesis
      proof (cases "j = 0")
        case True
        then have "length (ob_content ob) - fr_cursor r = 0" using t unfolding j_def by (metis min_def not_less0 zero_less_Suc)
        then show ?thesis using step True 1(2) by (auto simp: reader_ok_def)
      next
        case False
        have ro: "reader_ok (ob_content ob) n ?r" by (rule reader_ok_read [OF 1(2) jle])
        have run: "fill_file_buffer_limited ob need (m - j) ?r = (ok, r1)" using step False by simp
        have "length (fr_buf ?r) = length (fr_buf r) + j" using jle by simp
        with 1(1) [OF \<open>length (fr_buf r) < need \<and> 0 < m\<close> refl Some j_def False ro run] show ?thesis using jle False by simp
      qed
    qed
  qed
qed

lemma reader_ok_take:
  assumes "reader_ok content n r" "k \<le> length (fr_buf r)"
  shows "take k (fr_buf r) = take k (drop n content) \<and> reader_ok content (n + k) (r\<lparr>fr_buf := drop k (fr_buf r)\<rparr>)"
proof -
  have b: "fr_buf r = take (length (fr_buf r)) (drop n content)" using assms(1) by (simp add: reader_ok_def)
  have "take k (fr_buf r) = take k (drop n content)" using assms(2) by (subst b) (simp add: min_def)
  moreover have d: "drop k (fr_buf r) = take (length (drop k (fr_buf r))) (drop (n + k) content)"
    unfolding length_drop by (subst b) (simp add: drop_take add.commute)
  have "fr_cursor r = n + k + length (drop k (fr_buf r))" "fr_cursor r \<le> length content"
    using assms by (simp_all add: reader_ok_def)
  then have "reader_ok content (n + k) (r\<lparr>fr_buf := drop k (fr_buf r)\<rparr>)" unfolding reader_ok_def using d by simp
  ultimately show ?thesis by blast
qed

lemma fill_take:
  assumes "reader_ok (ob_content ob) n r" "fill_file_buffer ob m r = (ok, r1)" "take_chunk (min m (length (fr_buf r1))) r1 = (x, r2)"
  shows "x = take (length x) (drop n (ob_content ob)) \<and> length x = min m (length (fr_buf r1))
    \<and> reader_ok (ob_content ob) (n + length x) r2"
proof -
  let ?k = "min m (length (fr_buf r1))"
  have "reader_ok (ob_content ob) n r1" using fill_spec [OF assms(1)] assms(2) by (simp add: fill_file_buffer_def)
  then have "take ?k (fr_buf r1) = take ?k (drop n (ob_content ob))" "reader_ok (ob_content ob) (n + ?k) (r1\<lparr>fr_buf := drop ?k (fr_buf r1)\<rparr>)"
    using reader_ok_take [of "ob_content ob" n r1 ?k] by simp_all
  moreover have "x = take ?k (fr_buf r1)" "r2 = r1\<lparr>fr_buf := drop ?k (fr_buf r1)\<rparr>" using assms(3) by (auto simp: take_chunk_def)
  moreover have "length (take ?k (fr_buf r1)) = ?k" by simp
  ultimately show ?thesis by metis
qed

definition source_ok :: "string \<Rightarrow> nat \<Rightarrow> nat \<Rightarrow> DataSource \<Rightarrow> bool" where
  "source_ok content n size_n src \<longleftrightarrow>
     (case src of
        Static data \<Rightarrow> content = data \<and> size_n = length data
      | Random _ \<Rightarrow> False
      | File_source r _ _ _ _ \<Rightarrow> reader_ok content n r
      | Proxy r _ _ \<Rightarrow> reader_ok content n r)"

text \<open>A chunk is the next piece of the content, not empty, and within the packet that was waited for.\<close>

lemma produce_data:
  assumes "source_ok (ob_content ob) (sb_offset b) (sb_total_size b) (sb_source b)" "sb_offset b < sb_total_size b"
    and "produce_chunk ob b = (Chunk_data x, src)"
  shows "x = take (length x) (drop (sb_offset b) (ob_content ob)) \<and> x \<noteq> [] \<and> sb_offset b + length x \<le> sb_total_size b
    \<and> (sb_bwm b \<longrightarrow> length x \<le> TCP_PACKET_SIZE)
    \<and> source_ok (ob_content ob) (sb_offset b + length x) (sb_total_size b) src"
proof -
  let ?n = "sb_offset b" and ?s = "sb_total_size b"
  define m where "m = min (?n + TCP_PACKET_SIZE) ?s - ?n"
  have m: "0 < m" "m \<le> TCP_PACKET_SIZE" "?n + m \<le> ?s" using assms(2) by (auto simp: m_def TCP_PACKET_SIZE_def)
  have fin: ?thesis if "reader_ok (ob_content ob) ?n r" "fill_file_buffer ob m r = (True, r1)" "fr_buf r1 \<noteq> []"
    "take_chunk (min m (length (fr_buf r1))) r1 = (x, r2)" "source_ok (ob_content ob) (?n + length x) ?s src = reader_ok (ob_content ob) (?n + length x) r2"
    for r r1 r2
  proof -
    note f = fill_take [OF that(1,2,4)]
    moreover have "0 < min m (length (fr_buf r1))" using m(1) that(3) by simp
    ultimately have le: "length x \<le> m" and pos: "0 < length x" by simp_all
    from f have x: "x = take (length x) (drop ?n (ob_content ob))" and r2: "reader_ok (ob_content ob) (?n + length x) r2" by blast+
    have "length x \<le> TCP_PACKET_SIZE" "?n + length x \<le> ?s" using le m by linarith+
    moreover have "x \<noteq> []" using pos by simp
    ultimately show ?thesis using x r2 that(5) by blast
  qed
  show ?thesis
  proof (cases "sb_source b")
    case (Static data)
    have src: "src = Static data" and d: "ob_content ob = data" "?s = length data"
      using assms(1,3) Static by (auto simp: produce_chunk_def Let_def source_ok_def)
    define j where "j = min (?n + (if \<not> sb_bwm b then ?s - ?n else TCP_PACKET_SIZE)) ?s - ?n"
    have x: "x = take j (drop ?n data)" using assms(3) Static by (simp add: produce_chunk_def Let_def j_def)
    have j: "0 < j" "?n + j \<le> ?s" "sb_bwm b \<Longrightarrow> j \<le> TCP_PACKET_SIZE" using assms(2) by (auto simp: j_def TCP_PACKET_SIZE_def)
    then have "length x = j" using x d(2) by simp
    then show ?thesis using x j d src by (auto simp: source_ok_def)
  next
    case (Random bytes)
    then show ?thesis using assms(1) by (simp add: source_ok_def)
  next
    case (File_source r fd h del cache)
    then obtain r1 r2 where r: "fill_file_buffer ob m r = (True, r1)" "fr_buf r1 \<noteq> []" "take_chunk (min m (length (fr_buf r1))) r1 = (x, r2)"
      "src = File_source r2 (fd @ x) h del cache"
      using assms(3) unfolding produce_chunk_def Let_def m_def by (auto split: prod.splits bool.splits if_splits)
    show ?thesis by (rule fin [OF _ r(1-3)]) (use assms(1) File_source r(4) in \<open>simp_all add: source_ok_def\<close>)
  next
    case (Proxy r wt tx)
    then obtain r1 r2 where r: "fill_file_buffer ob m r = (True, r1)" "fr_buf r1 \<noteq> []" "take_chunk (min m (length (fr_buf r1))) r1 = (x, r2)"
      "src = Proxy r2 wt tx"
      using assms(3) unfolding produce_chunk_def Let_def m_def by (auto split: prod.splits bool.splits if_splits)
    show ?thesis by (rule fin [OF _ r(1-3)]) (use assms(1) Proxy r(4) in \<open>simp_all add: source_ok_def\<close>)
  qed
qed

lemma produce_done:
  assumes "source_ok (ob_content ob) (sb_offset b) n (sb_source b)" "produce_chunk ob b = (Chunk_done e, src)"
  shows "source_ok (ob_content ob) (sb_offset b) n src"
proof -
  have "reader_ok (ob_content ob) (sb_offset b) r1"
    if "reader_ok (ob_content ob) (sb_offset b) r" "fill_file_buffer ob m r = (ok, r1)" for m r r1 ok
    using fill_spec [OF that(1)] that(2) by (simp add: fill_file_buffer_def)
  then show ?thesis using assms unfolding produce_chunk_def Let_def
    by (auto simp: source_ok_def split: DataSource.splits prod.splits bool.splits if_splits)
qed

subsection \<open>Invariants of a body\<close>

definition gate_open :: "poll_obs \<Rightarrow> StreamingBody \<Rightarrow> bool" where
  "gate_open ob b \<longleftrightarrow> (is_proxy (sb_source b) \<longrightarrow> fst (proxy_check ob (sb_offset b) (sb_total_size b)) = Gate_ready)"

text \<open>
  What is to be shown for an invariant of a body, its world and the bytes delivered so far, when the
  rounds satisfy \<open>P\<close>: the elementary changes keep it. Every sequence of rounds then does.
\<close>

locale body_invariant =
  fixes sha1 :: digest and os :: os and c :: Config
    and P :: "poll_obs \<Rightarrow> bool" and I :: "string \<Rightarrow> StreamingBody \<Rightarrow> body_world \<Rightarrow> bool"
  assumes grant: "I d b w \<Longrightarrow> sb_throttle_fut b = Some n \<Longrightarrow>
        I d (b\<lparr>sb_throttle_fut := None, sb_throttled := True\<rparr>) (w\<lparr>bw_quota := bw_quota w @ [n]\<rparr>)"
    and wait: "I d b w \<Longrightarrow> I d (b\<lparr>sb_source := set_wait v (sb_source b)\<rparr>) w"
    and install: "I d b w \<Longrightarrow> \<not> sb_throttled b \<Longrightarrow> sb_throttle_fut b = None \<Longrightarrow>
        I d (b\<lparr>sb_throttle_fut := Some (min TCP_PACKET_SIZE (sb_total_size b - sb_offset b))\<rparr>) w"
    and chunk: "I d b w \<Longrightarrow> P ob \<Longrightarrow> gate_open ob b \<Longrightarrow> sb_offset b < sb_total_size b \<Longrightarrow> sb_throttle_fut b = None \<Longrightarrow>
        sb_throttled b \<or> \<not> sb_bwm b \<Longrightarrow> produce_chunk ob (b\<lparr>sb_throttled := False\<rparr>) = (Chunk_data x, src) \<Longrightarrow>
        I (d @ x) (b\<lparr>sb_throttled := False, sb_source := src, sb_offset := sb_offset b + length x\<rparr>) w"
    and stop: "I d b w \<Longrightarrow> P ob \<Longrightarrow> sb_offset b < sb_total_size b \<Longrightarrow> sb_throttle_fut b = None \<Longrightarrow>
        produce_chunk ob (b\<lparr>sb_throttled := False\<rparr>) = (Chunk_done e, src) \<Longrightarrow>
        I d (b\<lparr>sb_throttled := False, sb_source := src\<rparr>) w"
    and fin: "I d b w \<Longrightarrow> finish_with sha1 os c r (b, w) = (b', w') \<Longrightarrow> I d b' w'"
    and stats: "I d b w \<Longrightarrow> I d b (count_stats g w)"
begin

lemma throttle_done_inv: "I d b w \<Longrightarrow> throttle_done (b, w) = (b', w') \<Longrightarrow> I d b' w' \<and> sb_throttle_fut b' = None"
  by (auto simp: throttle_done_def grant split: option.splits)

lemma send_step_inv:
  assumes "I d b w" "P ob" "gate_open ob b" "sb_offset b < sb_total_size b" "sb_throttle_fut b = None"
    and "send_step sha1 os c ob (b, w) = (s, b', w')"
  shows "I (d @ delivered s) b' w'"
proof (cases "\<not> sb_throttled b \<and> sb_bwm b")
  case True
  then show ?thesis using install [OF assms(1)] assms(5,6) by (auto simp: send_step_def)
next
  case False
  show ?thesis
  proof (cases "produce_chunk ob (b\<lparr>sb_throttled := False\<rparr>)")
    case (Pair res src)
    show ?thesis
    proof (cases res)
      case (Chunk_data x)
      then have "I (d @ x) (b\<lparr>sb_throttled := False, sb_source := src, sb_offset := sb_offset b + length x\<rparr>) w"
        using Pair False by (intro chunk [OF assms(1-5)]) auto
      then show ?thesis using assms(6) False Pair Chunk_data stats by (auto simp: send_step_def split: if_splits)
    next
      case (Chunk_done e)
      then have "I d (b\<lparr>sb_throttled := False, sb_source := src\<rparr>) w" using Pair by (intro stop [OF assms(1,2,4,5)]) auto
      moreover have "finish_with sha1 os c (Some e) (b\<lparr>sb_throttled := False, sb_source := src\<rparr>, w) = (b', w')" "s = End_of_body"
        using assms(6) False Pair Chunk_done by (auto simp: send_step_def Let_def split: if_splits)
      ultimately show ?thesis using fin by simp
    qed
  qed
qed

lemma poll_round_inv:
  assumes "I d b0 w0" "P ob" "poll_round sha1 os c ob (b0, w0) = (s, b', w')"
  shows "I (d @ delivered s) b' w'"
proof (cases "sb_throttle_fut b0 \<noteq> None \<and> \<not> ob_throttle_ready ob")
  case True
  then show ?thesis using assms by (auto simp: poll_round_def)
next
  case False
  obtain b w where t: "throttle_done (b0, w0) = (b, w)" by force
  then have i: "I d b w" "sb_throttle_fut b = None" using throttle_done_inv [OF assms(1)] by simp_all
  note run = assms(3) [unfolded poll_round_def prod.case if_not_P [OF False] t Let_def]
  show ?thesis
  proof (cases "sb_total_size b \<le> sb_offset b")
    case True
    then show ?thesis using run fin [OF i(1)] by (auto simp: prod_eq_iff)
  next
    case lt: False
    show ?thesis
    proof (cases "is_proxy (sb_source b)")
      case False
      then show ?thesis using run lt send_step_inv [OF i(1) assms(2)] i(2) by (simp add: gate_open_def)
    next
      case True
      let ?b = "\<lambda>v. b\<lparr>sb_source := set_wait v (sb_source b)\<rparr>"
      obtain g v where g: "proxy_check ob (sb_offset b) (sb_total_size b) = (g, v)" by force
      have w: "I d (?b v) w" using wait [OF i(1)] .
      show ?thesis
      proof (cases g)
        case Gate_ready
        then have "gate_open ob (?b v)" using g by (simp add: gate_open_def)
        moreover have "send_step sha1 os c ob (?b v, w) = (s, b', w')" using run lt True g Gate_ready by simp
        ultimately show ?thesis using send_step_inv [OF w assms(2)] lt i(2) by simp
      next
        case (Gate_failed e)
        then show ?thesis using run lt True g fin [OF i(1)] by (auto simp: prod_eq_iff)
      qed (use run lt True g w in auto)
    qed
  qed
qed

lemma rounds_inv:
  assumes "I d b w" "list_all P obs" "body_rounds sha1 os c obs (b, w) = (xs, b', w')"
  shows "I (d @ concat xs) b' w'"
  using assms
proof (induction obs arbitrary: d b w xs)
  case (Cons ob obs)
  obtain s b1 w1 where r: "poll_round sha1 os c ob (b, w) = (s, b1, w1)" by (metis prod_cases3)
  have i: "I (d @ delivered s) b1 w1" using poll_round_inv [OF Cons.prems(1) _ r] Cons.prems(2) by simp
  obtain ys where ys: "body_rounds sha1 os c obs (b1, w1) = (ys, b', w')" "concat xs = delivered s @ concat ys"
    using Cons.prems(3) body_rounds_Cons [OF r, of obs] by (cases "body_rounds sha1 os c obs (b1, w1)") auto
  show ?case using Cons.IH [OF i _ ys(1)] Cons.prems(2) ys(2) by simp
qed simp

end

subsection \<open>Bandwidth\<close>

lemma produce_length:
  assumes "produce_chunk ob b = (Chunk_data x, src)" "sb_bwm b \<or> is_proxy (sb_source b)"
  shows "length x \<le> min TCP_PACKET_SIZE (sb_total_size b - sb_offset b)"
proof -
  have m: "min (sb_offset b + TCP_PACKET_SIZE) (sb_total_size b) - sb_offset b \<le> min TCP_PACKET_SIZE (sb_total_size b - sb_offset b)"
    by linarith
  have "length x \<le> min (sb_offset b + TCP_PACKET_SIZE) (sb_total_size b) - sb_offset b"
    using assms unfolding produce_chunk_def Let_def take_chunk_def is_proxy_def
    by (auto split: DataSource.splits prod.splits bool.splits if_splits)
  then show ?thesis using m by linarith
qed

definition quota_inv :: "nat \<Rightarrow> string \<Rightarrow> StreamingBody \<Rightarrow> body_world \<Rightarrow> bool" where
  "quota_inv q d b w \<longleftrightarrow> sb_bwm b
     \<and> q + length d + (if sb_throttled b then min TCP_PACKET_SIZE (sb_total_size b - sb_offset b) else 0) \<le> sum_list (bw_quota w)
     \<and> (\<forall>n. sb_throttle_fut b = Some n \<longrightarrow> n = min TCP_PACKET_SIZE (sb_total_size b - sb_offset b) \<and> \<not> sb_throttled b)"

lemma delete_keeps_quota: "bw_quota (snd (finish_source sha1 os c done src w)) = bw_quota w"
  by (auto simp: finish_source_def Let_def split: DataSource.splits option.splits prod.splits)

lemma finish_with_fields:
  assumes "finish_with sha1 os c r (b, w) = (b', w')"
  shows "sb_bwm b' = sb_bwm b" "sb_throttled b' = sb_throttled b" "sb_throttle_fut b' = sb_throttle_fut b"
    "sb_offset b' = sb_offset b" "sb_total_size b' = sb_total_size b" "bw_quota w' = bw_quota w"
    "sb_source b' = fst (finish_source sha1 os c (sb_total_size b \<le> sb_offset b) (sb_source b) w)"
    "bw_fs w' = bw_fs (snd (finish_source sha1 os c (sb_total_size b \<le> sb_offset b) (sb_source b) w))"
    "sb_completion b' = (if sb_completion b = Body_running then
        (if sb_total_size b \<le> sb_offset b then Complete else Incomplete (case r of None \<Rightarrow> Unknown | Some e \<Rightarrow> e)) else sb_completion b)"
  using assms delete_keeps_quota [of sha1 os c "sb_total_size b \<le> sb_offset b" "sb_source b" w]
  by (auto simp: finish_with_def Let_def count_stats_def split: prod.splits if_splits)

interpretation quota: body_invariant sha1 os c "\<lambda>_. True" "quota_inv q" for sha1 os c q
proof (unfold_locales, goal_cases)
  case (4 d b w ob x src)
  have "length x \<le> min TCP_PACKET_SIZE (sb_total_size b - sb_offset b)" using produce_length [OF 4(7)] 4(1) by (simp add: quota_inv_def)
  then show ?case using 4 by (auto simp: quota_inv_def)
next
  case (6 d b w r b' w')
  then show ?case by (auto simp: quota_inv_def finish_with_fields [OF 6(2)])
qed (auto simp: quota_inv_def count_stats_def)

text \<open>
  A flow-controlled body never sends more than the bandwidth monitor has granted: whatever its
  source, and however its polls and the monitor interleave, the bytes of all frames together are covered
  by the requests granted in the meantime.
\<close>

theorem frames_covered_by_quota:
  assumes "body_rounds sha1 os c obs (enable_flow_control b, w) = (xs, b', w')"
    and "sb_throttle_fut b = None" "\<not> sb_throttled b"
  shows "length (concat xs) + sum_list (bw_quota w) \<le> sum_list (bw_quota w')"
proof -
  have "quota_inv (sum_list (bw_quota w)) [] (enable_flow_control b) w"
    using assms(2,3) by (simp add: quota_inv_def enable_flow_control_def)
  from quota.rounds_inv [OF this _ assms(1)] show ?thesis by (auto simp: quota_inv_def list_all_iff split: if_splits)
qed

subsection \<open>Cached files\<close>

text \<open>What the file system is after a complete transmission.\<close>

definition after_send :: "digest \<Rightarrow> os \<Rightarrow> Config \<Rightarrow> FileBodyParams \<Rightarrow> string \<Rightarrow> CacheHandler \<Rightarrow> fs \<Rightarrow> fs" where
  "after_send sha1 os c p content h f =
     (if fp_verify p \<and> hex_encode (sha1 content) \<noteq> fp_expected_hash p \<and> fp_cache_handler p \<and> fp_path p \<noteq> []
      then snd (snd (delete_file_from_cache os c (file_name (fp_path p)) (h, f))) else f)"

lemma delete_fs_handler: "snd (snd (delete_file_from_cache os c n (h, f))) = snd (snd (delete_file_from_cache os c n (h', f)))"
  by (auto simp: delete_file_from_cache_def Let_def split: option.splits sum.splits)

definition file_source_ok :: "FileBodyParams \<Rightarrow> string \<Rightarrow> fs \<Rightarrow> fs \<Rightarrow> nat \<Rightarrow> BodyCompletion \<Rightarrow> fs \<Rightarrow> DataSource \<Rightarrow> bool" where
  "file_source_ok p content f0 f1 n completion f src \<longleftrightarrow>
     (case src of
        File_source r fd h del cache \<Rightarrow>
          h = fp_expected_hash p \<and> cache = fp_cache_handler p \<and> reader_ok content n r
          \<and> (if fp_verify p \<and> del = None then n = length content \<and> f = f1
             else del = (if fp_verify p then Some (fp_path p) else None) \<and> fd = take n content \<and> f = f0)
          \<and> (completion = Complete \<longrightarrow> n = length content \<and> del = None)
      | _ \<Rightarrow> False)"

definition file_inv :: "digest \<Rightarrow> os \<Rightarrow> Config \<Rightarrow> FileBodyParams \<Rightarrow> string \<Rightarrow> CacheHandler \<Rightarrow> fs
    \<Rightarrow> string \<Rightarrow> StreamingBody \<Rightarrow> body_world \<Rightarrow> bool" where
  "file_inv sha1 os c p content h0 f0 d b w \<longleftrightarrow>
     d = take (sb_offset b) content \<and> sb_offset b \<le> sb_total_size b \<and> sb_total_size b = length content
     \<and> file_source_ok p content f0 (after_send sha1 os c p content h0 f0) (sb_offset b) (sb_completion b) (bw_fs w) (sb_source b)"

lemma file_inv_source:
  assumes "file_inv sha1 os c p content h0 f0 d b w"
  obtains r fd del where "sb_source b = File_source r fd (fp_expected_hash p) del (fp_cache_handler p)"
    "reader_ok content (sb_offset b) r"
  using assms by (auto simp: file_inv_def file_source_ok_def split: DataSource.splits)

lemma file_source_finish:
  assumes "file_inv sha1 os c p content h0 f0 d b w" "finish_with sha1 os c r (b, w) = (b', w')"
  shows "file_inv sha1 os c p content h0 f0 d b' w'"
proof -
  note f = finish_with_fields [OF assms(2)]
  obtain rd fd del where src: "sb_source b = File_source rd fd (fp_expected_hash p) del (fp_cache_handler p)"
    using assms(1) by (rule file_inv_source)
  show ?thesis
  proof (cases "sb_total_size b \<le> sb_offset b \<and> del \<noteq> None")
    case False
    then have "sb_source b' = sb_source b" "bw_fs w' = bw_fs w"
      using f src by (auto simp: finish_source_def split: option.splits)
    then show ?thesis using assms(1) f False src by (auto simp: file_inv_def file_source_ok_def split: if_splits)
  next
    case True
    then obtain q where q: "del = Some q" by auto
    have i: "q = fp_path p" "fp_verify p" "fd = content" "bw_fs w = f0" "sb_offset b = length content" "reader_ok content (sb_offset b) rd"
        "d = content" "sb_total_size b = length content"
      using assms(1) src True q by (auto simp: file_inv_def file_source_ok_def split: if_splits)
    have "bw_fs w' = after_send sha1 os c p content h0 f0"
      using f(8) src q i True delete_fs_handler [of os c "file_name (fp_path p)" "bw_handler w" f0 h0]
      by (cases "delete_file_from_cache os c (file_name (fp_path p)) (bw_handler w, f0)")
        (simp add: finish_source_def Let_def after_send_def)
    moreover have "sb_source b' = File_source rd [] (fp_expected_hash p) None (fp_cache_handler p)"
      using f(7) src q True by (simp add: finish_source_def Let_def)
    ultimately show ?thesis using i f by (simp add: file_inv_def file_source_ok_def)
  qed
qed

lemma file_inv_chunk:
  assumes "file_inv sha1 os c p content h0 f0 d b w" "ob_content ob = content" "sb_offset b < sb_total_size b"
    and "produce_chunk ob (b\<lparr>sb_throttled := False\<rparr>) = (Chunk_data x, src)"
  shows "file_inv sha1 os c p content h0 f0 (d @ x) (b\<lparr>sb_throttled := False, sb_source := src, sb_offset := sb_offset b + length x\<rparr>) w"
proof -
  let ?b = "b\<lparr>sb_throttled := False\<rparr>"
  obtain r fd del where src: "sb_source b = File_source r fd (fp_expected_hash p) del (fp_cache_handler p)"
    and i: "reader_ok content (sb_offset b) r"
    using assms(1) by (rule file_inv_source)
  have n: "sb_offset b \<noteq> length content" and i2: "d = take (sb_offset b) content" "sb_total_size b = length content"
    using assms(1,3) by (simp_all add: file_inv_def)
  then have i3: "del = (if fp_verify p then Some (fp_path p) else None)" "fd = take (sb_offset b) content" "bw_fs w = f0"
      "sb_completion b \<noteq> Complete"
    using assms(1) src by (simp_all add: file_inv_def file_source_ok_def split: if_splits)
  have "source_ok (ob_content ob) (sb_offset ?b) (sb_total_size ?b) (sb_source ?b)" using src i assms(2) by (simp add: source_ok_def)
  note c = produce_data [OF this _ assms(4)]
  then have x: "x = take (length x) (drop (sb_offset b) content)" "sb_offset b + length x \<le> length content"
    and ok: "source_ok content (sb_offset b + length x) (sb_total_size b) src"
    using assms(2,3) i2(2) by simp_all
  obtain r2 where s2: "src = File_source r2 (fd @ x) (fp_expected_hash p) del (fp_cache_handler p)"
    using assms(4) src by (auto simp: produce_chunk_def Let_def split: prod.splits bool.splits if_splits)
  have "take (sb_offset b) content @ x = take (sb_offset b + length x) content" using x(1) by (metis take_add)
  then show ?thesis using i2 i3 x(2) ok s2 by (simp add: file_inv_def file_source_ok_def source_ok_def)
qed

interpretation file_body: body_invariant sha1 os c "\<lambda>ob. ob_content ob = content" "file_inv sha1 os c p content h0 f0"
  for sha1 os c p content h0 f0
proof (unfold_locales, goal_cases)
  case (4 d b w ob x src)
  then show ?case by (intro file_inv_chunk) auto
next
  case (5 d b w ob e src)
  obtain r fd del where s: "sb_source b = File_source r fd (fp_expected_hash p) del (fp_cache_handler p)" "reader_ok content (sb_offset b) r"
    using 5(1) by (rule file_inv_source)
  obtain r1 where s1: "src = File_source r1 fd (fp_expected_hash p) del (fp_cache_handler p)"
    using 5(5) s by (auto simp: produce_chunk_def Let_def split: prod.splits bool.splits if_splits)
  have "source_ok content (sb_offset b) (sb_total_size b) src"
    using produce_done [of ob "b\<lparr>sb_throttled := False\<rparr>" "sb_total_size b" e src] 5(2,5) s by (simp add: source_ok_def)
  then show ?case using 5(1) s s1 by (auto simp: file_inv_def file_source_ok_def source_ok_def)
next
  case (6 d b w r b' w')
  then show ?case by (rule file_source_finish)
qed (auto simp: file_inv_def file_source_ok_def set_wait_def count_stats_def split: DataSource.splits)

lemma file_inv_new:
  "length content = fp_total_size p \<Longrightarrow> file_inv sha1 os c p content h0 (bw_fs w) [] (new_file p) w"
  by (simp add: file_inv_def file_source_ok_def new_file_def body_with_def)

text \<open>
  C17: A cached file is sent as it is and checked as it is sent: after any rounds the frames are a prefix
  of the file, a body that reports completion has sent all of it, and the file is deleted from the cache
  exactly when it was sent completely, verification was requested and the hash of the bytes sent is not
  the expected one.
\<close>

theorem file_body_exact:
  assumes "body_rounds sha1 os c obs (new_file p, w) = (xs, b', w')"
    and "list_all (\<lambda>ob. ob_content ob = content) obs" "length content = fp_total_size p"
  shows "concat xs = take (sb_offset b') content
    \<and> (sb_completion b' = Complete \<longrightarrow> concat xs = content \<and> bw_fs w' = after_send sha1 os c p content (bw_handler w) (bw_fs w))
    \<and> (sb_offset b' < length content \<longrightarrow> bw_fs w' = bw_fs w)"
proof -
  have i: "file_inv sha1 os c p content (bw_handler w) (bw_fs w) (concat xs) b' w'"
    using file_body.rounds_inv [OF file_inv_new [OF assms(3)] assms(2,1)] by simp
  obtain r fd del where "sb_source b' = File_source r fd (fp_expected_hash p) del (fp_cache_handler p)"
    using i by (rule file_inv_source)
  then show ?thesis using i by (auto simp: file_inv_def file_source_ok_def after_send_def split: if_splits)
qed

definition sample_obs :: poll_obs where
  "sample_obs = \<lparr>ob_throttle_ready = True, ob_watch = InProgress 0, ob_sender_gone = False, ob_wait_ready = False,
     ob_content = ''abcd'', ob_read = (\<lambda>_. Some 1), ob_random = 0\<rparr>"

definition sample_params :: FileBodyParams where
  "sample_params = \<lparr>fp_path = [''cache'', ''61626364-4-jpg''], fp_total_size = 4, fp_expected_hash = ''61626364'',
     fp_verify = True, fp_cache_handler = True\<rparr>"

definition sample_world :: body_world where
  "sample_world = \<lparr>bw_handler = sample_handler, bw_fs = [], bw_quota = []\<rparr>"

theorem file_body_exact_witness:
  "\<exists>n. concat (fst (body_rounds sample_sha1 sample_os sample_config [sample_obs, sample_obs] (new_file sample_params, sample_world)))
     = take n ''abcd''"
proof -
  obtain xs b' w' where r: "body_rounds sample_sha1 sample_os sample_config [sample_obs, sample_obs] (new_file sample_params, sample_world)
      = (xs, b', w')" by (metis prod_cases3)
  have "list_all (\<lambda>ob. ob_content ob = ''abcd'') [sample_obs, sample_obs]" "length ''abcd'' = fp_total_size sample_params"
    by (simp_all add: sample_obs_def sample_params_def)
  from file_body_exact [OF r this] show ?thesis using r by auto
qed

theorem frames_covered_by_quota_witness:
  "length (concat (fst (body_rounds sample_sha1 sample_os sample_config (replicate 9 sample_obs)
       (enable_flow_control (new_file sample_params), sample_world))))
   \<le> sum_list (bw_quota (snd (snd (body_rounds sample_sha1 sample_os sample_config (replicate 9 sample_obs)
       (enable_flow_control (new_file sample_params), sample_world)))))"
proof -
  obtain xs b' w' where r: "body_rounds sample_sha1 sample_os sample_config (replicate 9 sample_obs)
      (enable_flow_control (new_file sample_params), sample_world) = (xs, b', w')" by (metis prod_cases3)
  from frames_covered_by_quota [OF r] show ?thesis
    unfolding r by (simp add: new_file_def body_with_def sample_world_def)
qed

text \<open>Rounds in which nothing stands in the way: the throttle is granted and reads do not fail.\<close>

definition smooth :: "string \<Rightarrow> poll_obs \<Rightarrow> bool" where
  "smooth content ob \<longleftrightarrow> ob_content ob = content \<and> ob_throttle_ready ob \<and> (\<forall>n. ob_read ob n \<noteq> None)"

definition rounds_left :: "StreamingBody \<Rightarrow> nat" where
  "rounds_left b = 2 * (sb_total_size b - sb_offset b) + (if sb_bwm b \<and> \<not> sb_throttled b \<and> sb_throttle_fut b = None then 1 else 0)"

lemma fill_ok: "\<forall>n. ob_read ob n \<noteq> None \<Longrightarrow> fst (fill_file_buffer_limited ob need m r)"
proof (induction ob need m r rule: fill_file_buffer_limited.induct)
  case (1 ob need m r)
  obtain k where k: "ob_read ob (fr_cursor r) = Some k" using 1(2) by (meson not_None_eq)
  show ?case
  proof (cases "length (fr_buf r) < need \<and> 0 < m")
    case True
    define j where "j = min (min (min (max (FILE_BUFFER_SIZE - length (fr_buf r)) (need - length (fr_buf r))) m) (Suc k))
      (length (ob_content ob) - fr_cursor r)"
    show ?thesis
    proof (cases "j = 0")
      case jz: True
      show ?thesis
        unfolding fill_file_buffer_limited.simps [of ob need m r] if_P [OF True] k option.case(2) Let_def j_def [symmetric] if_P [OF jz] by simp
    next
      case jn: False
      show ?thesis
        unfolding fill_file_buffer_limited.simps [of ob need m r] if_P [OF True] k option.case(2) Let_def j_def [symmetric] if_not_P [OF jn]
        by (rule 1(1) [OF True refl k j_def jn 1(2)])
    qed
  next
    case False
    then show ?thesis unfolding fill_file_buffer_limited.simps [of ob need m r] if_not_P [OF False] by simp
  qed
qed

lemma file_produces:
  assumes "smooth content ob" "reader_ok content (sb_offset b) r" "sb_source b = File_source r fd h del cache"
    and "sb_offset b < sb_total_size b" "sb_total_size b = length content" "length content < 2 ^ 64 - 1"
  shows "\<exists>x src. produce_chunk ob b = (Chunk_data x, src)"
proof -
  define m where "m = min (sb_offset b + TCP_PACKET_SIZE) (sb_total_size b) - sb_offset b"
  have m: "0 < m" using assms(4) by (simp add: m_def TCP_PACKET_SIZE_def)
  obtain ok r1 where f: "fill_file_buffer ob m r = (ok, r1)" by force
  have ct: "ob_content ob = content" using assms(1) by (simp add: smooth_def)
  have ok: "ok" using fill_ok [of ob m "2 ^ 64 - 1" r] assms(1) f by (simp add: smooth_def fill_file_buffer_def)
  have "length content - fr_cursor r < 2 ^ 64 - 1" using assms(6) by linarith
  then have s: "reader_ok content (sb_offset b) r1" "m \<le> length (fr_buf r1) \<or> fr_cursor r1 = length content"
    using fill_spec [of ob "sb_offset b" r m "2 ^ 64 - 1" ok r1] assms(2) f ok ct by (simp_all add: fill_file_buffer_def)
  have "fr_buf r1 \<noteq> []"
  proof
    assume e: "fr_buf r1 = []"
    then show False using s m assms(4,5) by (auto simp: reader_ok_def)
  qed
  then show ?thesis using f ok assms(3) unfolding produce_chunk_def Let_def m_def by (auto split: prod.split)
qed

lemma smooth_round:
  assumes "file_inv sha1 os c p content h0 f0 d b w" "smooth content ob" "length content < 2 ^ 64 - 1"
    and "poll_round sha1 os c ob (b, w) = (s, b', w')" "sb_offset b < length content"
  shows "rounds_left b' < rounds_left b \<and> sb_completion b' = sb_completion b"
proof -
  obtain b1 w1 where t: "throttle_done (b, w) = (b1, w1)" by force
  have same: "sb_offset b1 = sb_offset b" "sb_total_size b1 = sb_total_size b" "sb_source b1 = sb_source b"
      "sb_completion b1 = sb_completion b" "sb_bwm b1 = sb_bwm b" "sb_throttle_fut b1 = None" "rounds_left b1 \<le> rounds_left b"
      "sb_throttle_fut b \<noteq> None \<Longrightarrow> sb_throttled b1"
    "sb_throttle_fut b = None \<Longrightarrow> b1 = b"
    using t by (auto simp: throttle_done_def rounds_left_def split: option.splits)
  obtain r fd del where src: "sb_source b = File_source r fd (fp_expected_hash p) del (fp_cache_handler p)"
    and rd: "reader_ok content (sb_offset b) r" using assms(1) by (rule file_inv_source)
  have tot: "sb_total_size b = length content" using assms(1) by (simp add: file_inv_def)
  have nt: "\<not> (sb_throttle_fut b \<noteq> None \<and> \<not> ob_throttle_ready ob)" using assms(2) by (simp add: smooth_def)
  have run: "send_step sha1 os c ob (b1, w1) = (s, b', w')"
    using assms(4,5) same src tot unfolding poll_round_def prod.case if_not_P [OF nt] t Let_def by (simp add: is_proxy_def)
  show ?thesis
  proof (cases "\<not> sb_throttled b1 \<and> sb_bwm b1")
    case True
    then have "b' = b1\<lparr>sb_throttle_fut := Some (min TCP_PACKET_SIZE (sb_total_size b1 - sb_offset b1))\<rparr>"
      using run same(6) by (simp add: send_step_def)
    then show ?thesis using True same by (auto simp: rounds_left_def)
  next
    case False
    let ?b = "b1\<lparr>sb_throttled := False\<rparr>"
    obtain x src' where ch: "produce_chunk ob ?b = (Chunk_data x, src')"
      using file_produces [of content ob ?b r fd "fp_expected_hash p" del "fp_cache_handler p"] assms(2,3,5) src rd same tot by auto
    have "source_ok (ob_content ob) (sb_offset ?b) (sb_total_size ?b) (sb_source ?b)"
      using src rd same assms(2) by (simp add: source_ok_def smooth_def)
    from produce_data [OF this _ ch] have x: "x \<noteq> []" "sb_offset b + length x \<le> length content" using assms(5) same tot by simp_all
    have b': "b' = ?b\<lparr>sb_source := src', sb_offset := sb_offset b1 + length x\<rparr>"
      using run ch False by (auto simp: send_step_def Let_def)
    have "rounds_left b' \<le> 2 * (length content - (sb_offset b + length x)) + 1"
      unfolding b' using same tot by (simp add: rounds_left_def)
    also have "\<dots> < 2 * (length content - sb_offset b)"
    proof -
      have "0 < length x" using x(1) by simp
      then show ?thesis using x(2) by linarith
    qed
    also have "\<dots> \<le> rounds_left b" using tot by (simp add: rounds_left_def)
    finally show ?thesis using b' same by simp
  qed
qed

lemma smooth_end:
  assumes "file_inv sha1 os c p content h0 f0 d b w" "smooth content ob" "sb_offset b = length content"
    and "poll_round sha1 os c ob (b, w) = (s, b', w')" "sb_completion b \<in> {Body_running, Complete}"
  shows "sb_completion b' = Complete \<and> sb_offset b' = length content"
proof -
  obtain b1 w1 where t: "throttle_done (b, w) = (b1, w1)" by force
  have same: "sb_offset b1 = sb_offset b" "sb_total_size b1 = sb_total_size b" "sb_completion b1 = sb_completion b"
    using t by (auto simp: throttle_done_def split: option.splits)
  have tot: "sb_total_size b = length content" using assms(1) by (simp add: file_inv_def)
  have nt: "\<not> (sb_throttle_fut b \<noteq> None \<and> \<not> ob_throttle_ready ob)" using assms(2) by (simp add: smooth_def)
  have "finish_with sha1 os c None (b1, w1) = (b', w')"
    using assms(3,4) same tot unfolding poll_round_def prod.case if_not_P [OF nt] t Let_def by simp
  from finish_with_fields [OF this] show ?thesis using assms(3,5) same tot by auto
qed

lemma smooth_rounds:
  assumes "file_inv sha1 os c p content h0 f0 d b w" "list_all (smooth content) obs" "length content < 2 ^ 64 - 1"
    and "body_rounds sha1 os c obs (b, w) = (xs, b', w')" "sb_completion b \<in> {Body_running, Complete}"
    and "rounds_left b < length obs \<or> sb_completion b = Complete"
  shows "sb_completion b' = Complete"
  using assms
proof (induction obs arbitrary: d b w xs)
  case (Cons ob obs)
  obtain s b1 w1 where r: "poll_round sha1 os c ob (b, w) = (s, b1, w1)" by (metis prod_cases3)
  obtain ys where ys: "body_rounds sha1 os c obs (b1, w1) = (ys, b', w')"
    using Cons.prems(4) body_rounds_Cons [OF r, of obs] by (cases "body_rounds sha1 os c obs (b1, w1)") auto
  have sm: "smooth content ob" "list_all (smooth content) obs" using Cons.prems(2) by simp_all
  have i: "file_inv sha1 os c p content h0 f0 (d @ delivered s) b1 w1"
    using file_body.poll_round_inv [OF Cons.prems(1) _ r] sm(1) by (simp add: smooth_def)
  have le: "sb_offset b \<le> length content" using Cons.prems(1) by (simp add: file_inv_def)
  show ?case
  proof (cases "sb_offset b = length content")
    case True
    from smooth_end [OF Cons.prems(1) sm(1) True r Cons.prems(5)] show ?thesis
      using Cons.IH [OF i sm(2) Cons.prems(3) ys] by simp
  next
    case False
    then have lt: "sb_offset b < length content" using le by simp
    note st = smooth_round [OF Cons.prems(1) sm(1) Cons.prems(3) r lt]
    have "sb_completion b \<noteq> Complete" using Cons.prems(1) False
      by (auto simp: file_inv_def file_source_ok_def split: DataSource.splits)
    then show ?thesis using Cons.IH [OF i sm(2) Cons.prems(3) ys] st Cons.prems(5,6) by auto
  qed
qed auto

lemma file_body_delivers:
  assumes "body_rounds sha1 os c obs (b, w) = (xs, b', w')" "b = (new_file p)\<lparr>sb_bwm := throttle, sb_traffic_stats := traffic\<rparr>"
    and "list_all (smooth content) obs" "length content = fp_total_size p" "fp_total_size p < 2 ^ 64 - 1"
    and "2 * fp_total_size p + 2 \<le> length obs"
  shows "sb_completion b' = Complete \<and> concat xs = content"
proof -
  have i: "file_inv sha1 os c p content (bw_handler w) (bw_fs w) [] b w"
    using file_inv_new [OF assms(4), of sha1 os c "bw_handler w" w] unfolding assms(2) by (simp add: file_inv_def)
  have "rounds_left b < length obs" "sb_completion b = Body_running"
    using assms(6) unfolding assms(2) by (auto simp: rounds_left_def new_file_def body_with_def)
  then have c: "sb_completion b' = Complete" using smooth_rounds [OF i assms(3) _ assms(1)] assms(4,5) by simp
  have "list_all (\<lambda>ob. ob_content ob = content) obs" using assms(3) by (auto simp: list_all_iff smooth_def)
  from file_body.rounds_inv [OF i this assms(1)] c show ?thesis
    by (auto simp: file_inv_def file_source_ok_def split: DataSource.splits)
qed

text \<open>
  A cached file does arrive: when reads succeed and bandwidth is granted, a body of \<open>n\<close> bytes is
  complete within \<open>2 n + 2\<close> rounds, and what was sent is the file.
\<close>

theorem file_body_completes:
  assumes "body_rounds sha1 os c obs (b, w) = (xs, b', w')" "b = new_file p \<or> b = enable_flow_control (new_file p)"
    and "list_all (smooth content) obs" "length content = fp_total_size p" "fp_total_size p < 2 ^ 64 - 1"
    and "2 * fp_total_size p + 2 \<le> length obs"
  shows "sb_completion b' = Complete \<and> concat xs = content"
proof -
  have "b = (new_file p)\<lparr>sb_bwm := sb_bwm b, sb_traffic_stats := False\<rparr>"
    using assms(2) by (auto simp: new_file_def body_with_def enable_flow_control_def)
  from file_body_delivers [OF assms(1) this assms(3-6)] show ?thesis .
qed

theorem file_body_completes_witness:
  "concat (fst (body_rounds sample_sha1 sample_os sample_config (replicate 10 sample_obs)
     (enable_flow_control (new_file sample_params), sample_world))) = ''abcd''"
proof -
  obtain xs b' w' where r: "body_rounds sample_sha1 sample_os sample_config (replicate 10 sample_obs)
      (enable_flow_control (new_file sample_params), sample_world) = (xs, b', w')" by (metis prod_cases3)
  have "list_all (smooth ''abcd'') (replicate 10 sample_obs)" "length ''abcd'' = fp_total_size sample_params"
    "fp_total_size sample_params < 2 ^ 64 - 1" "2 * fp_total_size sample_params + 2 \<le> length (replicate 10 sample_obs)"
    by (simp_all add: list_all_iff smooth_def sample_obs_def sample_params_def)
  from file_body_completes [OF r _ this] show ?thesis using r by simp
qed

lemma round_continue:
  assumes "poll_round sha1 os c ob (b, w) = (Continue, b', w')" "\<not> ob_wait_ready ob"
  shows "sb_throttle_fut b' \<noteq> None"
proof -
  have g: "proxy_check ob n m \<noteq> (Gate_continue, v)" for n m v
    using assms(2) by (auto simp: proxy_check_def Let_def split: DownloadState.splits if_splits)
  show ?thesis using assms(1) g
    by (auto simp: poll_round_def send_step_def Let_def split: prod.splits if_splits proxy_gate.splits chunk_result.splits)
qed

lemma round_throttled:
  assumes "sb_throttle_fut b \<noteq> None" "\<not> ob_wait_ready ob"
  shows "fst (poll_round sha1 os c ob (b, w)) \<noteq> Continue"
proof -
  have g: "fst (proxy_check ob n m) \<noteq> Gate_continue" for n m
    using assms(2) by (auto simp: proxy_check_def Let_def split: DownloadState.splits if_splits)
  obtain k where k: "sb_throttle_fut b = Some k" using assms(1) by auto
  have s: "fst (send_step sha1 os c ob (b1, w1)) \<noteq> Continue" if "sb_throttled b1" for b1 w1
    using that by (auto simp: send_step_def Let_def split: prod.splits chunk_result.splits)
  show ?thesis
  proof (cases "fst (proxy_check ob (sb_offset b) (sb_total_size b))")
    case Gate_continue
    then show ?thesis using g by simp
  qed (auto simp: poll_round_def throttle_done_def k s split: prod.split proxy_gate.split)
qed

text \<open>
  The loop of a poll ends: unless the download publishes progress in between, it returns by its
  second round.
\<close>

theorem poll_frame_returns:
  assumes "\<not> ob_wait_ready ob1" "\<not> ob_wait_ready ob2"
  shows "\<exists>s bw1. s \<noteq> Continue \<and> poll_frame sha1 os c [ob1, ob2] bw = Some (s, bw1)"
proof -
  obtain b w where bw: "bw = (b, w)" by force
  obtain s b1 w1 where r: "poll_round sha1 os c ob1 (b, w) = (s, b1, w1)" by (metis prod_cases3)
  obtain s2 bw2 where r2: "poll_round sha1 os c ob2 (b1, w1) = (s2, bw2)" by (meson surj_pair)
  show ?thesis
  proof (cases "s = Continue")
    case True
    have "sb_throttle_fut b1 \<noteq> None" using round_continue r True assms(1) by blast
    from round_throttled [OF this assms(2), of sha1 os c w1] have "s2 \<noteq> Continue" using r2 by simp
    then show ?thesis using bw r r2 True by (cases s2) auto
  next
    case False
    then show ?thesis using bw r by (cases s) auto
  qed
qed

theorem poll_frame_returns_witness:
  "poll_frame sample_sha1 sample_os sample_config [sample_obs, sample_obs] (new_file sample_params, sample_world) \<noteq> None"
  using poll_frame_returns [of sample_obs sample_obs sample_sha1 sample_os sample_config "(new_file sample_params, sample_world)"]
  by (auto simp: sample_obs_def)

end
