(* ===== verification/Hath_Shutdown.thy ===== *)
theory Hath_Shutdown
  imports Hath_Utils
begin

text \<open>
  How the process ends: the shutdown request with its cause (\<^verbatim>\<open>src/src/shutdown.rs\<close>), the set of
  transfer tasks that is drained before the cache snapshot is written (\<^verbatim>\<open>src/src/tasks.rs\<close>), and the
  periodic background tasks (\<^verbatim>\<open>BackgroundTasks\<close> of \<^verbatim>\<open>src/src/client.rs\<close>). What a task does is not
  part of the model; that it returns, panics, is aborted or outlives the deadline is, as an explicit
  schedule of events.
\<close>

subsection \<open>Shutdown requests\<close>

datatype ShutdownReason = Signal string | Failure HathError

record Shutdown =
  sd_cancelled :: bool
  sd_reason :: "ShutdownReason option"

definition Shutdown_default :: Shutdown where
  "Shutdown_default = \<lparr>sd_cancelled = False, sd_reason = None\<rparr>"

definition request :: "ShutdownReason \<Rightarrow> Shutdown \<Rightarrow> Shutdown" where
  "request reason s =
     (case sd_reason s of
        None \<Rightarrow> s\<lparr>sd_reason := Some reason, sd_cancelled := True\<rparr>
      | Some _ \<Rightarrow> s\<lparr>sd_cancelled := True\<rparr>)"

definition shutdown_fail :: "HathError \<Rightarrow> Shutdown \<Rightarrow> Shutdown" where
  "shutdown_fail e s = request (Failure e) s"

definition is_cancelled :: "Shutdown \<Rightarrow> bool" where
  "is_cancelled s = sd_cancelled s"

text \<open>The reason is taken out: a second call finds none.\<close>

definition shutdown_result :: "Shutdown \<Rightarrow> unit res \<times> Shutdown" where
  "shutdown_result s =
     (case sd_reason s of
        Some (Signal _) \<Rightarrow> (Inr (), s\<lparr>sd_reason := None\<rparr>)
      | Some (Failure e) \<Rightarrow> (Inl e, s\<lparr>sd_reason := None\<rparr>)
      | None \<Rightarrow> (Inl (Fatal ''Shutdown requested without a reason''), s))"

subsection \<open>Transfer tasks\<close>

text \<open>A task of the join set: still running, or ended with \<^verbatim>\<open>Ok\<close> or with a join error.\<close>

datatype task_status = Running | Ended_ok | Ended_error

record TransferTasks =
  tt_inner :: "task_status list option"
  tt_clean :: bool
  tt_shutdown :: Shutdown

definition TransferTasks_new :: "Shutdown \<Rightarrow> TransferTasks" where
  "TransferTasks_new sd = \<lparr>tt_inner = Some [], tt_clean = True, tt_shutdown = sd\<rparr>"

definition invalidate :: "TransferTasks \<Rightarrow> TransferTasks" where
  "invalidate t = t\<lparr>tt_clean := False\<rparr>"

text \<open>Spawning reaps the ended tasks first; after \<^verbatim>\<open>finish\<close> nothing is spawned any more.\<close>

definition spawn :: "TransferTasks \<Rightarrow> bool \<times> TransferTasks" where
  "spawn t =
     (case tt_inner t of
        None \<Rightarrow> (False, t)
      | Some tasks \<Rightarrow>
          (let t1 = (if Ended_error \<in> set tasks then invalidate t else t)
           in (True, t1\<lparr>tt_inner := Some (filter (\<lambda>x. x = Running) tasks @ [Running])\<rparr>)))"

text \<open>The wrapper around every future: a panic is caught, marks the set and fails the process.\<close>

definition task_ends :: "nat \<Rightarrow> bool \<Rightarrow> TransferTasks \<Rightarrow> TransferTasks" where
  "task_ends i panicked t =
     (case tt_inner t of
        None \<Rightarrow> t
      | Some tasks \<Rightarrow>
          if i < length tasks \<and> tasks ! i = Running then
            let t1 = t\<lparr>tt_inner := Some (tasks[i := Ended_ok])\<rparr>
            in if panicked
               then t1\<lparr>tt_clean := False, tt_shutdown := shutdown_fail (Fatal ''transfer task panicked'') (tt_shutdown t1)\<rparr>
               else t1
          else t)"

text \<open>
  What the drain waits for: one task ends after another, possibly with a panic or a join error. When
  the list of events is exhausted the deadline has passed.
\<close>

datatype drain_event = Joined | Joined_panic | Join_error

fun drain :: "drain_event list \<Rightarrow> nat \<Rightarrow> bool \<Rightarrow> bool" where
  "drain es 0 clean = clean"
| "drain [] (Suc n) clean = False"
| "drain (e # es) (Suc n) clean = drain es n (clean \<and> e = Joined)"

definition finish :: "drain_event list \<Rightarrow> TransferTasks \<Rightarrow> bool \<times> TransferTasks" where
  "finish es t =
     (case tt_inner t of
        None \<Rightarrow> (tt_clean t, t)
      | Some tasks \<Rightarrow>
          let running = length (filter (\<lambda>x. x = Running) tasks);
              clean = drain es running (tt_clean t \<and> Ended_error \<notin> set tasks);
              panics = Joined_panic \<in> set (take running es);
              sd = (if panics then shutdown_fail (Fatal ''transfer task panicked'') (tt_shutdown t) else tt_shutdown t)
          in (clean, t\<lparr>tt_inner := None, tt_clean := clean, tt_shutdown := sd\<rparr>))"

subsection \<open>Background tasks\<close>

text \<open>What joining a background task gives before the timeout; a missing answer is the timeout.\<close>

datatype join_result = Join_ok | Join_cancelled | Join_failed string

record BackgroundTask =
  bt_name :: string
  bt_handle :: "join_result option"

record join_report =
  jr_clean :: bool
  jr_joined :: "string list"
  jr_aborted :: "string list"

fun join_for :: "BackgroundTask list \<Rightarrow> join_report" where
  "join_for [] = \<lparr>jr_clean = True, jr_joined = [], jr_aborted = []\<rparr>"
| "join_for (task # tasks) =
     (case bt_handle task of
        Some Join_ok \<Rightarrow> (let r = join_for tasks in r\<lparr>jr_joined := bt_name task # jr_joined r\<rparr>)
      | Some _ \<Rightarrow> \<lparr>jr_clean = False, jr_joined = [bt_name task], jr_aborted = map bt_name tasks\<rparr>
      | None \<Rightarrow> \<lparr>jr_clean = False, jr_joined = [], jr_aborted = bt_name task # map bt_name tasks\<rparr>)"

text \<open>
  The first task to stop ends the client: its index is what \<^verbatim>\<open>select_all\<close> answers. No task means
  waiting for ever.
\<close>

definition wait_for_failure :: "nat \<Rightarrow> string \<Rightarrow> BackgroundTask list \<Rightarrow> (HathError \<times> BackgroundTask list) option" where
  "wait_for_failure index result tasks =
     (if index < length tasks
      then Some (Fatal (''background task '' @ bt_name (tasks ! index) @ '' stopped unexpectedly: '' @ result),
                 take index tasks @ drop (Suc index) tasks)
      else None)"

subsection \<open>Machines\<close>

datatype transfer_op = Spawn | Task_end nat bool | Invalidate

definition transfer_step :: "TransferTasks \<Rightarrow> transfer_op \<Rightarrow> TransferTasks" where
  "transfer_step t op =
     (case op of
        Spawn \<Rightarrow> snd (spawn t)
      | Task_end i p \<Rightarrow> task_ends i p t
      | Invalidate \<Rightarrow> invalidate t)"

text \<open>No join error can appear in an open set: a wrapper never panics and is aborted only by \<^verbatim>\<open>finish\<close>.\<close>

definition transfer_inv :: "TransferTasks \<Rightarrow> bool" where
  "transfer_inv t \<longleftrightarrow> (case tt_inner t of None \<Rightarrow> True | Some ts \<Rightarrow> Ended_error \<notin> set ts)"

interpretation transfer: invariant_machine transfer_step transfer_inv
proof
  fix s e
  assume "transfer_inv s"
  then show "transfer_inv (transfer_step s e)"
    by (cases e) (auto simp: transfer_inv_def transfer_step_def spawn_def task_ends_def invalidate_def Let_def
        dest!: set_update_subset_insert [THEN subsetD] split: option.splits if_splits)
qed

interpretation shutdown_requests: invariant_machine "\<lambda>s r. request r s" "\<lambda>s. sd_reason s = Some r"
  by unfold_locales (simp add: request_def)

lemma drain_iff: "drain es n clean \<longleftrightarrow> n = 0 \<and> clean \<or> clean \<and> n \<le> length es \<and> set (take n es) \<subseteq> {Joined}"
  by (induction es n clean rule: drain.induct) auto

lemma clean_antitone: "tt_clean (foldl transfer_step t ops) \<Longrightarrow> tt_clean t"
proof (induction ops arbitrary: t)
  case (Cons x xs)
  have "tt_clean (transfer_step t x) \<Longrightarrow> tt_clean t"
    by (cases x) (auto simp: transfer_step_def spawn_def task_ends_def invalidate_def Let_def split: option.splits if_splits)
  then show ?case using Cons by simp
qed simp

subsection \<open>Properties\<close>

text \<open>
  The first shutdown request decides how the process ends. Whatever requests follow it, the
  token stays cancelled and the result is success if the first reason was a signal and the first
  failure's error otherwise.
\<close>

theorem first_reason_wins:
  "is_cancelled (foldl (\<lambda>s r. request r s) Shutdown_default (r # rs))
   \<and> fst (shutdown_result (foldl (\<lambda>s r. request r s) Shutdown_default (r # rs)))
     = (case r of Signal _ \<Rightarrow> Inr () | Failure e \<Rightarrow> Inl e)"
proof -
  let ?s = "foldl (\<lambda>s r. request r s) (request r Shutdown_default) rs"
  have "sd_reason ?s = Some r"
    by (rule shutdown_requests.run_inv) (simp add: request_def Shutdown_default_def)
  moreover have "sd_cancelled s \<Longrightarrow> sd_cancelled (foldl (\<lambda>s r. request r s) s rs)" for s
    by (induction rs arbitrary: s) (auto simp: request_def split: option.splits)
  then have "sd_cancelled ?s" by (simp add: request_def Shutdown_default_def)
  ultimately show ?thesis
    by (auto simp: is_cancelled_def shutdown_result_def split: ShutdownReason.splits)
qed

definition running_tasks :: "TransferTasks \<Rightarrow> nat" where
  "running_tasks t = (case tt_inner t of None \<Rightarrow> 0 | Some ts \<Rightarrow> length (filter (\<lambda>x. x = Running) ts))"

definition transfers_after :: "Shutdown \<Rightarrow> transfer_op list \<Rightarrow> TransferTasks" where
  "transfers_after sd ops = foldl transfer_step (TransferTasks_new sd) ops"

lemma transfers_open: "\<exists>ts. tt_inner (transfers_after sd ops) = Some ts \<and> Ended_error \<notin> set ts"
proof -
  have "\<exists>ts. tt_inner (foldl transfer_step t ops) = Some ts" if "\<exists>ts. tt_inner t = Some ts" for t
    using that
  proof (induction ops arbitrary: t)
    case (Cons x xs)
    then have "\<exists>ts. tt_inner (transfer_step t x) = Some ts"
      by (cases x) (auto simp: transfer_step_def spawn_def task_ends_def invalidate_def Let_def)
    then show ?case using Cons.IH by simp
  qed simp
  then have "\<exists>ts. tt_inner (transfers_after sd ops) = Some ts"
    by (simp add: transfers_after_def TransferTasks_new_def)
  moreover have "transfer_inv (transfers_after sd ops)"
    unfolding transfers_after_def by (rule transfer.run_inv) (simp add: transfer_inv_def TransferTasks_new_def)
  ultimately show ?thesis by (auto simp: transfer_inv_def)
qed

lemma clean_no_invalidate: "tt_clean (foldl transfer_step t ops) \<Longrightarrow> Invalidate \<notin> set ops"
proof (induction ops arbitrary: t)
  case (Cons x xs)
  have "tt_clean (transfer_step t x)" using Cons.prems clean_antitone by simp
  then have "x \<noteq> Invalidate" by (auto simp: transfer_step_def invalidate_def)
  then show ?case using Cons by auto
qed simp

text \<open>
  C16: Draining is exact. After any history of spawned, ended, panicked and invalidated transfers,
  \<^verbatim>\<open>finish\<close> reports a clean end if and only if the set was still clean (in particular nothing ever
  invalidated it) and every transfer that is still running ends normally before the deadline; from
  then on no transfer is started any more.
\<close>

theorem transfers_drain:
  "(fst (finish es (transfers_after sd ops)) \<longleftrightarrow>
     tt_clean (transfers_after sd ops) \<and> Invalidate \<notin> set ops
     \<and> running_tasks (transfers_after sd ops) \<le> length es
     \<and> set (take (running_tasks (transfers_after sd ops)) es) \<subseteq> {Joined})
   \<and> fst (spawn (snd (finish es (transfers_after sd ops)))) = False"
proof -
  obtain ts where ts: "tt_inner (transfers_after sd ops) = Some ts" "Ended_error \<notin> set ts"
    using transfers_open by blast
  have inv: "tt_clean (transfers_after sd ops) \<Longrightarrow> Invalidate \<notin> set ops"
    unfolding transfers_after_def by (rule clean_no_invalidate)
  have "fst (spawn (snd (finish es (transfers_after sd ops)))) = False"
    using ts by (simp add: finish_def spawn_def Let_def)
  moreover have "fst (finish es (transfers_after sd ops)) \<longleftrightarrow>
     tt_clean (transfers_after sd ops) \<and> running_tasks (transfers_after sd ops) \<le> length es
     \<and> set (take (running_tasks (transfers_after sd ops)) es) \<subseteq> {Joined}"
    using ts by (auto simp: finish_def Let_def drain_iff running_tasks_def)
  ultimately show ?thesis using inv by blast
qed

text \<open>
  A panic is never forgotten. Once a running transfer has panicked, the process is asked to shut
  down and no later drain is clean, whatever happens in between.
\<close>

theorem transfer_panic_sticks:
  assumes "tt_inner t = Some ts" "i < length ts" "ts ! i = Running"
  shows "\<not> fst (finish es (foldl transfer_step (task_ends i True t) ops))
    \<and> is_cancelled (tt_shutdown (foldl transfer_step (task_ends i True t) ops))"
proof -
  let ?t = "task_ends i True t"
  have t: "\<not> tt_clean ?t" "is_cancelled (tt_shutdown ?t)"
    using assms by (auto simp: task_ends_def Let_def shutdown_fail_def request_def is_cancelled_def split: option.splits)
  have "\<not> tt_clean (foldl transfer_step ?t ops)" using t(1) clean_antitone [of ?t ops] by blast
  then have "\<not> fst (finish es (foldl transfer_step ?t ops))"
    by (auto simp: finish_def Let_def drain_iff split: option.splits)
  moreover have "is_cancelled (tt_shutdown s) \<Longrightarrow> is_cancelled (tt_shutdown (foldl transfer_step s ops))" for s
  proof (induction ops arbitrary: s)
    case (Cons x xs)
    have "is_cancelled (tt_shutdown (transfer_step s x))"
      using Cons.prems by (cases x) (auto simp: transfer_step_def spawn_def task_ends_def invalidate_def Let_def
          shutdown_fail_def request_def is_cancelled_def split: option.splits)
    then show ?case using Cons.IH by simp
  qed simp
  ultimately show ?thesis using t(2) by blast
qed

theorem transfer_panic_sticks_witness:
  "\<not> fst (finish [Joined, Joined] (foldl transfer_step
      (task_ends 0 True (transfers_after Shutdown_default [Spawn])) [Spawn]))"
  using transfer_panic_sticks [of "transfers_after Shutdown_default [Spawn]" "[Running]" 0 "[Joined, Joined]" "[Spawn]"]
  by (simp add: transfers_after_def transfer_step_def spawn_def TransferTasks_new_def)

text \<open>
  Joining the background tasks leaves none of them behind. Every task was joined or aborted, and
  the join is clean exactly when all tasks returned without an error before the timeout.
\<close>

theorem background_join_complete:
  "jr_joined (join_for tasks) @ jr_aborted (join_for tasks) = map bt_name tasks
   \<and> (jr_clean (join_for tasks) \<longleftrightarrow> list_all (\<lambda>t. bt_handle t = Some Join_ok) tasks)"
  by (induction tasks rule: join_for.induct) (auto simp: Let_def split: option.splits join_result.splits)

end
