(* ===== verification/Hath_Proxy.thy ===== *)
theory Hath_Proxy
  imports Hath_Body Hath_Shutdown
begin

text \<open>
  On-demand downloads, \<^verbatim>\<open>src/src/proxy_downloader.rs\<close>: starting one, the task that receives it, and the
  move of the verified file into the cache. The second half puts the task and the body that serves the
  same bytes together as a step relation, at the granularity of single writes, publications and rounds
  of the body's loop.

  The name suffix (\<^verbatim>\<open>Uuid::now_v7\<close>), the clock and whether the LRU lock is free are parameters.
\<close>

subsection \<open>Starting a download\<close>

record ProxyDownload =
  pd_content_length :: nat
  pd_content_type :: string
  pd_temp_file :: path

record 'u ProxyDownloadTask =
  pt_upstream :: "'u Upstream"
  pt_response :: "body_event list"
  pt_temp_file :: path
  pt_hv_file :: HVFile

definition temp_path :: "Config \<Rightarrow> HVFile \<Rightarrow> string \<Rightarrow> path" where
  "temp_path c hv uuid = cfg_temp_dir c @ [''proxyfile_'' @ fileid_str (fileid hv) @ ''_'' @ uuid]"

definition TempFile_create :: "os \<Rightarrow> Config \<Rightarrow> HVFile \<Rightarrow> string \<Rightarrow> fs \<Rightarrow> path res \<times> fs" where
  "TempFile_create os c hv uuid f =
     (let p = temp_path c hv uuid in
      if path_exists f p then (Inl (Io ''create_new''), f)
      else case fs_write os f p [] of
          (Some _, f1) \<Rightarrow> (Inl (Io ''create_new''), f1)
        | (None, f1) \<Rightarrow> (Inr p, f1))"

definition TempFile_drop :: "os \<Rightarrow> path \<Rightarrow> fs \<Rightarrow> fs" where
  "TempFile_drop os p f = remove_file os f p"

text \<open>A future that is not spawned is dropped, and its temporary file with it.\<close>

definition proxy_start :: "'u upstream_env \<Rightarrow> (u16 \<Rightarrow> string) \<Rightarrow> digest \<Rightarrow> os \<Rightarrow> string \<Rightarrow> string \<Rightarrow> 'u list \<Rightarrow> Config
    \<Rightarrow> TransferTasks \<times> fs \<Rightarrow> (ProxyDownload \<times> 'u ProxyDownloadTask) res \<times> TransferTasks \<times> fs" where
  "proxy_start env text sha1 os uuid fid sources c tf =
     (case tf of (tasks, f) \<Rightarrow>
      case from_fileid fid of
        None \<Rightarrow> (Inl (Parse (''invalid fileid: '' @ fid)), tasks, f)
      | Some hv \<Rightarrow>
          (case Upstream_new sha1 sources hv c of
             Inl e \<Rightarrow> (Inl (connect_hath_error text e), tasks, f)
           | Inr u \<Rightarrow>
               (case connect env u of
                  (Inl e, _) \<Rightarrow> (Inl (connect_hath_error text e), tasks, f)
                | (Inr response, u1) \<Rightarrow>
                    (case TempFile_create os c hv uuid f of
                       (Inl e, f1) \<Rightarrow> (Inl e, tasks, f1)
                     | (Inr p, f1) \<Rightarrow>
                         (case spawn tasks of
                            (False, tasks1) \<Rightarrow> (Inl Shutdown_requested, tasks1, TempFile_drop os p f1)
                          | (True, tasks1) \<Rightarrow>
                              (Inr (\<lparr>pd_content_length = unat (hv_size hv), pd_content_type = mime_type hv, pd_temp_file = p\<rparr>,
                                    \<lparr>pt_upstream = u1, pt_response = response, pt_temp_file = p, pt_hv_file = hv\<rparr>),
                               tasks1, f1))))))"

subsection \<open>The task\<close>

definition copy_temp_to_cache_and_delete :: "os \<Rightarrow> path \<Rightarrow> path \<Rightarrow> fs \<Rightarrow> bool \<times> fs" where
  "copy_temp_to_cache_and_delete os temp_file cache_p f =
     (case fs_read os f temp_file of
        Inl _ \<Rightarrow> (False, f)
      | Inr content \<Rightarrow>
          (case fs_write os f cache_p content of
             (Some _, f1) \<Rightarrow> (False, f1)
           | (None, f1) \<Rightarrow> (True, remove_file os f1 temp_file)))"

definition move_temp_to_cache :: "os \<Rightarrow> path \<Rightarrow> path \<Rightarrow> fs \<Rightarrow> bool \<times> fs" where
  "move_temp_to_cache os temp_file cache_p f =
     (case fs_rename os f temp_file cache_p of
        Inr f1 \<Rightarrow> (True, f1)
      | Inl _ \<Rightarrow> copy_temp_to_cache_and_delete os temp_file cache_p f)"

definition finalize :: "os \<Rightarrow> path \<Rightarrow> path \<Rightarrow> fs \<Rightarrow> bool \<times> fs" where
  "finalize os temp_file cache_p f =
     (case ensure_dir os f (parent cache_p) of
        (Some _, f1) \<Rightarrow> (False, f1)
      | (None, f1) \<Rightarrow> move_temp_to_cache os temp_file cache_p f1)"

text \<open>The bytes the download left in the temporary file, if it could be opened.\<close>

definition store_temp :: "os \<Rightarrow> path \<Rightarrow> transfer option \<Rightarrow> fs \<Rightarrow> fs" where
  "store_temp os p t f =
     (case t of
        None \<Rightarrow> f
      | Some tr \<Rightarrow> if is_file f p then AList.update p (File (pf_file (tr_file tr)) (os_now_ms os)) f else f)"

definition with_stats :: "transfer option \<Rightarrow> CacheHandler \<Rightarrow> CacheHandler" where
  "with_stats t h = (case t of None \<Rightarrow> h | Some tr \<Rightarrow> h\<lparr>ch_stats := tr_stats tr\<rparr>)"

definition published :: "transfer option \<Rightarrow> DownloadState list" where
  "published t = (case t of None \<Rightarrow> [InProgress 0] | Some tr \<Rightarrow> tr_progress tr)"

definition proxy_task_run :: "'u upstream_env \<Rightarrow> digest \<Rightarrow> os \<Rightarrow> Config \<Rightarrow> bool \<Rightarrow> u64 \<Rightarrow> 'u ProxyDownloadTask
    \<Rightarrow> CacheHandler \<times> fs \<Rightarrow> DownloadState list \<times> CacheHandler \<times> fs" where
  "proxy_task_run env sha1 os c lock_free now task hf =
     (case hf of (h, f) \<Rightarrow>
      case upstream_download env sha1 (pt_response task) (pt_upstream task) [InProgress 0] (ch_stats h) of
        (Some e, _, t) \<Rightarrow>
          (published t @ [Failed (download_reason e)], with_stats t h,
           TempFile_drop os (pt_temp_file task) (store_temp os (pt_temp_file task) t f))
      | (None, _, t) \<Rightarrow>
          let h1 = with_stats t h;
              h2 = h1\<lparr>ch_stats := record_file_rcvd (ch_stats h1)\<rparr>;
              hv = pt_hv_file task
          in case finalize os (pt_temp_file task) (cache_path (cfg_cache_dir c) hv) (store_temp os (pt_temp_file task) t f) of
               (True, f1) \<Rightarrow>
                 (published t @ [Download_done], register_proxy_file lock_free now c hv h2, TempFile_drop os (pt_temp_file task) f1)
             | (False, f1) \<Rightarrow>
                 (published t @ [Failed FinalizeFailed], h2, TempFile_drop os (pt_temp_file task) f1))"

subsection \<open>What reaches the cache\<close>

text \<open>The temporary file does not lie on the way to the cached one.\<close>

definition paths_apart :: "path \<Rightarrow> path \<Rightarrow> bool" where
  "paths_apart temp cp \<longleftrightarrow> temp \<noteq> cp \<and> temp \<noteq> parent cp \<and> temp \<notin> set (prefixes (parent cp))"

lemma move_ok:
  assumes "move_temp_to_cache os temp cp f = (ok, f1)" "fs_get f temp = Some (File content t)" "temp \<noteq> cp"
  shows "(ok \<longrightarrow> (\<exists>t'. fs_get f1 cp = Some (File content t'))) \<and> fs_get f1 temp \<noteq> Some Dir"
proof (cases "fs_rename os f temp cp")
  case (Inr f2)
  then have "f1 = f2" "ok" using assms(1) by (simp_all add: move_temp_to_cache_def)
  then show ?thesis using Inr assms(2,3)
    by (auto simp: fs_rename_def split: option.splits node.splits if_splits)
next
  case (Inl e)
  then have c: "copy_temp_to_cache_and_delete os temp cp f = (ok, f1)" using assms(1) by (simp add: move_temp_to_cache_def)
  show ?thesis
  proof (cases "fs_read os f temp")
    case (Inl e)
    then show ?thesis using c assms(2) by (auto simp: copy_temp_to_cache_and_delete_def)
  next
    case (Inr content')
    then have [simp]: "content' = content" using assms(2) by (auto simp: fs_read_Inr)
    obtain r f2 where w: "fs_write os f cp content = (r, f2)" by force
    have fr: "fs_get f2 temp = Some (File content t)" using fs_write_frame [OF assms(3), of os f content] w assms(2) by simp
    show ?thesis
    proof (cases r)
      case None
      then have "f2 = AList.update cp (File content (os_now_ms os)) f" using w fs_write_ok by metis
      moreover have "f1 = remove_file os f2 temp" "ok" using c Inr w None by (auto simp: copy_temp_to_cache_and_delete_def)
      ultimately show ?thesis using fr assms(3) by (auto simp: remove_file_get)
    next
      case (Some e)
      then show ?thesis using c Inr w fr by (auto simp: copy_temp_to_cache_and_delete_def)
    qed
  qed
qed

lemma finalize_ok:
  assumes "finalize os temp cp f = (ok, f1)" "fs_get f temp = Some (File content t)" "paths_apart temp cp"
  shows "(ok \<longrightarrow> (\<exists>t'. fs_get f1 cp = Some (File content t'))) \<and> fs_get f1 temp \<noteq> Some Dir"
proof -
  obtain r f2 where e: "ensure_dir os f (parent cp) = (r, f2)" by force
  have fr: "fs_get f2 temp = Some (File content t)"
    using ensure_dir_frame [of temp "parent cp" os f] e assms(2,3) by (simp add: paths_apart_def)
  show ?thesis
  proof (cases r)
    case None
    then have "move_temp_to_cache os temp cp f2 = (ok, f1)" using assms(1) e by (simp add: finalize_def)
    then show ?thesis using move_ok fr assms(3) unfolding paths_apart_def by blast
  next
    case (Some x)
    then show ?thesis using assms(1) e fr by (auto simp: finalize_def)
  qed
qed

lemma drop_removes:
  assumes "fs_get f temp \<noteq> Some Dir" "\<not> os_denied os Unlink temp"
  shows "fs_get (TempFile_drop os temp f) temp = None"
  using assms by (auto simp: TempFile_drop_def remove_file_def fs_remove_file_def split: option.splits node.splits)

lemma drop_frame: "q \<noteq> temp \<Longrightarrow> fs_get (TempFile_drop os temp f) q = fs_get f q"
  by (simp add: TempFile_drop_def remove_file_get)

lemma store_temp_get:
  "is_file f p \<Longrightarrow> fs_get (store_temp os p (Some tr) f) q = (if q = p then Some (File (pf_file (tr_file tr)) (os_now_ms os)) else fs_get f q)"
  by (simp add: store_temp_def)

lemma download_ok:
  assumes "upstream_download env sha1 es u [InProgress 0] st = (None, u', t)" "up_attempts u \<le> MAX_ATTEMPTS"
  shows "\<exists>tr. t = Some tr \<and> length (pf_file (tr_file tr)) = expected_size u
    \<and> hex_encode (sha1 (pf_file (tr_file tr))) = sha1_str (hv_hash (up_hv_file u))"
proof -
  obtain p where p: "PartialFile_open env (expected_size u) = Some p"
    using assms(1) by (cases "PartialFile_open env (expected_size u)") (auto simp: upstream_download_def)
  then have cl: "clean_file p" "pf_expected_size p = expected_size u"
    by (auto simp: PartialFile_open_def clean_file_def hashed_def split: if_splits)
  let ?t = "\<lparr>tr_file = p, tr_progress = [InProgress 0], tr_stats = st\<rparr>"
  obtain u1 tr where r: "recover env sha1 es u ?t = (None, u1, tr)" "t = Some tr"
    using assms(1) p by (auto simp: upstream_download_def split: prod.splits)
  have "recovered_well sha1 u ?t (None, u1, tr)" using recover_spec [of ?t sha1 u env es] cl(1) r(1) by simp
  then show ?thesis using r(2) cl(2) by (simp add: recovered_well_def)
qed

lemma with_stats_eq: "\<exists>st. with_stats t h = h\<lparr>ch_stats := st\<rparr>"
  by (cases t) (auto simp: with_stats_def intro: exI [of _ "ch_stats h"])

text \<open>
  C4: Only verified files enter the cache. However a download task ends, its temporary file is gone; it
  reports success exactly when the cache holds a file of the announced size whose hash is that of the
  file id, registered once; otherwise the cache accounting is untouched, and when the download itself
  failed so is every other file.
\<close>

theorem proxy_task_outcome:
  assumes "proxy_task_run env sha1 os c lock_free now task (h, f) = (ps, h', f')"
    and "is_file f (pt_temp_file task)" "\<not> os_denied os Unlink (pt_temp_file task)"
    and "paths_apart (pt_temp_file task) (cache_path (cfg_cache_dir c) (pt_hv_file task))"
    and "up_hv_file (pt_upstream task) = pt_hv_file task" "up_attempts (pt_upstream task) \<le> MAX_ATTEMPTS"
  shows "fs_get f' (pt_temp_file task) = None
    \<and> (last ps = Download_done \<longrightarrow>
        (\<exists>content t. fs_get f' (cache_path (cfg_cache_dir c) (pt_hv_file task)) = Some (File content t)
           \<and> length content = unat (hv_size (pt_hv_file task)) \<and> hex_encode (sha1 content) = sha1_str (hv_hash (pt_hv_file task)))
        \<and> (\<exists>st. h' = register_proxy_file lock_free now c (pt_hv_file task) (h\<lparr>ch_stats := st\<rparr>)))
    \<and> (last ps \<noteq> Download_done \<longrightarrow> (\<exists>st. h' = h\<lparr>ch_stats := st\<rparr>)
        \<and> (last ps = Failed FinalizeFailed \<or> (\<forall>q. q \<noteq> pt_temp_file task \<longrightarrow> fs_get f' q = fs_get f q)))"
proof -
  let ?temp = "pt_temp_file task" and ?cp = "cache_path (cfg_cache_dir c) (pt_hv_file task)"
  obtain r u' t where d: "upstream_download env sha1 (pt_response task) (pt_upstream task) [InProgress 0] (ch_stats h) = (r, u', t)"
    by (metis prod_cases3)
  obtain st where st: "with_stats t h = h\<lparr>ch_stats := st\<rparr>" using with_stats_eq by blast
  have sf: "is_file (store_temp os ?temp t f) ?temp"
    using assms(2) by (cases t) (auto simp: store_temp_def is_file_def)
  show ?thesis
  proof (cases r)
    case (Some e)
    then have run: "ps = published t @ [Failed (download_reason e)]" "h' = with_stats t h" "f' = TempFile_drop os ?temp (store_temp os ?temp t f)"
      using assms(1) d by (auto simp: proxy_task_run_def)
    have "fs_get f' ?temp = None" unfolding run(3)
      by (rule drop_removes [OF _ assms(3)]) (use sf in \<open>auto simp: is_file_def\<close>)
    moreover have "fs_get f' q = fs_get f q" if "q \<noteq> ?temp" for q
      using that assms(2) by (cases t) (auto simp: run(3) drop_frame store_temp_def)
    ultimately show ?thesis using run(1,2) st by auto
  next
    case None
    obtain tr where tr: "t = Some tr" "length (pf_file (tr_file tr)) = unat (hv_size (pt_hv_file task))"
      "hex_encode (sha1 (pf_file (tr_file tr))) = sha1_str (hv_hash (pt_hv_file task))"
      using download_ok [OF d [unfolded None] assms(6)] assms(5) by (auto simp: expected_size_def)
    obtain ok f1 where fin: "finalize os ?temp ?cp (store_temp os ?temp t f) = (ok, f1)" by force
    have g: "fs_get (store_temp os ?temp t f) ?temp = Some (File (pf_file (tr_file tr)) (os_now_ms os))"
      unfolding tr(1) by (simp add: store_temp_get [OF assms(2)])
    note fo = finalize_ok [OF fin g assms(4)]
    have f': "f' = TempFile_drop os ?temp f1" using assms(1) d None fin by (auto simp: proxy_task_run_def Let_def split: bool.splits)
    have gone: "fs_get f' ?temp = None" unfolding f' using fo by (intro drop_removes [OF _ assms(3)]) simp
    have cp: "fs_get f' ?cp = fs_get f1 ?cp" unfolding f' using assms(4) by (intro drop_frame) (auto simp: paths_apart_def)
    let ?st = "record_file_rcvd st"
    show ?thesis
    proof (cases ok)
      case True
      then have "last ps = Download_done" "h' = register_proxy_file lock_free now c (pt_hv_file task) (h\<lparr>ch_stats := ?st\<rparr>)"
        using assms(1) d None fin st by (auto simp: proxy_task_run_def Let_def)
      then show ?thesis using gone cp fo True tr by auto
    next
      case False
      then have "last ps = Failed FinalizeFailed" "h' = h\<lparr>ch_stats := ?st\<rparr>"
        using assms(1) d None fin st by (auto simp: proxy_task_run_def Let_def)
      then show ?thesis using gone by auto
    qed
  qed
qed

lemma proxy_task_registers:
  assumes "proxy_task_run env sha1 os c lock_free now task (h, f) = (ps, h', f')" "last ps = Download_done"
  shows "\<exists>st. h' = register_proxy_file lock_free now c (pt_hv_file task) (h\<lparr>ch_stats := st\<rparr>)"
proof -
  obtain r u' t where d: "upstream_download env sha1 (pt_response task) (pt_upstream task) [InProgress 0] (ch_stats h) = (r, u', t)"
    by (metis prod_cases3)
  obtain st where "with_stats t h = h\<lparr>ch_stats := st\<rparr>" using with_stats_eq by blast
  then show ?thesis using assms d
    by (auto simp: proxy_task_run_def Let_def split: option.splits prod.splits bool.splits)
qed

lemma register_counts:
  assumes "unat (ch_cache_count h) + 1 < 2 ^ 32" "unat (ch_cache_size h) + unat (hv_size hv) < 2 ^ 64"
  shows "ch_cache_count (register_proxy_file l n c hv h) = ch_cache_count h + 1
    \<and> ch_cache_size (register_proxy_file l n c hv h) = ch_cache_size h + ucast (hv_size hv)"
  using assms by (auto simp: register_proxy_file_def account_file_added_def Let_def checked_add_def update_cache_stats_def)

text \<open>
  Concurrent requests for one uncached file start independent downloads. When two of them complete,
  the second replaces the file of the first, but both are counted: the cache count and the cache size
  exceed what the cache holds.
\<close>

theorem proxy_counted_twice:
  assumes "proxy_task_run env1 sha1 os c l1 n1 task1 (h, f) = (ps1, h1, f1)" "last ps1 = Download_done"
    and "proxy_task_run env2 sha1 os c l2 n2 task2 (h1, f1) = (ps2, h2, f2)" "last ps2 = Download_done"
    and "pt_hv_file task1 = hv" "pt_hv_file task2 = hv"
    and "unat (ch_cache_count h) + 2 < 2 ^ 32" "unat (ch_cache_size h) + 2 * unat (hv_size hv) < 2 ^ 64"
  shows "ch_cache_count h2 = ch_cache_count h + 2 \<and> ch_cache_size h2 = ch_cache_size h + 2 * ucast (hv_size hv)"
proof -
  obtain st1 st2 where r: "h1 = register_proxy_file l1 n1 c hv (h\<lparr>ch_stats := st1\<rparr>)" "h2 = register_proxy_file l2 n2 c hv (h1\<lparr>ch_stats := st2\<rparr>)"
    using proxy_task_registers [OF assms(1,2)] proxy_task_registers [OF assms(3,4)] assms(5,6) by auto
  have h1: "ch_cache_count h1 = ch_cache_count h + 1" "ch_cache_size h1 = ch_cache_size h + ucast (hv_size hv)"
    unfolding r(1) using register_counts [of "h\<lparr>ch_stats := st1\<rparr>" hv l1 n1 c] assms(7,8) by auto
  have "unat (ch_cache_count h1) = unat (ch_cache_count h) + 1"
    unfolding h1 using assms(7) by (subst unat_add_fits) auto
  moreover have "unat (ch_cache_size h1) = unat (ch_cache_size h) + unat (hv_size hv)"
    unfolding h1 using assms(8) by (subst unat_add_fits) auto
  ultimately show ?thesis unfolding r(2) using register_counts [of "h1\<lparr>ch_stats := st2\<rparr>" hv l2 n2 c] assms(7,8) h1 by auto
qed

subsection \<open>The task and the body together\<close>

record stream =
  sm_content :: string
  sm_watch :: DownloadState
  sm_sender_gone :: bool
  sm_published :: nat
  sm_delivered :: string
  sm_body :: StreamingBody
  sm_world :: body_world

text \<open>
  The task writes to the file, publishes what it has written, reports its end or is aborted; the body
  makes a round on what it then observes. \<open>sm_published\<close> remembers the last progress value.
\<close>

inductive stream_step :: "digest \<Rightarrow> os \<Rightarrow> Config \<Rightarrow> stream \<Rightarrow> stream \<Rightarrow> bool" for sha1 os c where
  written: "sm_watch s = InProgress n \<Longrightarrow> stream_step sha1 os c s (s\<lparr>sm_content := sm_content s @ bs\<rparr>)"
| publishes: "sm_watch s = InProgress n \<Longrightarrow> n \<le> m \<Longrightarrow> m \<le> length (sm_content s) \<Longrightarrow>
    stream_step sha1 os c s (s\<lparr>sm_watch := InProgress m, sm_published := m\<rparr>)"
| fail: "sm_watch s = InProgress n \<Longrightarrow> stream_step sha1 os c s (s\<lparr>sm_watch := Failed r\<rparr>)"
| all_done: "sm_watch s = InProgress (sb_total_size (sm_body s)) \<Longrightarrow> stream_step sha1 os c s (s\<lparr>sm_watch := Download_done\<rparr>)"
| abort: "stream_step sha1 os c s (s\<lparr>sm_sender_gone := True\<rparr>)"
| round: "ob_content ob = sm_content s \<Longrightarrow> ob_watch ob = sm_watch s \<Longrightarrow> ob_sender_gone ob = sm_sender_gone s \<Longrightarrow>
    poll_round sha1 os c ob (sm_body s, sm_world s) = (p, b', w') \<Longrightarrow>
    stream_step sha1 os c s (s\<lparr>sm_body := b', sm_world := w', sm_delivered := sm_delivered s @ delivered p\<rparr>)"

inductive_cases stream_step_cases: "stream_step sha1 os c s s'"

definition stream_start :: "nat \<Rightarrow> bool \<Rightarrow> body_world \<Rightarrow> stream" where
  "stream_start n throttled w =
     \<lparr>sm_content = [], sm_watch = InProgress 0, sm_sender_gone = False, sm_published = 0, sm_delivered = [],
      sm_body = (if throttled then enable_flow_control (new_proxy n True) else new_proxy n True), sm_world = w\<rparr>"

definition proxy_source_ok :: "string \<Rightarrow> nat \<Rightarrow> DataSource \<Rightarrow> bool" where
  "proxy_source_ok content n src \<longleftrightarrow> (case src of Proxy r _ _ \<Rightarrow> reader_ok content n r | _ \<Rightarrow> False)"

definition proxy_inv :: "string \<Rightarrow> nat \<Rightarrow> nat \<Rightarrow> string \<Rightarrow> StreamingBody \<Rightarrow> body_world \<Rightarrow> bool" where
  "proxy_inv content n pub d b w \<longleftrightarrow> sb_total_size b = n \<and> d = take (sb_offset b) content \<and> sb_offset b \<le> n \<and> sb_offset b \<le> pub
     \<and> proxy_source_ok content (sb_offset b) (sb_source b) \<and> (sb_completion b = Complete \<longrightarrow> sb_offset b = n)"

text \<open>What a round may observe: no more progress than was published.\<close>

definition sees :: "string \<Rightarrow> nat \<Rightarrow> nat \<Rightarrow> poll_obs \<Rightarrow> bool" where
  "sees content n pub ob \<longleftrightarrow> ob_content ob = content
     \<and> (case ob_watch ob of InProgress m \<Rightarrow> m \<le> pub | Download_done \<Rightarrow> n \<le> pub | Failed _ \<Rightarrow> True)"

lemma gate_bound:
  assumes "fst (proxy_check ob k n) = Gate_ready" "sees content n pub ob" "k < n"
  shows "k + min TCP_PACKET_SIZE (n - k) \<le> pub"
proof -
  have "0 < min TCP_PACKET_SIZE (n - k)" using assms(3) by (simp add: TCP_PACKET_SIZE_def)
  then show ?thesis using assms(1,2)
    by (auto simp: proxy_check_def sees_def Let_def simp del: min_less_iff_conj split: DownloadState.splits if_splits)
qed

lemma proxy_inv_chunk:
  assumes "proxy_inv content n pub d b w" "sees content n pub ob" "gate_open ob b" "sb_offset b < sb_total_size b"
    and "produce_chunk ob (b\<lparr>sb_throttled := False\<rparr>) = (Chunk_data x, src)"
  shows "proxy_inv content n pub (d @ x) (b\<lparr>sb_throttled := False, sb_source := src, sb_offset := sb_offset b + length x\<rparr>) w"
proof -
  let ?b = "b\<lparr>sb_throttled := False\<rparr>"
  obtain r wt tx where src: "sb_source b = Proxy r wt tx" "reader_ok content (sb_offset b) r"
    using assms(1) by (auto simp: proxy_inv_def proxy_source_ok_def split: DataSource.splits)
  have tot: "sb_total_size b = n" "sb_completion b \<noteq> Complete" using assms(1,4) by (auto simp: proxy_inv_def)
  have ct: "ob_content ob = content" using assms(2) by (simp add: sees_def)
  have "source_ok (ob_content ob) (sb_offset ?b) (sb_total_size ?b) (sb_source ?b)" using src ct by (simp add: source_ok_def)
  from produce_data [OF this _ assms(5)] have x: "x = take (length x) (drop (sb_offset b) content)" "sb_offset b + length x \<le> n"
      and ok: "source_ok content (sb_offset b + length x) n src" using assms(4) ct tot by simp_all
  have le: "length x \<le> min TCP_PACKET_SIZE (n - sb_offset b)"
    using produce_length [OF assms(5)] src tot by (simp add: is_proxy_def)
  have "fst (proxy_check ob (sb_offset b) n) = Gate_ready" using assms(3) src tot by (simp add: gate_open_def is_proxy_def)
  then have "sb_offset b + length x \<le> pub" using gate_bound [OF _ assms(2)] le assms(4) tot by fastforce
  moreover obtain r2 where "src = Proxy r2 wt tx"
    using assms(5) src by (auto simp: produce_chunk_def Let_def split: prod.splits bool.splits if_splits)
  moreover have "take (sb_offset b) content @ x = take (sb_offset b + length x) content" using x(1) by (metis take_add)
  ultimately show ?thesis using assms(1) x(2) ok tot by (auto simp: proxy_inv_def proxy_source_ok_def source_ok_def)
qed

interpretation proxy_body: body_invariant sha1 os c "sees content n pub" "proxy_inv content n pub" for sha1 os c content n pub
proof (unfold_locales, goal_cases)
  case (4 d b w ob x src)
  then show ?case by (intro proxy_inv_chunk) auto
next
  case (5 d b w ob e src)
  obtain r wt tx where s: "sb_source b = Proxy r wt tx" "reader_ok content (sb_offset b) r"
    using 5(1) by (auto simp: proxy_inv_def proxy_source_ok_def split: DataSource.splits)
  obtain r1 where s1: "src = Proxy r1 wt tx"
    using 5(5) s by (auto simp: produce_chunk_def Let_def split: prod.splits bool.splits if_splits)
  have "ob_content ob = content" using 5(2) by (simp add: sees_def)
  then have "source_ok content (sb_offset b) (sb_total_size b) src"
    using produce_done [of ob "b\<lparr>sb_throttled := False\<rparr>" "sb_total_size b" e src] 5(5) s by (simp add: source_ok_def)
  then show ?case using 5(1) s s1 by (auto simp: proxy_inv_def proxy_source_ok_def source_ok_def)
next
  case (6 d b w r b' w')
  note f = finish_with_fields [OF 6(2)]
  obtain rd wt tx where s: "sb_source b = Proxy rd wt tx"
    using 6(1) by (auto simp: proxy_inv_def proxy_source_ok_def split: DataSource.splits)
  then have "sb_source b' = Proxy rd wt False" using f(7) by (simp add: finish_source_def)
  then show ?case using 6(1) s f by (auto simp: proxy_inv_def proxy_source_ok_def split: if_splits)
qed (auto simp: proxy_inv_def proxy_source_ok_def set_wait_def count_stats_def split: DataSource.splits)

definition stream_inv :: "nat \<Rightarrow> stream \<Rightarrow> bool" where
  "stream_inv n s \<longleftrightarrow> sm_published s \<le> length (sm_content s)
     \<and> (case sm_watch s of InProgress m \<Rightarrow> m = sm_published s | Download_done \<Rightarrow> sm_published s = n | Failed _ \<Rightarrow> True)
     \<and> proxy_inv (sm_content s) n (sm_published s) (sm_delivered s) (sm_body s) (sm_world s)"

lemma proxy_inv_mono:
  assumes "proxy_inv content n pub d b w" "pub \<le> pub'" "pub \<le> length content"
  shows "proxy_inv (content @ ext) n pub' d b w"
proof -
  have "sb_offset b \<le> length content" using assms by (simp add: proxy_inv_def)
  moreover have "proxy_source_ok (content @ ext) k src" if "proxy_source_ok content k src" for k src
    using that by (auto simp: proxy_source_ok_def reader_ok_grows split: DataSource.splits)
  ultimately show ?thesis using assms by (simp add: proxy_inv_def)
qed

lemma stream_step_inv:
  assumes "stream_step sha1 os c s s'" "stream_inv n s"
  shows "stream_inv n s'"
  using assms(1)
proof cases
  case (written m bs)
  then show ?thesis using assms(2) proxy_inv_mono [of "sm_content s" n "sm_published s"] by (simp add: stream_inv_def)
next
  case (publishes k m)
  then have "proxy_inv (sm_content s) n m (sm_delivered s) (sm_body s) (sm_world s)"
    using assms(2) proxy_inv_mono [of "sm_content s" n "sm_published s" _ _ _ m "[]"] by (simp add: stream_inv_def)
  then show ?thesis using publishes assms(2) by (simp add: stream_inv_def)
next
  case all_done
  then show ?thesis using assms(2) by (simp add: stream_inv_def proxy_inv_def)
next
  case abort
  then show ?thesis using assms(2) by (cases "sm_watch s") (auto simp: stream_inv_def)
next
  case (round ob p b' w')
  have "sees (sm_content s) n (sm_published s) ob"
    using assms(2) round by (auto simp: stream_inv_def sees_def split: DownloadState.splits)
  then have "proxy_inv (sm_content s) n (sm_published s) (sm_delivered s @ delivered p) b' w'"
    using proxy_body.poll_round_inv [of _ _ _ _ _ _ ob] round assms(2) unfolding stream_inv_def by blast
  then show ?thesis using round assms(2) by (cases "sm_watch s") (auto simp: stream_inv_def)
qed (use assms(2) in \<open>simp_all add: stream_inv_def\<close>)

lemma stream_start_inv: "stream_inv n (stream_start n throttled w)"
  by (simp add: stream_inv_def stream_start_def proxy_inv_def proxy_source_ok_def new_proxy_def body_with_def enable_flow_control_def)

lemma stream_reachable: "(stream_step sha1 os c)\<^sup>*\<^sup>* (stream_start n throttled w) s \<Longrightarrow> stream_inv n s"
  by (induction rule: rtranclp_induct) (auto simp: stream_start_inv intro: stream_step_inv)

text \<open>
  A client of a running download only ever receives published bytes of the file, in order: in every
  interleaving of the task's writes and publications with the body's rounds, what was delivered is a
  prefix of the temporary file, within the published progress. A body that reports completion has
  delivered the first \<open>n\<close> bytes, which is the verified file once the download has succeeded.
\<close>

theorem proxy_stream_prefix:
  assumes "(stream_step sha1 os c)\<^sup>*\<^sup>* (stream_start n throttled w) s"
  shows "sm_delivered s = take (sb_offset (sm_body s)) (sm_content s)
    \<and> sb_offset (sm_body s) \<le> sm_published s \<and> sm_published s \<le> length (sm_content s)
    \<and> (sb_completion (sm_body s) = Complete \<longrightarrow> sm_delivered s = take n (sm_content s))"
  using stream_reachable [OF assms] by (auto simp: stream_inv_def proxy_inv_def)

text \<open>Every transfer of the upstream model is a sequence of the task's steps.\<close>

lemma publish_chain:
  assumes "sorted_wrt (<) (k # ns)" "last (k # ns) \<le> length (sm_content s)" "sm_watch s = InProgress k" "sm_published s = k"
  shows "(stream_step sha1 os c)\<^sup>*\<^sup>* s (s\<lparr>sm_watch := InProgress (last (k # ns)), sm_published := last (k # ns)\<rparr>)"
  using assms
proof (induction ns arbitrary: k s)
  case Nil
  then have "s\<lparr>sm_watch := InProgress k, sm_published := k\<rparr> = s" by simp
  then show ?case by simp
next
  case (Cons m ns)
  let ?s = "s\<lparr>sm_watch := InProgress m, sm_published := m\<rparr>"
  have s: "sorted_wrt (<) (m # ns)" "k < m" using Cons.prems(1) by simp_all
  have "m \<le> last (m # ns)" using s(1) by (cases ns) (auto simp: less_imp_le)
  then have "stream_step sha1 os c s ?s" using Cons.prems s(2) by (intro publishes) auto
  moreover have "(stream_step sha1 os c)\<^sup>*\<^sup>* ?s (?s\<lparr>sm_watch := InProgress (last (m # ns)), sm_published := last (m # ns)\<rparr>)"
    using Cons.prems s(1) by (intro Cons.IH) simp_all
  ultimately show ?case by simp
qed

lemma transfer_refines:
  assumes "advances t t'" "hashed (tr_file t')" "sm_content s = pf_file (tr_file t)" "sm_watch s = InProgress (pf_written (tr_file t))"
    and "sm_published s = pf_written (tr_file t)"
  shows "(stream_step sha1 os c)\<^sup>*\<^sup>* s (s\<lparr>sm_content := pf_file (tr_file t'), sm_watch := InProgress (pf_written (tr_file t')),
    sm_published := pf_written (tr_file t')\<rparr>)"
proof -
  obtain ext where ext: "pf_file (tr_file t') = pf_file (tr_file t) @ ext" using assms(1) by (auto simp: advances_def)
  obtain ns where ns: "sorted_wrt (<) (pf_written (tr_file t) # ns)" "last (pf_written (tr_file t) # ns) = pf_written (tr_file t')"
    using assms(1) unfolding advances_def by blast
  let ?s = "s\<lparr>sm_content := sm_content s @ ext\<rparr>"
  have "stream_step sha1 os c s ?s" using assms(4) by (rule written)
  moreover have "(stream_step sha1 os c)\<^sup>*\<^sup>* ?s (?s\<lparr>sm_watch := InProgress (pf_written (tr_file t')), sm_published := pf_written (tr_file t')\<rparr>)"
    using publish_chain [OF ns(1), of ?s sha1 os c] ns(2) assms(2-5) ext by (simp add: hashed_def)
  ultimately show ?thesis using ext assms(3) by simp
qed

lemma stream_content_grows:
  "(stream_step sha1 os c)\<^sup>*\<^sup>* s s' \<Longrightarrow> \<exists>ext. sm_content s' = sm_content s @ ext"
proof (induction rule: rtranclp_induct)
  case (step y z)
  have "\<exists>ext. sm_content z = sm_content y @ ext" using step(2) by (cases rule: stream_step.cases) auto
  then show ?case using step(3) by auto
qed simp


subsection \<open>Witnesses\<close>

definition sample_task :: "nat ProxyDownloadTask" where
  "sample_task = \<lparr>pt_upstream = sample_upstream, pt_response = sample_partial, pt_temp_file = [''tmp'', ''proxyfile''],
     pt_hv_file = sample_hv4\<rparr>"

definition proxy_fs :: fs where
  "proxy_fs = [([''tmp''], Dir), ([''tmp'', ''proxyfile''], File [] 0)]"

lemma sample_task_apart: "paths_apart (pt_temp_file sample_task) (cache_path (cfg_cache_dir sample_config) (pt_hv_file sample_task))"
  by (simp add: paths_apart_def sample_task_def cache_path_def sample_config_def config_defaults_def sample_args_def
      path_from_def starts_with_def parent_def prefixes_def upt_rec butlast_append)

theorem proxy_task_outcome_witness:
  "fs_get (snd (snd (proxy_task_run sample_env sample_sha1 sample_os sample_config True 0 sample_task (sample_handler, proxy_fs))))
     [''tmp'', ''proxyfile''] = None"
proof -
  obtain ps h' f' where r: "proxy_task_run sample_env sample_sha1 sample_os sample_config True 0 sample_task (sample_handler, proxy_fs) = (ps, h', f')"
    by (metis prod_cases3)
  have "is_file proxy_fs (pt_temp_file sample_task)" "\<not> os_denied sample_os Unlink (pt_temp_file sample_task)"
    "up_hv_file (pt_upstream sample_task) = pt_hv_file sample_task" "up_attempts (pt_upstream sample_task) \<le> MAX_ATTEMPTS"
    by (simp_all add: sample_task_def proxy_fs_def is_file_def sample_os_def sample_upstream_def MAX_ATTEMPTS_def)
  from proxy_task_outcome [OF r this(1,2) sample_task_apart this(3,4)] show ?thesis using r by (simp add: sample_task_def)
qed

theorem proxy_stream_prefix_witness:
  "sm_delivered ((stream_start 4 True sample_world)\<lparr>sm_content := ''ab''\<rparr>) = []"
proof -
  have "(stream_step sample_sha1 sample_os sample_config)\<^sup>*\<^sup>* (stream_start 4 True sample_world)
      ((stream_start 4 True sample_world)\<lparr>sm_content := sm_content (stream_start 4 True sample_world) @ ''ab''\<rparr>)"
    by (intro r_into_rtranclp written [of _ 0]) (simp add: stream_start_def)
  from proxy_stream_prefix [OF this] show ?thesis
    by (simp add: stream_start_def new_proxy_def body_with_def enable_flow_control_def)
qed

definition proxy_fs2 :: fs where
  "proxy_fs2 = [([''tmp''], Dir), ([''tmp'', ''proxyfile''], File [] 0), ([''tmp'', ''other''], File [] 0)]"

lemma sample_cache_path: "cache_path (cfg_cache_dir sample_config) sample_hv4 = [''cache'', ''61'', ''62'', ''61626364-4-jpg'']"
  by (simp add: cache_path_def sample_hv4_def sample_config_def config_defaults_def sample_args_def path_from_def starts_with_def
      l1_dir_def l2_dir_def fileid_def)

lemmas move_eval = finalize_def move_temp_to_cache_def fs_rename_def ensure_dir_def is_file_def is_dir_def prefixes_def upt_rec
  parent_def sample_os_def store_temp_def TempFile_drop_def remove_file_def fs_remove_file_def

lemma sample_run:
  assumes "finalize sample_os temp [''cache'', ''61'', ''62'', ''61626364-4-jpg'']
      (AList.update temp (File ''abcd'' (os_now_ms sample_os)) f) = (True, f1)" "is_file f temp"
  shows "\<exists>ps h'. proxy_task_run sample_env sample_sha1 sample_os sample_config True 0 (sample_task\<lparr>pt_temp_file := temp\<rparr>) (h, f)
      = (ps, h', TempFile_drop sample_os temp f1) \<and> last ps = Download_done"
proof -
  obtain u' t where r: "upstream_download sample_env sample_sha1 sample_partial sample_upstream [InProgress 0] (ch_stats h) = (None, u', Some t)"
      "pf_file (tr_file t) = ''abcd''"
    using sample_recovers [of "ch_stats h"] by blast
  have "store_temp sample_os temp (Some t) f = AList.update temp (File ''abcd'' (os_now_ms sample_os)) f"
    using assms(2) r(2) by (simp add: store_temp_def)
  then show ?thesis using r assms(1) sample_cache_path
    by (simp add: proxy_task_run_def sample_task_def Let_def)
qed

theorem proxy_counted_twice_witness:
  "\<exists>h1 f1 h2 f2. snd (proxy_task_run sample_env sample_sha1 sample_os sample_config True 0 sample_task (sample_handler, proxy_fs2)) = (h1, f1)
     \<and> snd (proxy_task_run sample_env sample_sha1 sample_os sample_config True 0 (sample_task\<lparr>pt_temp_file := [''tmp'', ''other'']\<rparr>) (h1, f1))
       = (h2, f2)
     \<and> ch_cache_count h2 = 2 \<and> ch_cache_size h2 = 8"
proof -
  let ?cp = "[''cache'', ''61'', ''62'', ''61626364-4-jpg'']" and ?t1 = "[''tmp'', ''proxyfile'']" and ?t2 = "[''tmp'', ''other'']"
  let ?f1 = "[([''tmp''], Dir), (?t2, File [] 0), ([''cache''], Dir), ([''cache'', ''61''], Dir), ([''cache'', ''61'', ''62''], Dir),
      (?cp, File ''abcd'' 1000)]"
  let ?f2 = "[([''tmp''], Dir), ([''cache''], Dir), ([''cache'', ''61''], Dir), ([''cache'', ''61'', ''62''], Dir), (?cp, File ''abcd'' 1000)]"
  have e1: "finalize sample_os ?t1 ?cp (AList.update ?t1 (File ''abcd'' (os_now_ms sample_os)) proxy_fs2) = (True, ?f1)"
    by (simp add: move_eval proxy_fs2_def)
  have e2: "finalize sample_os ?t2 ?cp (AList.update ?t2 (File ''abcd'' (os_now_ms sample_os)) ?f1) = (True, ?f2)"
    by (simp add: move_eval)
  have t: "TempFile_drop sample_os ?t1 ?f1 = ?f1" by (simp add: move_eval)
  have "is_file proxy_fs2 ?t1" "is_file ?f1 ?t2" by (simp_all add: is_file_def proxy_fs2_def)
  moreover have "sample_task\<lparr>pt_temp_file := ?t1\<rparr> = sample_task" by (simp add: sample_task_def)
  ultimately obtain ps1 h1 where r1: "proxy_task_run sample_env sample_sha1 sample_os sample_config True 0 sample_task (sample_handler, proxy_fs2)
      = (ps1, h1, ?f1)" "last ps1 = Download_done"
    using sample_run [OF e1, of sample_handler] t by auto
  obtain ps2 h2 f2 where r2: "proxy_task_run sample_env sample_sha1 sample_os sample_config True 0 (sample_task\<lparr>pt_temp_file := ?t2\<rparr>) (h1, ?f1)
      = (ps2, h2, f2)" "last ps2 = Download_done"
    using sample_run [OF e2 \<open>is_file ?f1 ?t2\<close>, of h1] by auto
  have "ch_cache_count h2 = ch_cache_count sample_handler + 2 \<and> ch_cache_size h2 = ch_cache_size sample_handler + 2 * ucast (hv_size sample_hv4)"
    by (rule proxy_counted_twice [OF r1 r2]) (simp_all add: sample_task_def sample_handler_def sample_hv4_def)
  then show ?thesis using r1 r2 by (simp add: sample_handler_def sample_hv4_def)
qed

text \<open>The file is written and published, the body sends it in one frame and completes.\<close>

lemma sample_fill:
  "fill_file_buffer (sample_obs\<lparr>ob_watch := InProgress 4\<rparr>) 4 new_reader = (True, \<lparr>fr_cursor = 4, fr_buf = ''abcd''\<rparr>)"
  by (simp add: fill_file_buffer_def fill_file_buffer_limited.simps new_reader_def sample_obs_def FILE_BUFFER_SIZE_def)

lemma sample_frame:
  "\<exists>r. poll_round sample_sha1 sample_os sample_config (sample_obs\<lparr>ob_watch := InProgress 4\<rparr>) (new_proxy 4 True, sample_world)
     = (Frame ''abcd'', (new_proxy 4 True)\<lparr>sb_source := Proxy r False True, sb_offset := 4\<rparr>, sample_world)"
  by (simp add: poll_round_def new_proxy_def body_with_def throttle_done_def is_proxy_def proxy_check_def TCP_PACKET_SIZE_def
      send_step_def set_wait_def produce_chunk_def Let_def sample_fill take_chunk_def)

lemma sample_end:
  "\<exists>b w. poll_round sample_sha1 sample_os sample_config (sample_obs\<lparr>ob_watch := InProgress 4\<rparr>)
       ((new_proxy 4 True)\<lparr>sb_source := Proxy r False True, sb_offset := 4\<rparr>, sample_world)
     = (End_of_body, b, w) \<and> sb_completion b = Complete"
  by (simp add: poll_round_def new_proxy_def body_with_def throttle_done_def finish_with_def finish_source_def is_proxy_def Let_def)


end
