(* ===== verification/Hath_Rpc.thy ===== *)
theory Hath_Rpc
  imports Hath_Config
begin

text \<open>
  The RPC protocol, \<^verbatim>\<open>src/src/rpc.rs\<close>: the actions, the signed query, the URL and the parser of
  responses. The URL library is a parameter, a record of the operations of \<^verbatim>\<open>reqwest::Url\<close> the code
  calls; \<open>rnd\<close> is the number drawn from the random generator.
\<close>

definition CLIENT_VERSION :: string where
  "CLIENT_VERSION = ''1.6.5''"

datatype Action =
    ServerStat
  | ClientLogin
  | ClientSettings
  | ClientStart
  | ClientSuspend
  | ClientResume
  | ClientStop
  | StillAlive
  | GetBlacklist
  | GetCertificate
  | StaticRangeFetch
  | GalleryQueueFetch
  | DownloaderFetch
  | DownloaderFailreport
  | Overload

definition needs_signing :: "Action \<Rightarrow> bool" where
  "needs_signing act \<longleftrightarrow> act \<noteq> ServerStat"

definition supports_key_expired_retry :: "Action \<Rightarrow> bool" where
  "supports_key_expired_retry act \<longleftrightarrow>
     act \<in> {ClientLogin, ClientSettings, ClientStart, ClientSuspend, ClientResume, ClientStop, Overload}"

fun show_action :: "Action \<Rightarrow> string" where
  "show_action ServerStat = ''server_stat''"
| "show_action ClientLogin = ''client_login''"
| "show_action ClientSettings = ''client_settings''"
| "show_action ClientStart = ''client_start''"
| "show_action ClientSuspend = ''client_suspend''"
| "show_action ClientResume = ''client_resume''"
| "show_action ClientStop = ''client_stop''"
| "show_action StillAlive = ''still_alive''"
| "show_action GetBlacklist = ''get_blacklist''"
| "show_action GetCertificate = ''get_cert''"
| "show_action StaticRangeFetch = ''srfetch''"
| "show_action GalleryQueueFetch = ''fetchqueue''"
| "show_action DownloaderFetch = ''dlfetch''"
| "show_action DownloaderFailreport = ''dlfails''"
| "show_action Overload = ''overload''"

definition rpc_plain :: "Action \<Rightarrow> string \<Rightarrow> int \<Rightarrow> Config \<Rightarrow> string" where
  "rpc_plain act add time c =
     ''hentai@home-'' @ show_action act @ ''-'' @ add @ ''-'' @ show_word (client_id_val (cfg_client_id c))
       @ ''-'' @ show_int time @ ''-'' @ key_str (cfg_client_key c)"

definition make_rpc_query :: "digest \<Rightarrow> int \<Rightarrow> Action \<Rightarrow> string \<Rightarrow> Config \<Rightarrow> string" where
  "make_rpc_query sha1 now act add c =
     (if \<not> needs_signing act
      then ''clientbuild='' @ show_int CLIENT_BUILD @ ''&act='' @ show_action act
      else let corrected_time = server_time now c;
               actkey = sha1_string sha1 (rpc_plain act add corrected_time c)
           in ''clientbuild='' @ show_int CLIENT_BUILD @ ''&act='' @ show_action act @ ''&add='' @ add
                @ ''&cid='' @ show_word (client_id_val (cfg_client_id c))
                @ ''&acttime='' @ show_int corrected_time @ ''&actkey='' @ actkey)"

subsection \<open>URLs\<close>

record 'u url_lib =
  url_parse :: "string \<Rightarrow> 'u option"
  url_set_ip_host :: "IpAddr \<Rightarrow> 'u \<Rightarrow> 'u option"
  url_set_host :: "string \<Rightarrow> 'u \<Rightarrow> 'u option"
  url_set_port :: "u16 option \<Rightarrow> 'u \<Rightarrow> 'u option"
  url_set_path :: "string \<Rightarrow> 'u \<Rightarrow> 'u"
  url_set_query :: "string \<Rightarrow> 'u \<Rightarrow> 'u"
  url_host_str :: "'u \<Rightarrow> string option"

text \<open>\<^verbatim>\<open>trim_end_matches\<close> with one character or a set of characters.\<close>

definition trim_end_matches :: "char list \<Rightarrow> string \<Rightarrow> string" where
  "trim_end_matches cs s = rev (dropWhile (\<lambda>ch. ch \<in> set cs) (rev s))"

definition make_rpc_url :: "('u, 'z) url_lib_scheme \<Rightarrow> digest \<Rightarrow> int \<Rightarrow> Action \<Rightarrow> string \<Rightarrow> Config \<Rightarrow> string \<Rightarrow> 'u res" where
  "make_rpc_url lib sha1 now act add c host =
     (let query = make_rpc_query sha1 now act add c in
      case url_parse lib ''http://rpc.hentaiathome.net/'' of
        None \<Rightarrow> Inl (Rpc ''invalid URL base'')
      | Some u0 \<Rightarrow>
          (case (case parse_ip host of
                   Some ip \<Rightarrow> url_set_ip_host lib ip u0
                 | None \<Rightarrow> url_set_host lib host u0) of
             None \<Rightarrow> Inl (Rpc ''invalid URL host'')
           | Some u1 \<Rightarrow>
               (case url_set_port lib (if cfg_rpc_port c = 80 then None else Some (cfg_rpc_port c)) u1 of
                  None \<Rightarrow> Inl (Rpc ''invalid URL port'')
                | Some u2 \<Rightarrow>
                    Inr (url_set_query lib query (url_set_path lib (trim_end_matches ''?'' (cfg_rpc_path c)) u2)))))"

definition make_gallery_queue_url :: "('u, 'z) url_lib_scheme \<Rightarrow> digest \<Rightarrow> int \<Rightarrow> string \<Rightarrow> Config \<Rightarrow> string \<Rightarrow> 'u res" where
  "make_gallery_queue_url lib sha1 now act_add c host =
     (case make_rpc_url lib sha1 now GalleryQueueFetch act_add c host of
        Inl e \<Rightarrow> Inl e
      | Inr u \<Rightarrow> Inr (url_set_path lib ''/15/dl'' u))"

text \<open>The name under which a configured server is used: its address in lower case.\<close>

definition host_name :: "IpAddr \<Rightarrow> string" where
  "host_name ip = to_lowercase (show_ip ip)"

definition default_rpc_host :: "u32 \<Rightarrow> Config \<Rightarrow> string" where
  "default_rpc_host rnd c =
     (if cfg_rpc_servers c = [] then ''rpc.hentaiathome.net''
      else if length (cfg_rpc_servers c) = 1 then host_name (cfg_rpc_servers c ! 0)
      else host_name (cfg_rpc_servers c ! (unat rnd mod length (cfg_rpc_servers c))))"

subsection \<open>Responses\<close>

datatype ResponseStatus = Status_Ok | Status_Fail | Status_Null

record ServerResponse =
  sr_status :: ResponseStatus
  sr_lines :: "string list"
  sr_fail_code :: "string option"
  sr_fail_host :: "string option"

definition parse_server_response :: "string \<Rightarrow> string \<Rightarrow> ServerResponse" where
  "parse_server_response body request_host =
     (case lines body of
        [] \<Rightarrow> \<lparr>sr_status = Status_Null, sr_lines = [], sr_fail_code = Some ''NO_RESPONSE'',
               sr_fail_host = Some (to_lowercase request_host)\<rparr>
      | l # ls \<Rightarrow>
          if l = ''OK'' then \<lparr>sr_status = Status_Ok, sr_lines = ls, sr_fail_code = None, sr_fail_host = None\<rparr>
          else if starts_with ''TEMPORARILY_UNAVAILABLE'' l then
            \<lparr>sr_status = Status_Null, sr_lines = [], sr_fail_code = Some l, sr_fail_host = Some (to_lowercase request_host)\<rparr>
          else if l = ''KEY_EXPIRED'' then
            \<lparr>sr_status = Status_Fail, sr_lines = [], sr_fail_code = Some ''KEY_EXPIRED'',
             sr_fail_host = Some (to_lowercase request_host)\<rparr>
          else
            \<lparr>sr_status = Status_Fail, sr_lines = [], sr_fail_code = Some l, sr_fail_host = Some (to_lowercase request_host)\<rparr>)"

text \<open>\<^verbatim>\<open>Config::apply_server_response\<close>: \<open>None\<close> is the process exit of a too old client.\<close>

definition apply_server_response :: "int \<Rightarrow> ServerResponse \<Rightarrow> Config \<Rightarrow> Config option" where
  "apply_server_response now resp c = apply_server_settings now (sr_lines resp) c"

subsection \<open>Lemmas\<close>

lemma response_shape:
  "(sr_status (parse_server_response b h) = Status_Ok \<longleftrightarrow> sr_fail_code (parse_server_response b h) = None)
   \<and> (sr_status (parse_server_response b h) \<noteq> Status_Ok \<longrightarrow>
        sr_lines (parse_server_response b h) = [] \<and> sr_fail_host (parse_server_response b h) = Some (to_lowercase h))"
  by (auto simp: parse_server_response_def split: list.splits)

lemma key_expired_not_null:
  "sr_fail_code (parse_server_response b h) = Some ''KEY_EXPIRED'' \<Longrightarrow> sr_status (parse_server_response b h) = Status_Fail"
  by (auto simp: parse_server_response_def starts_with_def split: list.splits if_splits)

lemma show_action_inject: "show_action a = show_action b \<longleftrightarrow> a = b"
  by (cases a; cases b) simp_all

subsection \<open>Properties\<close>

text \<open>
  A response is read back as it was sent. The lines after \<^verbatim>\<open>OK\<close> arrive unchanged, in order;
  any other first line is the fail code, it is reported for the host that was asked, and only
  \<^verbatim>\<open>TEMPORARILY_UNAVAILABLE\<close> and the empty response count as no response.
\<close>

theorem server_response_roundtrip:
  assumes "\<forall>l \<in> set (l0 # ls). LF \<notin> set l \<and> (l = [] \<or> last l \<noteq> CR)"
  shows "parse_server_response (concat (map (\<lambda>l. l @ [LF]) (l0 # ls))) h =
    (if l0 = ''OK'' then \<lparr>sr_status = Status_Ok, sr_lines = ls, sr_fail_code = None, sr_fail_host = None\<rparr>
     else \<lparr>sr_status = (if starts_with ''TEMPORARILY_UNAVAILABLE'' l0 then Status_Null else Status_Fail),
           sr_lines = [], sr_fail_code = Some l0, sr_fail_host = Some (to_lowercase h)\<rparr>)"
  using lines_of_terminated [OF assms] by (simp add: parse_server_response_def)

theorem server_response_roundtrip_witness:
  "parse_server_response (concat (map (\<lambda>l. l @ [LF]) [''OK'', ''host=1.2.3.4'', ''''])) ''h''
     = \<lparr>sr_status = Status_Ok, sr_lines = [''host=1.2.3.4'', ''''], sr_fail_code = None, sr_fail_host = None\<rparr>"
  using server_response_roundtrip [of "''OK''" "[''host=1.2.3.4'', '''']" "''h''"] by simp

end
