(* ===== verification/Hath_Router.thy ===== *)
theory Hath_Router
  imports Hath_Rpc
begin

text \<open>
  Which RPC server is asked, \<^verbatim>\<open>RpcRouter\<close> of \<^verbatim>\<open>src/src/rpc_client.rs\<close>. A computation that may panic,
  end the process or never return has the type \<open>'a run\<close>: \<open>None\<close> is a loop that does not end.
\<close>

subsection \<open>Computations that may not return\<close>

datatype 'a outcome = Done 'a | Panic | Exit

type_synonym 'a run = "'a outcome option"

definition run_return :: "'a \<Rightarrow> 'a run" where
  "run_return x = Some (Done x)"

definition run_bind :: "'a run \<Rightarrow> ('a \<Rightarrow> 'b run) \<Rightarrow> 'b run" where
  "run_bind m f =
     (case m of None \<Rightarrow> None | Some Panic \<Rightarrow> Some Panic | Some Exit \<Rightarrow> Some Exit | Some (Done x) \<Rightarrow> f x)"

lemma run_bind_simps [simp]:
  "run_bind None f = None" "run_bind (Some Panic) f = Some Panic" "run_bind (Some Exit) f = Some Exit"
  "run_bind (Some (Done x)) f = f x" "run_bind (run_return x) f = f x"
  by (simp_all add: run_bind_def run_return_def)

lemma run_bind_Done: "run_bind m f = Some (Done y) \<longleftrightarrow> (\<exists>x. m = Some (Done x) \<and> f x = Some (Done y))"
  by (auto simp: run_bind_def split: option.splits outcome.splits)

lemma run_return_Done [simp]: "run_return x = Some (Done y) \<longleftrightarrow> x = y"
  by (simp add: run_return_def)

lemma run_bind_cong [fundef_cong]:
  "m = m' \<Longrightarrow> (\<And>x. m' = Some (Done x) \<Longrightarrow> f x = g x) \<Longrightarrow> run_bind m f = run_bind m' g"
  by (auto simp: run_bind_def split: option.splits outcome.splits)

subsection \<open>The router\<close>

record RpcState =
  rpc_current :: "string option"
  rpc_last_failed :: "string option"

definition RpcState_default :: RpcState where
  "RpcState_default = \<lparr>rpc_current = None, rpc_last_failed = None\<rparr>"

definition host_is_configured :: "Config \<Rightarrow> string \<Rightarrow> bool" where
  "host_is_configured c host \<longleftrightarrow> list_ex (\<lambda>server. host_name server = host) (cfg_rpc_servers c)"

text \<open>The remainder of \<^verbatim>\<open>isize\<close>, with the sign of the dividend.\<close>

definition rem_trunc :: "int \<Rightarrow> int \<Rightarrow> int" where
  "rem_trunc a b = (if 0 \<le> a then a mod b else - ((- a) mod b))"

text \<open>
  The search through the servers from a random position in a random direction. A negative index
  panics; the loop ends only at a server that did not fail last.
\<close>

partial_function (option) choose_loop :: "IpAddr list \<Rightarrow> string option \<Rightarrow> int \<Rightarrow> int \<Rightarrow> string run" where
  "choose_loop servers last_failed dir idx =
     (let n = int (length servers);
          at = rem_trunc (n + idx) n
      in if at < 0 then Some Panic
         else let candidate = host_name (servers ! nat at)
              in if last_failed = Some candidate then choose_loop servers last_failed dir (idx + dir)
                 else Some (Done candidate))"

definition choose_host :: "u32 \<Rightarrow> u32 \<Rightarrow> Config \<Rightarrow> string option \<Rightarrow> string run" where
  "choose_host r1 r2 c last_failed =
     (if cfg_rpc_servers c = [] then run_return ''rpc.hentaiathome.net''
      else if length (cfg_rpc_servers c) = 1 then run_return (host_name (cfg_rpc_servers c ! 0))
      else choose_loop (cfg_rpc_servers c) last_failed (if even (unat r2) then - 1 else 1)
             (int (unat r1 mod length (cfg_rpc_servers c))))"

text \<open>The chosen host with the router's state after the call: an unconfigured current host is dropped.\<close>

definition select_host :: "u32 \<Rightarrow> u32 \<Rightarrow> Config \<Rightarrow> RpcState \<Rightarrow> (string \<times> RpcState) run" where
  "select_host r1 r2 c s =
     (let s1 = (case rpc_current s of
                  Some current \<Rightarrow> if \<not> host_is_configured c current then s\<lparr>rpc_current := None\<rparr> else s
                | None \<Rightarrow> s)
      in case rpc_current s1 of
           Some current \<Rightarrow>
             if rpc_last_failed s1 = Some current
             then run_bind (choose_host r1 r2 c (rpc_last_failed s1)) (\<lambda>h. run_return (h, s1))
             else run_return (current, s1)
         | None \<Rightarrow> run_bind (choose_host r1 r2 c (rpc_last_failed s1)) (\<lambda>h. run_return (h, s1)))"

definition mark_failed :: "string \<Rightarrow> RpcState \<Rightarrow> RpcState" where
  "mark_failed host s = s\<lparr>rpc_last_failed := Some host\<rparr>"

definition mark_success :: "string \<Rightarrow> RpcState \<Rightarrow> RpcState" where
  "mark_success host s = s\<lparr>rpc_current := Some host\<rparr>"

definition router_clear :: "RpcState \<Rightarrow> RpcState" where
  "router_clear s = s\<lparr>rpc_last_failed := None, rpc_current := None\<rparr>"

subsection \<open>The search\<close>

lemma rem_trunc_nonneg: "0 \<le> a \<Longrightarrow> rem_trunc a b = a mod b"
  by (simp add: rem_trunc_def)

lemma choose_loop_step:
  assumes "servers \<noteq> []" "0 \<le> int (length servers) + idx"
  shows "choose_loop servers lf dir idx =
    (let candidate = host_name (servers ! nat ((int (length servers) + idx) mod int (length servers)))
     in if lf = Some candidate then choose_loop servers lf dir (idx + dir) else Some (Done candidate))"
proof -
  have "\<not> (int (length servers) + idx) mod int (length servers) < 0" using assms(1) by (simp add: not_less)
  then show ?thesis by (subst choose_loop.simps) (simp only: Let_def rem_trunc_nonneg [OF assms(2)] if_False)
qed

text \<open>The search finds a server at distance \<open>k\<close> or an earlier one, as long as no index is negative.\<close>

lemma choose_loop_finds:
  assumes "servers \<noteq> []" "\<forall>j \<le> k. 0 \<le> int (length servers) + idx + int j * dir"
    and "lf \<noteq> Some (host_name (servers ! nat ((int (length servers) + idx + int k * dir) mod int (length servers))))"
  shows "\<exists>h. choose_loop servers lf dir idx = Some (Done h) \<and> h \<in> host_name ` set servers \<and> lf \<noteq> Some h"
  using assms(2,3)
proof (induction k arbitrary: idx)
  case (0 idx)
  let ?i = "nat ((int (length servers) + idx) mod int (length servers))"
  have "?i < length servers" using assms(1) by (simp add: nat_less_iff)
  then show ?case using 0 choose_loop_step [OF assms(1), of idx lf dir] by (auto simp: Let_def)
next
  case (Suc k idx)
  let ?n = "int (length servers)"
  let ?i = "nat ((?n + idx) mod ?n)"
  have i: "?i < length servers" using assms(1) by (simp add: nat_less_iff)
  have nn: "0 \<le> ?n + idx" using Suc.prems(1) [rule_format, of 0] by simp
  show ?case
  proof (cases "lf = Some (host_name (servers ! ?i))")
    case True
    have e: "?n + idx + int (Suc j) * dir = ?n + (idx + dir) + int j * dir" for j by (simp add: algebra_simps)
    have "\<forall>j\<le>k. 0 \<le> ?n + (idx + dir) + int j * dir"
      using Suc.prems(1) e by (metis Suc_le_mono)
    moreover have "lf \<noteq> Some (host_name (servers ! nat ((?n + (idx + dir) + int k * dir) mod ?n)))"
      using Suc.prems(2) unfolding e .
    ultimately show ?thesis using Suc.IH [of "idx + dir"] True choose_loop_step [OF assms(1) nn, of lf dir]
      by (simp add: Let_def)
  next
    case False
    then show ?thesis using i choose_loop_step [OF assms(1) nn, of lf dir] by (auto simp: Let_def)
  qed
qed

text \<open>In either direction every position is met within one turn, before any index is negative.\<close>

lemma turn_reaches:
  assumes "0 \<le> idx" "idx < n" "0 \<le> (p::int)" "p < n" "dir = 1 \<or> dir = - 1"
  shows "\<exists>k. (\<forall>j \<le> k. 0 \<le> n + idx + int j * dir) \<and> (n + idx + int k * dir) mod n = p"
proof (cases "dir = 1")
  case True
  have "(n + idx + int (nat ((p - idx) mod n)) * dir) mod n = p"
    using assms True by (simp add: mod_simps)
  then show ?thesis using assms True by (intro exI [of _ "nat ((p - idx) mod n)"]) auto
next
  case False
  then have d: "dir = - 1" using assms by simp
  let ?k = "nat ((idx - p) mod n)"
  have b: "(idx - p) mod n < n" "0 \<le> (idx - p) mod n" using assms by simp_all
  moreover have "(n + idx - (idx - p) mod n) mod n = p" using assms by (simp add: mod_simps)
  moreover have "0 \<le> n + idx - int j" if "j \<le> ?k" for j using that b assms by linarith
  ultimately show ?thesis using assms d by (intro exI [of _ ?k]) auto
qed

text \<open>Servers under one name only, marked as failed: forwards the search never ends.\<close>

lemma choose_loop_diverges:
  assumes "servers \<noteq> []" "\<forall>ip \<in> set servers. host_name ip = h"
  shows "0 \<le> idx \<Longrightarrow> choose_loop servers (Some h) 1 idx = None"
proof -
  have all: "host_name (servers ! nat (at mod int (length servers))) = h" for at
    using assms by (auto simp: nat_less_iff)
  have "ss = servers \<longrightarrow> lf = Some h \<longrightarrow> dir = 1 \<longrightarrow> 0 \<le> idx \<longrightarrow> False"
    if "choose_loop ss lf dir idx = Some y" for ss lf dir idx y
    using that
  proof (rule choose_loop.raw_induct
      [where P = "\<lambda>ss lf dir idx y. ss = servers \<longrightarrow> lf = Some h \<longrightarrow> dir = 1 \<longrightarrow> 0 \<le> idx \<longrightarrow> False", rotated])
    fix cl ss lf dir idx y
    assume ih: "\<And>ss lf dir idx y. cl ss lf dir idx = Some y \<Longrightarrow>
        ss = servers \<longrightarrow> lf = Some h \<longrightarrow> dir = 1 \<longrightarrow> 0 \<le> idx \<longrightarrow> False"
      and body: "(let n = int (length ss); at = rem_trunc (n + idx) n
         in if at < 0 then Some Panic
            else let candidate = host_name (ss ! nat at)
                 in if lf = Some candidate then cl ss lf dir (idx + dir) else Some (Done candidate)) = Some y"
    show "ss = servers \<longrightarrow> lf = Some h \<longrightarrow> dir = 1 \<longrightarrow> 0 \<le> idx \<longrightarrow> False"
    proof (intro impI)
      assume p: "ss = servers" "lf = Some h" "dir = 1" "0 \<le> idx"
      have "\<not> (int (length servers) + idx) mod int (length servers) < 0" using assms(1) by (simp add: not_less)
      then have "cl servers (Some h) 1 (idx + 1) = Some y"
        using body p unfolding Let_def by (simp only: rem_trunc_nonneg all if_False if_True) simp
      then show False using ih [of servers "Some h" 1 "idx + 1" y] p(4) by simp
    qed
  qed
  then have "0 \<le> idx \<Longrightarrow> choose_loop servers (Some h) 1 idx \<noteq> Some y" for y by blast
  then show "0 \<le> idx \<Longrightarrow> choose_loop servers (Some h) 1 idx = None" by (cases "choose_loop servers (Some h) 1 idx") auto
qed

text \<open>Backwards it runs into a negative index.\<close>

lemma choose_loop_panics:
  assumes "2 \<le> length servers" "\<forall>ip \<in> set servers. host_name ip = h"
  shows "- int (length servers) - 1 \<le> idx \<Longrightarrow> choose_loop servers (Some h) (- 1) idx = Some Panic"
proof (induction "nat (int (length servers) + idx + 1)" arbitrary: idx)
  case 0
  then have "int (length servers) + idx = - 1" by linarith
  then have "rem_trunc (int (length servers) + idx) (int (length servers)) = - 1"
    using assms(1) by (simp add: rem_trunc_def)
  then show ?case by (subst choose_loop.simps) (simp add: Let_def)
next
  case (Suc k)
  have ne: "servers \<noteq> []" using assms(1) by auto
  have nn: "0 \<le> int (length servers) + idx" using Suc.hyps(2) by linarith
  have "servers ! nat ((int (length servers) + idx) mod int (length servers)) \<in> set servers"
    using ne by (simp add: nat_less_iff)
  then have "choose_loop servers (Some h) (- 1) idx = choose_loop servers (Some h) (- 1) (idx - 1)"
    using choose_loop_step [OF ne nn, of "Some h" "- 1"] assms(2) by (simp add: Let_def)
  then show ?case using Suc by simp
qed

text \<open>Two servers under different names, or at most one server.\<close>

definition routable :: "Config \<Rightarrow> bool" where
  "routable c \<longleftrightarrow> length (cfg_rpc_servers c) \<le> 1
     \<or> list_ex (\<lambda>ip. host_name ip \<noteq> host_name (hd (cfg_rpc_servers c))) (cfg_rpc_servers c)"

lemma routable_other:
  assumes "routable c" "2 \<le> length (cfg_rpc_servers c)"
  shows "\<exists>i < length (cfg_rpc_servers c). lf \<noteq> Some (host_name (cfg_rpc_servers c ! i))"
proof -
  have "cfg_rpc_servers c \<noteq> []" using assms(2) by auto
  then obtain j where j: "j < length (cfg_rpc_servers c)" "host_name (cfg_rpc_servers c ! j) \<noteq> host_name (cfg_rpc_servers c ! 0)"
    using assms by (auto simp: routable_def list_ex_iff in_set_conv_nth hd_conv_nth)
  have "0 < length (cfg_rpc_servers c)" using assms(2) by linarith
  then show ?thesis using j by (metis option.inject)
qed

lemma choose_host_returns:
  assumes "routable c"
  shows "\<exists>h. choose_host r1 r2 c lf = Some (Done h)
    \<and> (if cfg_rpc_servers c = [] then h = ''rpc.hentaiathome.net'' else host_is_configured c h)
    \<and> (2 \<le> length (cfg_rpc_servers c) \<longrightarrow> lf \<noteq> Some h)"
proof (cases "2 \<le> length (cfg_rpc_servers c)")
  case True
  let ?ss = "cfg_rpc_servers c"
  let ?idx = "int (unat r1 mod length ?ss)"
  let ?dir = "if even (unat r2) then - 1 else 1 :: int"
  obtain i where i: "i < length ?ss" "lf \<noteq> Some (host_name (?ss ! i))"
    using routable_other [OF assms True] by blast
  have "0 < length ?ss" using True by linarith
  then have "?idx < int (length ?ss)" by simp
  then obtain k where k: "\<forall>j \<le> k. 0 \<le> int (length ?ss) + ?idx + int j * ?dir"
      "(int (length ?ss) + ?idx + int k * ?dir) mod int (length ?ss) = int i"
    using turn_reaches [of ?idx "int (length ?ss)" "int i" ?dir] i(1) by (cases "even (unat r2)") auto
  have "?ss \<noteq> []" using True by auto
  then have "\<exists>h. choose_loop ?ss lf ?dir ?idx = Some (Done h) \<and> h \<in> host_name ` set ?ss \<and> lf \<noteq> Some h"
    using choose_loop_finds [of ?ss k ?idx ?dir lf] k i(2) by simp
  then show ?thesis using True \<open>?ss \<noteq> []\<close> by (auto simp: choose_host_def host_is_configured_def list_ex_iff)
next
  case False
  then consider "cfg_rpc_servers c = []" | ip where "cfg_rpc_servers c = [ip]"
    by (cases "cfg_rpc_servers c"; cases "tl (cfg_rpc_servers c)") auto
  then show ?thesis by cases (auto simp: choose_host_def run_return_def host_is_configured_def)
qed

lemma select_host_returns:
  assumes "routable c"
  shows "\<exists>h s'. select_host r1 r2 c s = Some (Done (h, s'))
    \<and> (if cfg_rpc_servers c = [] then h = ''rpc.hentaiathome.net'' else host_is_configured c h)
    \<and> (2 \<le> length (cfg_rpc_servers c) \<longrightarrow> rpc_last_failed s \<noteq> Some h)
    \<and> rpc_last_failed s' = rpc_last_failed s"
proof -
  obtain h where h: "choose_host r1 r2 c (rpc_last_failed s) = Some (Done h)"
    "if cfg_rpc_servers c = [] then h = ''rpc.hentaiathome.net'' else host_is_configured c h"
    "2 \<le> length (cfg_rpc_servers c) \<longrightarrow> rpc_last_failed s \<noteq> Some h"
    using choose_host_returns [OF assms, of r1 r2 "rpc_last_failed s"] by blast
  show ?thesis
  proof (cases "rpc_current s")
    case None
    then show ?thesis using h by (simp add: select_host_def run_return_def)
  next
    case (Some cur)
    have "cfg_rpc_servers c \<noteq> []" if "host_is_configured c cur" using that by (auto simp: host_is_configured_def)
    then show ?thesis using h Some by (auto simp: select_host_def run_return_def)
  qed
qed

subsection \<open>Properties\<close>

text \<open>
  Selecting a host terminates. Unless all of several configured servers share one name,
  \<^verbatim>\<open>select_host\<close> returns for every random draw and every router state; it answers a configured
  server (the default host if none is configured), and with two or more servers never the one that
  failed last.
\<close>

theorem select_host_terminates:
  assumes "routable c"
  shows "\<exists>h s'. select_host r1 r2 c s = Some (Done (h, s'))
    \<and> (if cfg_rpc_servers c = [] then h = ''rpc.hentaiathome.net'' else host_is_configured c h)
    \<and> (2 \<le> length (cfg_rpc_servers c) \<longrightarrow> rpc_last_failed s \<noteq> Some h)
    \<and> rpc_last_failed s' = rpc_last_failed s"
  using assms by (rule select_host_returns)

definition two_servers :: Config where
  "two_servers = sample_config\<lparr>cfg_rpc_servers := [V4 1 2 3 4, V4 1 2 3 5]\<rparr>"

lemma two_servers_routable: "routable two_servers"
  by (simp add: two_servers_def routable_def host_name_def show_ip_def show_ipv4_def show_nat.simps char_eval)

theorem select_host_terminates_witness:
  "\<exists>h s'. select_host 0 0 two_servers (mark_failed ''1.2.3.4'' RpcState_default) = Some (Done (h, s'))
    \<and> host_is_configured two_servers h \<and> h \<noteq> ''1.2.3.4''"
  using select_host_terminates [OF two_servers_routable, of 0 0 "mark_failed ''1.2.3.4'' RpcState_default"]
  by (auto simp: two_servers_def mark_failed_def)

text \<open>
  When the server list repeats one address and that address failed last, selecting a host does not
  return: with an odd second draw it loops for ever, with an even one it panics on a negative index.
  Nothing removes repeated addresses from the \<^verbatim>\<open>rpc_server_ip\<close> setting.
\<close>

theorem repeated_server_hangs:
  assumes "2 \<le> length (cfg_rpc_servers c)" "\<forall>ip \<in> set (cfg_rpc_servers c). host_name ip = h"
    and "rpc_last_failed s = Some h"
  shows "select_host r1 r2 c s = (if even (unat r2) then Some Panic else None)"
proof -
  have ne: "cfg_rpc_servers c \<noteq> []" using assms(1) by auto
  have "choose_host r1 r2 c (Some h) = (if even (unat r2) then Some Panic else None)"
    using assms(1) ne choose_loop_panics [OF assms(1,2)] choose_loop_diverges [OF ne assms(2)]
    by (auto simp: choose_host_def)
  moreover have "host_is_configured c cur \<Longrightarrow> cur = h" for cur
    using assms(2) by (auto simp: host_is_configured_def list_ex_iff)
  ultimately show ?thesis using assms(3)
    by (cases "rpc_current s") (auto simp: select_host_def)
qed

theorem repeated_server_hangs_witness:
  "select_host 0 1 (sample_config\<lparr>cfg_rpc_servers := parse_rpc_servers ''1.2.3.4;1.2.3.4''\<rparr>)
     (mark_failed ''1.2.3.4'' RpcState_default) = None"
proof -
  have p: "parse_rpc_servers ''1.2.3.4;1.2.3.4'' = [V4 1 2 3 4, V4 1 2 3 4]"
    by (simp add: parse_rpc_servers_def parse_ip_def parse_ipv4_def parse_octet_def trim_def trim_start_def
        trim_end_def parse_eval)
  show ?thesis unfolding p
    by (subst repeated_server_hangs [where h = "''1.2.3.4''"])
      (simp_all add: mark_failed_def host_name_def show_ip_def show_ipv4_def show_nat.simps char_eval)
qed

end
