(* ===== verification/Hath_Response.thy ===== *)
theory Hath_Response
  imports Hath_Proxy Hath_Router
begin

text \<open>
  Responses, \<^verbatim>\<open>src/src/server/response.rs\<close> and \<^verbatim>\<open>src/src/server/proxy_transfer.rs\<close>: the outcomes a
  handler can choose, and the policy that turns one into an HTTP response with its headers, flow control
  and traffic accounting. Headers are an association list in the order of insertion; the reason phrase
  of a status code and the formatted date are parameters.
\<close>

definition DEFAULT_CONTENT_TYPE :: string where
  "DEFAULT_CONTENT_TYPE = ''text/html; charset=iso-8859-1''"

definition CACHE_CONTROL_VALUE :: string where
  "CACHE_CONTROL_VALUE = ''public, max-age=31536000''"

definition SERVER_VALUE :: string where
  "SERVER_VALUE = ''Genetic Lifeform and Distributed Open Server 1.6.5''"

record ResponseSpec =
  rs_status :: u16
  rs_content_type :: string
  rs_declared_length :: nat
  rs_body :: StreamingBody
  rs_headers :: "(string \<times> string) list"

definition ResponseSpec_new :: "u16 \<Rightarrow> string \<Rightarrow> nat \<Rightarrow> StreamingBody \<Rightarrow> ResponseSpec" where
  "ResponseSpec_new status content_type declared_length body =
     \<lparr>rs_status = status, rs_content_type = content_type, rs_declared_length = declared_length, rs_body = body, rs_headers = []\<rparr>"

text \<open>What the header library accepts as a value: visible ASCII, spaces and tabs.\<close>

definition header_value_ok :: "string \<Rightarrow> bool" where
  "header_value_ok v \<longleftrightarrow> list_all (\<lambda>ch. (32 \<le> char_code ch \<and> char_code ch < 127) \<or> char_code ch = 9) v"

definition with_header :: "string \<Rightarrow> string \<Rightarrow> ResponseSpec \<Rightarrow> ResponseSpec res" where
  "with_header name value spec =
     (if header_value_ok value then Inr (spec\<lparr>rs_headers := AList.update name value (rs_headers spec)\<rparr>)
      else Inl (Parse ''invalid response header value''))"

definition internal_error :: ResponseSpec where
  "internal_error =
     ResponseSpec_new 500 DEFAULT_CONTENT_TYPE (length ''Internal Server Error'') (StreamingBody_new ''Internal Server Error'')"

subsection \<open>The outcomes\<close>

definition text_response :: "u16 \<Rightarrow> string \<Rightarrow> ResponseSpec res" where
  "text_response status text = Inr (ResponseSpec_new status DEFAULT_CONTENT_TYPE (length text) (StreamingBody_new text))"

definition not_found_response :: "ResponseSpec res" where
  "not_found_response = text_response 404 ''Not Found''"

definition forbidden_response :: "ResponseSpec res" where
  "forbidden_response = text_response 403 ''Permission Denied''"

definition bad_request_response :: "ResponseSpec res" where
  "bad_request_response = text_response 400 ''Bad Request''"

definition method_not_allowed_response :: "ResponseSpec res" where
  "method_not_allowed_response =
     with_header ''allow'' ''GET, HEAD''
       (ResponseSpec_new 405 DEFAULT_CONTENT_TYPE (length ''Method Not Allowed'') (StreamingBody_new ''Method Not Allowed''))"

definition redirect_response :: "string \<Rightarrow> ResponseSpec res" where
  "redirect_response location =
     with_header ''location'' location (ResponseSpec_new 301 DEFAULT_CONTENT_TYPE 0 StreamingBody_empty)"

definition robots_response :: "ResponseSpec res" where
  "robots_response =
     (let body = ''User-agent: *'' @ [LF] @ ''Disallow: /'' in
      Inr (ResponseSpec_new 200 ''text/plain; charset=iso-8859-1'' (length body) (StreamingBody_new body)))"

definition head_response :: "string \<Rightarrow> nat \<Rightarrow> ResponseSpec res" where
  "head_response content_type total_size = Inr (ResponseSpec_new 200 content_type total_size StreamingBody_empty)"

definition proxy_body_response :: "string \<Rightarrow> nat \<Rightarrow> StreamingBody \<Rightarrow> ResponseSpec res" where
  "proxy_body_response content_type total_size body = Inr (ResponseSpec_new 200 content_type total_size body)"

definition speedtest_response :: "string \<Rightarrow> nat \<Rightarrow> ResponseSpec res" where
  "speedtest_response random_bytes n = Inr (ResponseSpec_new 200 DEFAULT_CONTENT_TYPE n (new_random random_bytes n))"

text \<open>A cached file: opened and measured before anything is promised; every success counts as a file sent.\<close>

definition file_response :: "os \<Rightarrow> HVFile \<Rightarrow> path \<Rightarrow> bool \<Rightarrow> bool \<Rightarrow> body_world \<Rightarrow> ResponseSpec res \<times> body_world" where
  "file_response os hv cache_dir head_only verify w =
     (let path = cache_path cache_dir hv; expected = unat (hv_size hv) in
      case fs_read os (bw_fs w) path of
        Inl _ \<Rightarrow> (Inl (Cache_error ''cannot open''), w)
      | Inr _ \<Rightarrow>
          (case file_len os (bw_fs w) path of
             None \<Rightarrow> (Inl (Cache_error ''cannot stat''), w)
           | Some actual_len \<Rightarrow>
               if actual_len \<noteq> expected then (Inl (Cache_error ''file size mismatch''), w)
               else
                 let w1 = count_stats record_file_sent w in
                 if head_only then (head_response (mime_type hv) expected, w1)
                 else (Inr (ResponseSpec_new 200 (mime_type hv) expected
                          (new_file \<lparr>fp_path = path, fp_total_size = expected, fp_expected_hash = sha1_str (hv_hash hv),
                                     fp_verify = verify, fp_cache_handler = True\<rparr>)), w1)))"

subsection \<open>Proxy transfers\<close>

text \<open>
  \<open>can_open\<close>: the temporary file can still be opened for reading. Abandoning the download or dropping
  its body source releases the sender the download task waits for, which the flag in the result says.
\<close>

definition into_response :: "bool \<Rightarrow> ProxyDownload \<Rightarrow> bool \<Rightarrow> ResponseSpec res" where
  "into_response can_open d head_only =
     (if head_only then head_response (pd_content_type d) (pd_content_length d)
      else if \<not> can_open then text_response 500 ''proxy temp file unavailable''
      else proxy_body_response (pd_content_type d) (pd_content_length d) (new_proxy (pd_content_length d) True))"

subsection \<open>The policy\<close>

record Response =
  hr_status :: u16
  hr_headers :: "(string \<times> string) list"
  hr_body :: StreamingBody

record ResponsePolicy =
  po_bwm :: bool
  po_traffic_stats :: bool

definition ResponsePolicy_new :: "bool \<Rightarrow> bool \<Rightarrow> ResponsePolicy" where
  "ResponsePolicy_new is_local bwm = \<lparr>po_bwm = bwm, po_traffic_stats = (\<not> is_local)\<rparr>"

definition header_bytes :: "(u16 \<Rightarrow> string option) \<Rightarrow> Response \<Rightarrow> nat" where
  "header_bytes reason r =
     (let reason_len = (case reason (hr_status r) of None \<Rightarrow> 0 | Some s \<Rightarrow> length s);
          status_line_len = length ''HTTP/1.1 '' + length (show_word (hr_status r)) + 1 + reason_len + 2;
          headers_len = sum_list (map (\<lambda>(name, value). length name + 2 + length value + 2) (hr_headers r))
      in status_line_len + headers_len + 2)"

definition policy_headers :: "string \<Rightarrow> ResponseSpec \<Rightarrow> (string \<times> string) list" where
  "policy_headers date spec =
     (let h1 = AList.update ''content-type'' (rs_content_type spec) (rs_headers spec);
          h2 = AList.update ''connection'' ''close'' h1;
          h3 = AList.update ''date'' date h2;
          h4 = AList.update ''server'' SERVER_VALUE h3
      in if 0 < rs_declared_length spec
         then AList.update ''content-length'' (show_nat (rs_declared_length spec))
                (AList.update ''cache-control'' CACHE_CONTROL_VALUE h4)
         else h4)"

text \<open>A content type that is no header value would panic.\<close>

definition finalize_response :: "(u16 \<Rightarrow> string option) \<Rightarrow> string \<Rightarrow> ResponsePolicy \<Rightarrow> ResponseSpec res \<times> body_world
    \<Rightarrow> (Response \<times> body_world) outcome" where
  "finalize_response reason date policy rw =
     (case rw of (response, w) \<Rightarrow>
        let spec = (case response of Inr s \<Rightarrow> s | Inl _ \<Rightarrow> internal_error) in
        if \<not> header_value_ok (rs_content_type spec) \<or> \<not> header_value_ok date then Panic
        else
          let r = \<lparr>hr_status = rs_status spec, hr_headers = policy_headers date spec, hr_body = rs_body spec\<rparr>;
              n = header_bytes reason r;
              (r1, w1) = (if po_bwm policy
                          then (r\<lparr>hr_body := enable_flow_control (hr_body r)\<rparr>, w\<lparr>bw_quota := bw_quota w @ [n]\<rparr>) else (r, w))
          in Done (if po_traffic_stats policy
                   then (r1\<lparr>hr_body := enable_traffic_accounting (hr_body r1)\<rparr>, count_stats (record_bytes_sent (of_nat n)) w1)
                   else (r1, w1)))"

subsection \<open>Traffic accounting\<close>

definition sent :: "body_world \<Rightarrow> u64" where
  "sent w = st_bytes_sent (ch_stats (bw_handler w))"

lemma account_keeps_sent: "st_bytes_sent (ch_stats (account_file_removed c hv h)) = st_bytes_sent (ch_stats h)"
  by (auto simp: account_file_removed_def invalidate_accounting_def update_cache_stats_def
      set_cache_size_def set_cache_count_def split: option.split)

lemma delete_keeps_sent:
  "delete_file_from_cache os c n (h, f) = (r, h', f') \<Longrightarrow> st_bytes_sent (ch_stats h') = st_bytes_sent (ch_stats h)"
  by (auto simp: delete_file_from_cache_def account_keeps_sent Let_def split: option.splits sum.splits if_splits)

lemma finish_source_sent: "finish_source sha1 os c d src w = (src', w') \<Longrightarrow> sent w' = sent w"
  by (auto simp: finish_source_def sent_def Let_def dest: delete_keeps_sent
      split: DataSource.splits option.splits prod.splits if_splits)

lemma finish_with_sent:
  assumes "finish_with sha1 os c r (b, w) = (b', w')"
  shows "sent w' = sent w \<and> sb_traffic_stats b' = sb_traffic_stats b"
proof -
  let ?b = "if sb_completion b = Body_running
      then b\<lparr>sb_completion := (if sb_total_size b \<le> sb_offset b then Complete else Incomplete (case r of None \<Rightarrow> Unknown | Some r \<Rightarrow> r))\<rparr> else b"
  obtain src w1 where s: "finish_source sha1 os c (sb_total_size b \<le> sb_offset b) (sb_source ?b) w = (src, w1)" by force
  have "sent (count_stats record_file_sent w1) = sent w1" by (simp add: sent_def count_stats_def record_file_sent_def)
  then show ?thesis using assms s finish_source_sent [OF s]
    by (auto simp: finish_with_def Let_def split: if_splits)
qed

lemma round_sent:
  assumes "poll_round sha1 os c ob (b, w) = (s, b', w')"
  shows "sent w' = sent w + (if sb_traffic_stats b then of_nat (length (delivered s)) else 0) \<and> sb_traffic_stats b' = sb_traffic_stats b"
proof -
  have c: "sent (count_stats (record_bytes_sent n) w) = sent w + n" for n w
    by (simp add: sent_def count_stats_def record_bytes_sent_def Let_def)
  have send: "sent w' = sent w1 + (if sb_traffic_stats b1 then of_nat (length (delivered s)) else 0) \<and> sb_traffic_stats b' = sb_traffic_stats b1"
    if "send_step sha1 os c ob (b1, w1) = (s, b', w')" for b1 w1
    using that finish_with_sent unfolding send_step_def Let_def
    by (fastforce simp: c split: prod.splits chunk_result.splits if_splits)
  obtain b1 w1 where t: "throttle_done (b, w) = (b1, w1)" by force
  then have same: "sent w1 = sent w" "sb_traffic_stats b1 = sb_traffic_stats b"
    by (auto simp: throttle_done_def sent_def split: option.splits)
  show ?thesis
  proof (cases "sb_throttle_fut b \<noteq> None \<and> \<not> ob_throttle_ready ob")
    case True
    then show ?thesis using assms by (auto simp: poll_round_def)
  next
    case False
    note run = assms [unfolded poll_round_def prod.case if_not_P [OF False] t Let_def]
    have f: ?thesis if "s = End_of_body" "finish_with sha1 os c r (b1, w1) = (b', w')" for r
      using finish_with_sent [OF that(2)] that(1) same by simp
    show ?thesis
    proof (cases "sb_total_size b1 \<le> sb_offset b1")
      case True
      then show ?thesis using run by (intro f [of None]) auto
    next
      case lt: False
      show ?thesis
      proof (cases "is_proxy (sb_source b1)")
        case False
        then show ?thesis using run lt send same by simp
      next
        case True
        obtain g v where g: "proxy_check ob (sb_offset b1) (sb_total_size b1) = (g, v)" by force
        show ?thesis
        proof (cases g)
          case Gate_ready
          then show ?thesis using run lt True g send [of "b1\<lparr>sb_source := set_wait v (sb_source b1)\<rparr>" w1] same by simp
        next
          case (Gate_failed e)
          then show ?thesis using run lt True g by (intro f [of "Some e"]) auto
        qed (use run lt True g same in auto)
      qed
    qed
  qed
qed

lemma rounds_sent:
  assumes "body_rounds sha1 os c obs (b, w) = (xs, b', w')"
  shows "sent w' = sent w + (if sb_traffic_stats b then of_nat (length (concat xs)) else 0)"
  using assms
proof (induction obs arbitrary: b w xs)
  case (Cons ob obs)
  obtain s b1 w1 where r: "poll_round sha1 os c ob (b, w) = (s, b1, w1)" by (metis prod_cases3)
  obtain ys where ys: "body_rounds sha1 os c obs (b1, w1) = (ys, b', w')" "concat xs = delivered s @ concat ys"
    using Cons.prems body_rounds_Cons [OF r, of obs] by (cases "body_rounds sha1 os c obs (b1, w1)") auto
  show ?case using Cons.IH [OF ys(1)] round_sent [OF r] ys(2) by simp
qed simp

text \<open>
  Every response is complete HTTP: whatever a handler returned, also an error, the policy yields a
  response that closes the connection and names the server and the content type; it declares a content
  length exactly when the length is positive, and then that length.
\<close>

lemma finalize_complete:
  assumes "header_value_ok date" "\<forall>spec. response = Inr spec \<longrightarrow> header_value_ok (rs_content_type spec)
      \<and> map_of (rs_headers spec) ''content-length'' = None"
  shows "\<exists>r w1 spec. finalize_response reason date policy (response, w) = Done (r, w1)
    \<and> spec = (case response of Inr s \<Rightarrow> s | Inl _ \<Rightarrow> internal_error) \<and> hr_status r = rs_status spec
    \<and> map_of (hr_headers r) ''connection'' = Some ''close'' \<and> map_of (hr_headers r) ''server'' = Some SERVER_VALUE
    \<and> map_of (hr_headers r) ''content-type'' = Some (rs_content_type spec)
    \<and> map_of (hr_headers r) ''content-length''
        = (if 0 < rs_declared_length spec then Some (show_nat (rs_declared_length spec)) else None)"
proof -
  define spec where "spec = (case response of Inr s \<Rightarrow> s | Inl _ \<Rightarrow> internal_error)"
  have ie: "header_value_ok (rs_content_type internal_error)" "map_of (rs_headers internal_error) ''content-length'' = None"
    by (simp_all add: internal_error_def ResponseSpec_new_def header_value_ok_def DEFAULT_CONTENT_TYPE_def char_code_def)
  have ok: "header_value_ok (rs_content_type spec)" "map_of (rs_headers spec) ''content-length'' = None"
    using assms(2) ie by (auto simp: spec_def split: sum.splits)
  obtain r w1 where r: "finalize_response reason date policy (response, w) = Done (r, w1)" "hr_status r = rs_status spec"
      "hr_headers r = policy_headers date spec"
  proof (rule that)
    let ?p = "the (case finalize_response reason date policy (response, w) of Done x \<Rightarrow> Some x | _ \<Rightarrow> None)"
    show "finalize_response reason date policy (response, w) = Done (fst ?p, snd ?p)" "hr_status (fst ?p) = rs_status spec"
      "hr_headers (fst ?p) = policy_headers date spec"
      using ok(1) assms(1) unfolding finalize_response_def Let_def prod.case spec_def [symmetric]
      by (cases "po_bwm policy"; cases "po_traffic_stats policy"; simp)+
  qed
  have "map_of (policy_headers date spec) n =
     (if n = ''content-length'' \<and> 0 < rs_declared_length spec then Some (show_nat (rs_declared_length spec))
      else if n = ''cache-control'' \<and> 0 < rs_declared_length spec then Some CACHE_CONTROL_VALUE
      else if n = ''server'' then Some SERVER_VALUE else if n = ''date'' then Some date else if n = ''connection'' then Some ''close''
      else if n = ''content-type'' then Some (rs_content_type spec) else map_of (rs_headers spec) n)" for n
    by (simp add: policy_headers_def Let_def update_conv')
  then show ?thesis using r ok(2) spec_def by (intro exI [of _ r] exI [of _ w1] exI [of _ spec]) simp
qed

subsection \<open>Properties\<close>

text \<open>
  C18: Traffic is counted exactly, and only for remote peers: after a response and any rounds of its body,
  the sent-bytes counter has grown by the header bytes and the bytes of the frames when the peer is
  remote, and not at all when it is local. A flow-controlled response has been granted at least as much.
\<close>

theorem response_traffic_exact:
  assumes "finalize_response reason date (ResponsePolicy_new is_local bwm) (response, w) = Done (r, w1)"
    and "body_rounds sha1 os c obs (hr_body r, w1) = (xs, b', w')"
    and "\<forall>spec. response = Inr spec \<longrightarrow> \<not> sb_traffic_stats (rs_body spec) \<and> sb_throttle_fut (rs_body spec) = None
          \<and> \<not> sb_throttled (rs_body spec)"
  shows "sent w' = sent w + (if is_local then 0 else of_nat (header_bytes reason r + length (concat xs)))
    \<and> (bwm \<longrightarrow> header_bytes reason r + length (concat xs) + sum_list (bw_quota w) \<le> sum_list (bw_quota w'))"
proof -
  let ?spec = "case response of Inr s \<Rightarrow> s | Inl _ \<Rightarrow> internal_error"
  have sp: "\<not> sb_traffic_stats (rs_body ?spec)" "sb_throttle_fut (rs_body ?spec) = None" "\<not> sb_throttled (rs_body ?spec)"
    using assms(3) by (auto simp: internal_error_def ResponseSpec_new_def StreamingBody_new_def from_bytes_def body_with_def split: sum.splits)
  note f = assms(1) [unfolded finalize_response_def ResponsePolicy_new_def Let_def prod.case]
  have hb: "header_bytes reason r = header_bytes reason \<lparr>hr_status = rs_status ?spec, hr_headers = policy_headers date ?spec, hr_body = rs_body ?spec\<rparr>"
    using f by (auto simp: header_bytes_def Let_def split: if_splits prod.splits)
  have tr: "sb_traffic_stats (hr_body r) = (\<not> is_local)"
    using f sp(1) by (auto simp: enable_traffic_accounting_def enable_flow_control_def split: if_splits prod.splits)
  have w1: "sent w1 = sent w + (if is_local then 0 else of_nat (header_bytes reason r))"
    using f unfolding hb by (auto simp: sent_def count_stats_def record_bytes_sent_def Let_def split: if_splits prod.splits)
  have q: "quota_inv (header_bytes reason r + sum_list (bw_quota w)) [] (hr_body r) w1" if bwm
    using f sp that unfolding hb
    by (auto simp: quota_inv_def enable_traffic_accounting_def enable_flow_control_def count_stats_def split: if_splits prod.splits)
  have "bwm \<longrightarrow> header_bytes reason r + sum_list (bw_quota w) + length (concat xs) \<le> sum_list (bw_quota w')"
    using quota.rounds_inv [OF q _ assms(2)] by (auto simp: quota_inv_def list_all_iff split: if_splits)
  then show ?thesis using rounds_sent [OF assms(2)] tr w1 by (auto simp: algebra_simps)
qed

theorem response_traffic_exact_witness:
  "sent (snd (snd (body_rounds sample_sha1 sample_os sample_config []
      (StreamingBody_new ''Not Found'', sample_world)))) = sent sample_world
   \<and> (\<exists>r w1. finalize_response (\<lambda>_. None) ''now'' (ResponsePolicy_new False False) (not_found_response, sample_world) = Done (r, w1)
        \<and> sent w1 = sent sample_world + of_nat (header_bytes (\<lambda>_. None) r))"
proof -
  obtain r w1 where f: "finalize_response (\<lambda>_. None) ''now'' (ResponsePolicy_new False False) (not_found_response, sample_world) = Done (r, w1)"
    by (simp add: finalize_response_def ResponsePolicy_new_def not_found_response_def text_response_def ResponseSpec_new_def
        header_value_ok_def DEFAULT_CONTENT_TYPE_def char_code_def Let_def)
  have "sent w1 = sent sample_world + of_nat (header_bytes (\<lambda>_. None) r + length (concat ([] :: string list)))"
    using response_traffic_exact [OF f, of sample_sha1 sample_os sample_config "[]" "[]" "hr_body r" w1]
    by (simp add: not_found_response_def text_response_def ResponseSpec_new_def StreamingBody_new_def from_bytes_def body_with_def)
  then show ?thesis using f by (intro conjI exI [of _ r] exI [of _ w1]) simp_all
qed

end
