(* ===== verification/Hath_Session.thy ===== *)
theory Hath_Session
  imports Hath_Config Hath_Stats
begin

text \<open>
  Sessions, \<^verbatim>\<open>src/src/server/middleware/session.rs\<close>: the registry of inbound connections, its admission
  limit, the time-outs, and the guard whose drop ends a session. Instants are milliseconds. A
  cancellation token is a number; the manager keeps those that were cancelled. The atomics and the
  sharded map make every operation a single step here: \<^verbatim>\<open>admit\<close> updates the counter in one atomic
  operation and then inserts under a key no other session has.
\<close>

datatype SocketAddr = SocketAddr (sock_ip: IpAddr) (sock_port: u16)

datatype AdmissionClass = Exempt | Limited

definition PENDING_TIMEOUT :: nat where "PENDING_TIMEOUT = 30000"
definition NORMAL_TIMEOUT :: nat where "NORMAL_TIMEOUT = 180000"
definition SERVERCMD_TIMEOUT :: nat where "SERVERCMD_TIMEOUT = 1800000"
definition PACKET_SEND_TIMEOUT :: nat where "PACKET_SEND_TIMEOUT = 30000"

datatype SessionKind = Pending | Normal | Servercmd
datatype SessionTimeoutReason = StartAge | LastPacketSend
datatype SessionAdmitError = MaxConnectionsExceeded u32

record SessionState =
  se_remote_addr :: SocketAddr
  se_started_at :: nat
  se_kind :: SessionKind
  se_last_packet_send :: "nat option"
  se_cancel :: nat

definition SessionState_new :: "nat \<Rightarrow> SocketAddr \<Rightarrow> nat \<Rightarrow> SessionState" where
  "SessionState_new now addr cancel =
     \<lparr>se_remote_addr = addr, se_started_at = now, se_kind = Pending, se_last_packet_send = None, se_cancel = cancel\<rparr>"

definition start_timeout :: "SessionKind \<Rightarrow> nat" where
  "start_timeout k = (case k of Pending \<Rightarrow> PENDING_TIMEOUT | Normal \<Rightarrow> NORMAL_TIMEOUT | Servercmd \<Rightarrow> SERVERCMD_TIMEOUT)"

text \<open>\<^verbatim>\<open>checked_duration_since\<close> of a later instant is none.\<close>

definition older_than :: "nat \<Rightarrow> nat \<Rightarrow> nat \<Rightarrow> bool" where
  "older_than limit t now \<longleftrightarrow> t \<le> now \<and> limit < now - t"

definition timeout_reason :: "nat \<Rightarrow> SessionState \<Rightarrow> SessionTimeoutReason option" where
  "timeout_reason now s =
     (if (case se_last_packet_send s of None \<Rightarrow> False | Some t \<Rightarrow> older_than PACKET_SEND_TIMEOUT t now)
      then Some LastPacketSend
      else if older_than (start_timeout (se_kind s)) (se_started_at s) now then Some StartAge
      else None)"

record SessionManager =
  sm_stats :: Stats
  sm_active_connections :: u32
  sm_sessions :: "(u32 \<times> SessionState) list"
  sm_next_token :: nat
  sm_cancelled :: "nat list"

definition SessionManager_new :: "Stats \<Rightarrow> SessionManager" where
  "SessionManager_new st = \<lparr>sm_stats = st, sm_active_connections = 0, sm_sessions = [], sm_next_token = 0, sm_cancelled = []\<rparr>"

definition active_count :: "SessionManager \<Rightarrow> u32" where
  "active_count m = sm_active_connections m"

text \<open>The handle and the guard both name the session by its connection id.\<close>

record SessionAdmission =
  sa_conn_id :: u32
  sa_cancel :: nat
  sa_pending_deadline :: nat
  sa_active_before :: "u32 option"

definition admit_count :: "AdmissionClass \<Rightarrow> u32 \<Rightarrow> u32 \<Rightarrow> u32 option" where
  "admit_count cls maxc current =
     (case cls of
        Exempt \<Rightarrow> Some (current + 1)
      | Limited \<Rightarrow> if current \<le> maxc then checked_add current 1 else None)"

definition admit :: "nat \<Rightarrow> u32 \<Rightarrow> SocketAddr \<Rightarrow> AdmissionClass \<Rightarrow> u32 \<Rightarrow> SessionManager
    \<Rightarrow> (SessionAdmitError + SessionAdmission) \<times> SessionManager" where
  "admit now conn_id remote_addr cls maxc m =
     (let active_before = sm_active_connections m in
      case admit_count cls maxc active_before of
        None \<Rightarrow> (Inl (MaxConnectionsExceeded maxc), m)
      | Some active \<Rightarrow>
          let cancel = sm_next_token m in
          (Inr \<lparr>sa_conn_id = conn_id, sa_cancel = cancel, sa_pending_deadline = now + PENDING_TIMEOUT,
                sa_active_before = (if cls = Limited then Some active_before else None)\<rparr>,
           m\<lparr>sm_active_connections := active,
             sm_stats := set_open_connections (saturating_add active_before 1) (sm_stats m),
             sm_sessions := AList.update conn_id (SessionState_new now remote_addr cancel) (sm_sessions m),
             sm_next_token := cancel + 1\<rparr>))"

definition nuke_old_connections :: "nat \<Rightarrow> SessionManager \<Rightarrow> nat \<times> SessionManager" where
  "nuke_old_connections now m =
     (let expired = filter (\<lambda>(i, s). timeout_reason now s \<noteq> None) (sm_sessions m)
      in (length expired,
          m\<lparr>sm_sessions := filter (\<lambda>(i, s). timeout_reason now s = None) (sm_sessions m),
            sm_cancelled := map (\<lambda>(i, s). se_cancel s) expired @ sm_cancelled m\<rparr>))"

definition guard_drop :: "u32 \<Rightarrow> SessionManager \<Rightarrow> SessionManager" where
  "guard_drop conn_id m =
     (let prev = sm_active_connections m in
      m\<lparr>sm_sessions := AList.delete conn_id (sm_sessions m), sm_active_connections := prev - 1,
        sm_stats := set_open_connections (saturating_sub prev 1) (sm_stats m)\<rparr>)"

definition update_session :: "u32 \<Rightarrow> (SessionState \<Rightarrow> SessionState) \<Rightarrow> SessionManager \<Rightarrow> SessionManager" where
  "update_session conn_id upd m =
     (case map_of (sm_sessions m) conn_id of
        None \<Rightarrow> m
      | Some s \<Rightarrow> m\<lparr>sm_sessions := AList.update conn_id (upd s) (sm_sessions m)\<rparr>)"

definition mark_kind :: "SessionKind \<Rightarrow> u32 \<Rightarrow> SessionManager \<Rightarrow> SessionManager" where
  "mark_kind k conn_id m = update_session conn_id (\<lambda>s. s\<lparr>se_kind := k\<rparr>) m"

definition mark_normal :: "u32 \<Rightarrow> SessionManager \<Rightarrow> SessionManager" where
  "mark_normal conn_id m = mark_kind Normal conn_id m"

definition mark_servercmd :: "u32 \<Rightarrow> SessionManager \<Rightarrow> SessionManager" where
  "mark_servercmd conn_id m = mark_kind Servercmd conn_id m"

definition mark_packet_sent :: "nat \<Rightarrow> u32 \<Rightarrow> SessionManager \<Rightarrow> SessionManager" where
  "mark_packet_sent now conn_id m = update_session conn_id (\<lambda>s. s\<lparr>se_last_packet_send := Some now\<rparr>) m"

subsection \<open>Runs of the registry\<close>

text \<open>
  The events of all connections, in any interleaving, with the list of guards that are alive. A guard
  is dropped once, by the connection that owns it.
\<close>

datatype session_event =
    Admit nat u32 SocketAddr AdmissionClass u32
  | DropGuard u32
  | Nuke nat
  | MarkKind SessionKind u32
  | PacketSent nat u32

type_synonym registry = "SessionManager \<times> u32 list"

definition session_step :: "registry \<Rightarrow> session_event \<Rightarrow> registry" where
  "session_step r ev =
     (case r of (m, live) \<Rightarrow>
        (case ev of
           Admit now i addr cls maxc \<Rightarrow>
             (case admit now i addr cls maxc m of (Inl _, m1) \<Rightarrow> (m1, live) | (Inr _, m1) \<Rightarrow> (m1, i # live))
         | DropGuard i \<Rightarrow> if i \<in> set live then (guard_drop i m, remove1 i live) else (m, live)
         | Nuke now \<Rightarrow> (snd (nuke_old_connections now m), live)
         | MarkKind k i \<Rightarrow> (mark_kind k i m, live)
         | PacketSent now i \<Rightarrow> (mark_packet_sent now i m, live)))"

text \<open>The counter counts guards, and only sessions with a live guard are listed.\<close>

definition registry_inv :: "registry \<Rightarrow> bool" where
  "registry_inv r \<longleftrightarrow> sm_active_connections (fst r) = of_nat (length (snd r))
     \<and> fst ` set (sm_sessions (fst r)) \<subseteq> set (snd r)
     \<and> distinct (map fst (sm_sessions (fst r)))"

lemma update_session_keys:
  "fst ` set (sm_sessions (update_session i u m)) = fst ` set (sm_sessions m)"
  "sm_active_connections (update_session i u m) = sm_active_connections m"
  "distinct (map fst (sm_sessions m)) \<Longrightarrow> distinct (map fst (sm_sessions (update_session i u m)))"
  by (auto simp: update_session_def dom_update distinct_update dest: map_of_SomeD split: option.split)
    (metis fst_conv image_eqI map_of_SomeD)+

lemma session_step_inv: "registry_inv r \<Longrightarrow> registry_inv (session_step r ev)"
proof (cases r)
  case (Pair m live)
  assume inv: "registry_inv r"
  show ?thesis
  proof (cases ev)
    case (Admit now i addr cls maxc)
    show ?thesis
    proof (cases "admit_count cls maxc (sm_active_connections m)")
      case None
      then show ?thesis using inv Pair Admit by (simp add: session_step_def admit_def)
    next
      case (Some a)
      then have "a = sm_active_connections m + 1"
        by (auto simp: admit_count_def split: AdmissionClass.splits if_splits)
      then show ?thesis using inv Pair Admit Some
        by (auto simp: session_step_def admit_def registry_inv_def distinct_update Let_def dest!: update_key_mem)
    qed
  next
    case (DropGuard i)
    show ?thesis
    proof (cases "i \<in> set live")
      case True
      then have "length live = Suc (length (remove1 i live))" by (simp add: length_remove1) (metis Suc_pred length_pos_if_in_set)
      moreover have "fst ` set (AList.delete i (sm_sessions m)) \<subseteq> set (remove1 i live)"
        using inv Pair by (auto simp: registry_inv_def AList.delete_eq)
      ultimately show ?thesis using inv Pair DropGuard True
        by (simp add: session_step_def guard_drop_def registry_inv_def distinct_delete Let_def)
    qed (use inv Pair DropGuard in \<open>simp add: session_step_def\<close>)
  next
    case (Nuke now)
    then show ?thesis using inv Pair
      by (auto simp: session_step_def nuke_old_connections_def registry_inv_def Let_def distinct_map_filter)
  qed (use inv Pair in \<open>auto simp: session_step_def mark_kind_def mark_packet_sent_def registry_inv_def update_session_keys\<close>)
qed

interpretation registry: invariant_machine session_step registry_inv
  by unfold_locales (rule session_step_inv)

lemma registry_inv_new: "registry_inv (SessionManager_new st, [])"
  by (simp add: registry_inv_def SessionManager_new_def)

text \<open>
  C8: the connection counter is exact under any interleaving of admissions, drops, time-outs and
  marks: it is the number of live guards (modulo \<open>2 ^ 32\<close>), and every listed session has one; a session
  that was timed out keeps counting until its guard is dropped.
\<close>

theorem session_count_exact:
  "\<exists>m live. foldl session_step (SessionManager_new st, []) evs = (m, live)
     \<and> active_count m = of_nat (length live) \<and> fst ` set (sm_sessions m) \<subseteq> set live"
  using registry.run_inv [OF registry_inv_new [of st], of evs]
  by (cases "foldl session_step (SessionManager_new st, []) evs") (simp add: registry_inv_def active_count_def)

lemma session_step_limited:
  assumes "registry_inv r" "length (snd r) \<le> Suc M" "Suc M < 2 ^ 32"
    and "\<And>now i addr cls maxc. ev = Admit now i addr cls maxc \<Longrightarrow> cls = Limited \<and> unat maxc \<le> M"
  shows "length (snd (session_step r ev)) \<le> Suc M"
proof (cases r)
  case (Pair m live)
  show ?thesis
  proof (cases ev)
    case (Admit now i addr cls maxc)
    then have c: "cls = Limited" "unat maxc \<le> M" using assms(4) by auto
    have a: "unat (sm_active_connections m) = length live"
      using assms(1-3) Pair by (simp add: registry_inv_def unat_of_nat take_bit_nat_eq_self)
    show ?thesis
    proof (cases "sm_active_connections m \<le> maxc")
      case True
      then have "length live \<le> M" using a c(2) by (simp add: word_le_nat_alt)
      then show ?thesis using Pair Admit by (auto simp: session_step_def split: prod.splits sum.splits)
    next
      case False
      then show ?thesis using Pair Admit assms(2) c(1) by (simp add: session_step_def admit_def admit_count_def)
    qed
  next
    case (DropGuard i)
    then show ?thesis using Pair assms(2) by (auto simp: session_step_def length_remove1)
  qed (use Pair assms(2) in \<open>simp_all add: session_step_def\<close>)
qed

text \<open>
  C23: the connection limit: when every admission is of the limited class with a limit of at most
  \<open>M\<close>, there are never more than \<open>M + 1\<close> live sessions, however admissions and drops interleave (the
  test admits while the count is at most the limit).
\<close>

theorem limited_sessions_bounded:
  assumes "\<forall>ev \<in> set evs. \<forall>now i addr cls maxc. ev = Admit now i addr cls maxc \<longrightarrow> cls = Limited \<and> unat maxc \<le> M"
    and "Suc M < 2 ^ 32"
  shows "length (snd (foldl session_step (SessionManager_new st, []) evs)) \<le> Suc M"
proof -
  have "length (snd (foldl session_step r evs)) \<le> Suc M" if "registry_inv r" "length (snd r) \<le> Suc M" for r
    using that assms(1)
  proof (induction evs arbitrary: r)
    case (Cons ev evs)
    have "length (snd (session_step r ev)) \<le> Suc M"
      by (rule session_step_limited [OF Cons.prems(1,2) assms(2)]) (use Cons.prems(3) in auto)
    then show ?case using Cons.IH [OF session_step_inv [OF Cons.prems(1)]] Cons.prems(3) by simp
  qed simp
  from this [OF registry_inv_new] show ?thesis by simp
qed

theorem limited_sessions_bounded_witness:
  "length (snd (foldl session_step (SessionManager_new Stats_new, [])
     [Admit 0 1 (SocketAddr (V4 1 2 3 4) 5) Limited 1, Admit 0 2 (SocketAddr (V4 1 2 3 4) 6) Limited 1,
      Admit 0 3 (SocketAddr (V4 1 2 3 4) 7) Limited 1])) \<le> Suc 1"
  by (rule limited_sessions_bounded) auto

text \<open>
  the reaper: after a sweep exactly the sessions without a time-out remain (a packet sent at most
  30 s ago, an age of at most 30, 180 or 1800 s by kind), and the token of every removed one is
  cancelled.
\<close>

theorem nuke_removes_expired:
  "set (sm_sessions (snd (nuke_old_connections now m))) = {(i, s) \<in> set (sm_sessions m). timeout_reason now s = None}
   \<and> set (sm_cancelled (snd (nuke_old_connections now m))) =
       set (sm_cancelled m) \<union> se_cancel ` {s. \<exists>i. (i, s) \<in> set (sm_sessions m) \<and> timeout_reason now s \<noteq> None}"
  by (auto simp: nuke_old_connections_def Let_def image_iff)

lemma timeout_reason_iff:
  "timeout_reason now s \<noteq> None \<longleftrightarrow>
     (\<exists>t. se_last_packet_send s = Some t \<and> t + 30000 < now) \<or> se_started_at s + start_timeout (se_kind s) < now"
  by (auto simp: timeout_reason_def older_than_def PACKET_SEND_TIMEOUT_def split: option.splits)

end
