(* ===== verification/Hath_Admission.thy ===== *)
theory Hath_Admission
  imports Hath_Session
begin

text \<open>
  Who may connect, \<^verbatim>\<open>src/src/server/peer.rs\<close> and \<^verbatim>\<open>src/src/server/admission.rs\<close>: the origin of a peer,
  the flood control table, the send buffer size, and the admission of a connection into the session
  registry. Floating point factors are written as the exact integer results: \<^verbatim>\<open>0.8 n\<close> truncated is
  \<open>4 n div 5\<close>, \<^verbatim>\<open>0.2 n\<close> rounded is \<open>(n + 2) div 5\<close>.
\<close>

subsection \<open>Peers\<close>

text \<open>The pattern of local networks, anchored at the start only.\<close>

definition LOCAL_NETWORK_RE :: "string \<Rightarrow> bool" where
  "LOCAL_NETWORK_RE s \<longleftrightarrow>
     starts_with ''localhost'' s \<or> starts_with ''127.'' s \<or> starts_with ''10.'' s \<or> starts_with ''192.168.'' s
     \<or> list_ex (\<lambda>n. starts_with (''172.'' @ show_nat n @ ''.'') s) [16..<32]
     \<or> starts_with ''169.254.'' s \<or> starts_with ''::1'' s \<or> starts_with ''0:0:0:0:0:0:0:1'' s
     \<or> starts_with ''fc'' s \<or> starts_with ''fd'' s"

record SessionOrigin =
  so_peer_ip :: IpAddr
  so_is_local :: bool

definition from_remote_addr :: "SocketAddr \<Rightarrow> Config \<Rightarrow> SessionOrigin" where
  "from_remote_addr remote_addr c =
     (let peer_ip = normalize_ip (sock_ip remote_addr);
          host_addr = to_lowercase (show_ip peer_ip)
      in \<lparr>so_peer_ip = peer_ip, so_is_local = (LOCAL_NETWORK_RE host_addr \<or> cfg_client_host c = host_addr)\<rparr>)"

definition admission_class :: "SessionOrigin \<Rightarrow> bool \<Rightarrow> AdmissionClass" where
  "admission_class org rpc_authorized = (if so_is_local org \<or> rpc_authorized then Exempt else Limited)"

definition is_rpc_authorized :: "IpAddr \<Rightarrow> Config \<Rightarrow> bool" where
  "is_rpc_authorized peer_ip c \<longleftrightarrow> cfg_disable_ip_origin_check c \<or> peer_ip \<in> set (cfg_rpc_servers c)"

subsection \<open>Flood control\<close>

record FloodControlEntry =
  fc_connect_count :: u32
  fc_last_connect :: nat
  fc_block_until :: "nat option"

definition is_blocked :: "nat \<Rightarrow> FloodControlEntry \<Rightarrow> bool" where
  "is_blocked now e = (case fc_block_until e of None \<Rightarrow> False | Some b \<Rightarrow> now < b)"

definition is_stale :: "nat \<Rightarrow> FloodControlEntry \<Rightarrow> bool" where
  "is_stale now e \<longleftrightarrow> older_than 60000 (fc_last_connect e) now"

definition hit :: "nat \<Rightarrow> FloodControlEntry \<Rightarrow> bool \<times> FloodControlEntry" where
  "hit now e =
     (let elapsed_ms = of_nat (now - fc_last_connect e) :: u32;
          count = saturating_add (saturating_sub (fc_connect_count e) (elapsed_ms div 1000)) 1;
          e1 = e\<lparr>fc_connect_count := count, fc_last_connect := now\<rparr>
      in if 10 < count then (False, e1\<lparr>fc_block_until := Some (now + 60000)\<rparr>) else (True, e1))"

definition fresh_entry :: "nat \<Rightarrow> FloodControlEntry" where
  "fresh_entry now = \<lparr>fc_connect_count = 0, fc_last_connect = now, fc_block_until = None\<rparr>"

text \<open>The attempt of one peer: a blocked entry is not hit.\<close>

definition flood_attempt :: "nat \<Rightarrow> FloodControlEntry \<Rightarrow> bool \<times> FloodControlEntry" where
  "flood_attempt now e = (if is_blocked now e then (False, e) else hit now e)"

subsection \<open>Admission\<close>

definition configure_send_buffer :: "Config \<Rightarrow> nat option" where
  "configure_send_buffer c =
     (if cfg_throttle_bytes c = 0 then None
      else let memory_cap = (if cfg_use_less_memory c then 131072 else 524288);
               throttle_cap = (unat (cfg_throttle_bytes c) + 2) div 5;
               requested = min memory_cap throttle_cap
           in if requested = 0 then None else Some requested)"

record admission_state =
  ad_allow_normal_connections :: bool
  ad_flood_control :: "(string \<times> FloodControlEntry) list"
  ad_next_conn_id :: u32
  ad_session_manager :: SessionManager
  ad_last_overload_notification :: "nat option"

record AcceptedConnection =
  ac_conn_id :: u32
  ac_cancel :: nat
  ac_pending_deadline :: nat
  ac_near_limit :: bool

datatype AdmissionRejection = Startup | FloodControl | TooManyConnections u32

definition flood_gate :: "nat \<Rightarrow> string \<Rightarrow> AdmissionClass \<Rightarrow> Config \<Rightarrow> admission_state \<Rightarrow> bool \<times> admission_state" where
  "flood_gate now host cls c s =
     (if cls = Limited \<and> \<not> cfg_disable_flood_control c then
        let entry = (case map_of (ad_flood_control s) host of Some e \<Rightarrow> e | None \<Rightarrow> fresh_entry now);
            (ok, e1) = flood_attempt now entry
        in (ok, s\<lparr>ad_flood_control := AList.update host e1 (ad_flood_control s)\<rparr>)
      else (True, s))"

definition admit_connection :: "nat \<Rightarrow> SocketAddr \<Rightarrow> SessionOrigin \<Rightarrow> Config \<Rightarrow> admission_state
    \<Rightarrow> (AdmissionRejection + AcceptedConnection) \<times> admission_state" where
  "admit_connection now remote_addr org c s =
     (let rpc_authorized = is_rpc_authorized (so_peer_ip org) c;
          cls = admission_class org rpc_authorized;
          max_conns = max_connections c in
      if \<not> ad_allow_normal_connections s \<and> \<not> rpc_authorized then (Inl Startup, s)
      else if cls = Limited \<and> max_conns < active_count (ad_session_manager s)
      then (Inl (TooManyConnections max_conns), s)
      else case flood_gate now (show_ip (so_peer_ip org)) cls c s of
          (False, s1) \<Rightarrow> (Inl FloodControl, s1)
        | (True, s1) \<Rightarrow>
            let conn_id = ad_next_conn_id s1 + 1;
                s2 = s1\<lparr>ad_next_conn_id := conn_id\<rparr>
            in case admit now conn_id remote_addr cls max_conns (ad_session_manager s2) of
                (Inl (MaxConnectionsExceeded m), sm) \<Rightarrow> (Inl (TooManyConnections m), s2\<lparr>ad_session_manager := sm\<rparr>)
              | (Inr a, sm) \<Rightarrow>
                  (Inr \<lparr>ac_conn_id = conn_id, ac_cancel = sa_cancel a, ac_pending_deadline = sa_pending_deadline a,
                        ac_near_limit = (case sa_active_before a of
                           None \<Rightarrow> False
                         | Some prev \<Rightarrow> 0 < prev \<and> 4 * unat max_conns div 5 < unat prev)\<rparr>,
                   s2\<lparr>ad_session_manager := sm\<rparr>))"

text \<open>Whether the RPC is sent, and the new time stamp.\<close>

definition notify_overload :: "nat \<Rightarrow> admission_state \<Rightarrow> bool \<times> admission_state" where
  "notify_overload now s =
     (if (case ad_last_overload_notification s of None \<Rightarrow> True | Some t \<Rightarrow> 30000 \<le> now - t)
      then (True, s\<lparr>ad_last_overload_notification := Some now\<rparr>) else (False, s))"

definition prune_flood_control :: "nat \<Rightarrow> admission_state \<Rightarrow> admission_state" where
  "prune_flood_control now s =
     s\<lparr>ad_flood_control := filter (\<lambda>(h, e). \<not> is_stale now e) (ad_flood_control s)\<rparr>"

subsection \<open>Local networks\<close>

lemma starts_with_dotted:
  assumes "CHR ''.'' \<notin> set p" "CHR ''.'' \<notin> set x"
  shows "starts_with (p @ ''.'' @ q) (x @ ''.'' @ r) \<longleftrightarrow> p = x \<and> starts_with q r"
proof
  assume "starts_with (p @ ''.'' @ q) (x @ ''.'' @ r)"
  then obtain z where z: "x @ ''.'' @ r = (p @ ''.'' @ q) @ z"
    unfolding starts_with_iff by blast
  have "split_once CHR ''.'' (x @ CHR ''.'' # r) = Some (x, r)" "split_once CHR ''.'' (p @ CHR ''.'' # (q @ z)) = Some (p, q @ z)"
    using assms by (simp_all add: split_once_append)
  moreover have "x @ CHR ''.'' # r = p @ CHR ''.'' # (q @ z)" using z by simp
  ultimately have "Some (x, r) = Some (p, q @ z)" by metis
  then show "p = x \<and> starts_with q r" unfolding starts_with_iff by blast
next
  assume "p = x \<and> starts_with q r"
  then show "starts_with (p @ ''.'' @ q) (x @ ''.'' @ r)" by (simp add: starts_with_def)
qed

lemma show_nat_no_dot: "CHR ''.'' \<notin> set (show_nat n)"
  by (rule show_nat_no_char) (simp add: char_class_defs char_code_def)

lemma starts_with_head: "p \<noteq> [] \<Longrightarrow> s \<noteq> [] \<Longrightarrow> hd p \<noteq> hd s \<Longrightarrow> \<not> starts_with p s"
  by (cases p; cases s) (auto simp: starts_with_def)

lemma show_lit:
  "show_nat 127 = ''127''" "show_nat 10 = ''10''" "show_nat 192 = ''192''" "show_nat 168 = ''168''"
  "show_nat 172 = ''172''" "show_nat 169 = ''169''" "show_nat 254 = ''254''"
  by (simp_all add: show_nat.simps)

lemma starts_with_octet:
  "starts_with (show_nat n @ ''.'' @ q) (show_nat m @ ''.'' @ r) \<longleftrightarrow> n = m \<and> starts_with q r"
  using starts_with_dotted [OF show_nat_no_dot show_nat_no_dot] by simp

lemma starts_with_Nil [simp]: "starts_with [] s"
  by (simp add: starts_with_def)

lemma digit_start:
  assumes "p \<noteq> []" "\<not> is_ascii_digit (hd p)"
  shows "\<not> starts_with p (show_nat n @ r)"
proof -
  have "is_ascii_digit (hd (show_nat n @ r))" using show_nat_hd by simp
  then have "hd p \<noteq> hd (show_nat n @ r)" using assms(2) by metis
  then show ?thesis using assms(1) by (intro starts_with_head) auto
qed

lemma not_ipv6_loopback_text: "\<not> starts_with ''0:0:0:0:0:0:0:1'' (show_nat n @ ''.'' @ r)"
proof
  assume "starts_with ''0:0:0:0:0:0:0:1'' (show_nat n @ ''.'' @ r)"
  then obtain z where z: "show_nat n @ ''.'' @ r = ''0:'' @ ''0:0:0:0:0:0:1'' @ z" by (auto simp: starts_with_iff)
  have "show_nat n = ''0''"
  proof (cases "show_nat n")
    case (Cons a as)
    show ?thesis
    proof (cases as)
      case Nil
      then show ?thesis using Cons z by simp
    next
      case (Cons b bs)
      then have "b = CHR '':''" using z \<open>show_nat n = a # as\<close> by simp
      moreover have "is_ascii_digit b" using show_nat_digits [of n] Cons \<open>show_nat n = a # as\<close> by simp
      ultimately show ?thesis by (simp add: char_class_defs char_code_def)
    qed
  qed simp
  then show False using z by simp
qed

text \<open>
  an IPv4 peer counts as local exactly when it is in 127/8, 10/8, 192.168/16, 172.16/12 or
  169.254/16, or equals the host the server reported for this client.
\<close>

theorem ipv4_local_networks:
  "so_is_local (from_remote_addr (SocketAddr (V4 a b c d) p) cfg) \<longleftrightarrow>
     unat a = 127 \<or> unat a = 10 \<or> unat a = 192 \<and> unat b = 168 \<or> unat a = 172 \<and> 16 \<le> unat b \<and> unat b < 32
     \<or> unat a = 169 \<and> unat b = 254 \<or> cfg_client_host cfg = show_ipv4 a b c d"
proof -
  let ?r = "show_word c @ ''.'' @ show_word d"
  have t: "show_ipv4 a b c d = show_word a @ ''.'' @ show_word b @ ''.'' @ ?r" by (simp add: show_ipv4_def)
  have lower: "to_lowercase (show_ipv4 a b c d) = show_ipv4 a b c d"
  proof (rule map_idI)
    fix x
    assume "x \<in> set (show_ipv4 a b c d)"
    then have "is_ascii_digit x \<or> x = CHR ''.''" using show_nat_digits by (auto simp: show_ipv4_def)
    then show "to_lower x = x" by (auto simp: to_lower_def char_class_defs char_code_def)
  qed
  have n: "\<not> starts_with ''localhost'' (show_ipv4 a b c d)" "\<not> starts_with ''::1'' (show_ipv4 a b c d)"
    "\<not> starts_with ''fc'' (show_ipv4 a b c d)" "\<not> starts_with ''fd'' (show_ipv4 a b c d)"
    unfolding t by (rule digit_start; simp add: char_class_defs char_code_def)+
  have o1: "starts_with (show_nat k @ ''.'') (show_ipv4 a b c d) \<longleftrightarrow> unat a = k" for k
    using starts_with_octet [of k "[]" "unat a"] unfolding t by auto
  have o2: "starts_with (show_nat k @ ''.'' @ show_nat l @ ''.'') (show_ipv4 a b c d) \<longleftrightarrow> unat a = k \<and> unat b = l" for k l
    using starts_with_octet [of k "show_nat l @ ''.''" "unat a"] starts_with_octet [of l "[]" "unat b" ?r] unfolding t by auto
  have l: "LOCAL_NETWORK_RE (show_ipv4 a b c d) \<longleftrightarrow>
     unat a = 127 \<or> unat a = 10 \<or> unat a = 192 \<and> unat b = 168 \<or> unat a = 172 \<and> 16 \<le> unat b \<and> unat b < 32
     \<or> unat a = 169 \<and> unat b = 254"
  proof -
    have e: "starts_with ''127.'' (show_ipv4 a b c d) = (unat a = 127)" "starts_with ''10.'' (show_ipv4 a b c d) = (unat a = 10)"
      "starts_with ''192.168.'' (show_ipv4 a b c d) = (unat a = 192 \<and> unat b = 168)"
      "starts_with ''169.254.'' (show_ipv4 a b c d) = (unat a = 169 \<and> unat b = 254)"
      using o1 [of 127] o1 [of 10] o2 [of 192 168] o2 [of 169 254] by (simp_all add: show_lit)
    have m0: "starts_with (''172.'' @ show_nat n @ ''.'') (show_ipv4 a b c d) = (unat a = 172 \<and> unat b = n)" for n
      using o2 [of 172 n] by (simp add: show_lit)
    have m: "list_ex (\<lambda>n. starts_with (''172.'' @ show_nat n @ ''.'') (show_ipv4 a b c d)) [16..<32]
        = (unat a = 172 \<and> 16 \<le> unat b \<and> unat b < 32)" unfolding list_ex_iff m0 set_upt by auto
    have z: "\<not> starts_with ''0:0:0:0:0:0:0:1'' (show_ipv4 a b c d)" unfolding t by (rule not_ipv6_loopback_text)
    show ?thesis unfolding LOCAL_NETWORK_RE_def e m using n z by blast
  qed
  show ?thesis by (auto simp: from_remote_addr_def Let_def show_ip_def lower l)
qed

subsection \<open>Flood control as a leaky bucket\<close>

text \<open>Attempts of one peer at the given times; the number counts the allowed ones.\<close>

definition flood_step :: "nat \<times> FloodControlEntry \<Rightarrow> nat \<Rightarrow> nat \<times> FloodControlEntry" where
  "flood_step ke now =
     (case flood_attempt now (snd ke) of (ok, e1) \<Rightarrow> (if ok then fst ke + 1 else fst ke, e1))"

definition bucket_inv :: "nat \<Rightarrow> nat \<times> FloodControlEntry \<Rightarrow> bool" where
  "bucket_inv t0 ke \<longleftrightarrow> t0 \<le> fc_last_connect (snd ke)
     \<and> 1000 * fst ke \<le> 1000 * unat (fc_connect_count (snd ke)) + (fc_last_connect (snd ke) - t0)
     \<and> 1000 * fst ke \<le> 10000 + (fc_last_connect (snd ke) - t0)"

definition decay :: "nat \<Rightarrow> FloodControlEntry \<Rightarrow> nat" where
  "decay now e = unat (of_nat (now - fc_last_connect e) div 1000 :: u32)"

lemma decay_le: "1000 * decay now e \<le> now - fc_last_connect e"
proof -
  have "decay now e = ((now - fc_last_connect e) mod 2 ^ 32) div 1000"
    by (simp add: decay_def unat_div unat_of_nat take_bit_eq_mod)
  then have "1000 * decay now e \<le> (now - fc_last_connect e) mod 2 ^ 32" by simp
  then show ?thesis using mod_less_eq_dividend order_trans by blast
qed

lemma hit_count:
  "unat (fc_connect_count (snd (hit now e))) = min (unat (fc_connect_count e) - decay now e + 1) (2 ^ 32 - 1)"
  "fc_last_connect (snd (hit now e)) = now"
  "fst (hit now e) \<longleftrightarrow> unat (fc_connect_count (snd (hit now e))) \<le> 10"
  by (auto simp: hit_def Let_def decay_def unat_saturating_add unat_saturating_sub word_less_nat_alt)

lemma bucket_step:
  assumes "bucket_inv t0 ke" "fc_last_connect (snd ke) \<le> now"
  shows "bucket_inv t0 (flood_step ke now)
    \<and> (fc_last_connect (snd (flood_step ke now)) = fc_last_connect (snd ke) \<or> fc_last_connect (snd (flood_step ke now)) = now)"
proof (cases "is_blocked now (snd ke)")
  case True
  then have "flood_step ke now = ke" by (simp add: flood_step_def flood_attempt_def)
  then show ?thesis using assms by simp
next
  case False
  obtain k e where ke: "ke = (k, e)" by force
  obtain ok e1 where h: "hit now e = (ok, e1)" by force
  have c: "unat (fc_connect_count e1) = min (unat (fc_connect_count e) - decay now e + 1) (2 ^ 32 - 1)"
    "fc_last_connect e1 = now" "ok \<longleftrightarrow> unat (fc_connect_count e1) \<le> 10"
    using hit_count [of now e] h by simp_all
  have d: "1000 * decay now e \<le> now - fc_last_connect e" by (rule decay_le)
  have s: "flood_step ke now = (if ok then k + 1 else k, e1)"
    using False h by (simp add: flood_step_def flood_attempt_def ke)
  have i: "t0 \<le> fc_last_connect e" "1000 * k \<le> 1000 * unat (fc_connect_count e) + (fc_last_connect e - t0)"
    "1000 * k \<le> 10000 + (fc_last_connect e - t0)" "fc_last_connect e \<le> now"
    using assms unfolding bucket_inv_def ke fst_conv snd_conv by blast+
  have u: "unat (fc_connect_count e) < 4294967296" by (rule unat_u32)
  show ?thesis
  proof (cases ok)
    case True
    then have "unat (fc_connect_count e1) = unat (fc_connect_count e) - decay now e + 1" "unat (fc_connect_count e1) \<le> 10"
      using c(1,3) by (simp_all add: min_def split: if_splits)
    then show ?thesis using True s c(2) i d by (auto simp: bucket_inv_def)
  next
    case False
    have "unat (fc_connect_count e) - decay now e \<le> unat (fc_connect_count e1)" using c(1) u by (cases "unat (fc_connect_count e) - decay now e \<le> 4294967294") (auto simp: min_def)
    then show ?thesis using False s c(2) i d by (auto simp: bucket_inv_def)
  qed
qed

lemma bucket_run:
  "bucket_inv t0 ke \<Longrightarrow> sorted (fc_last_connect (snd ke) # ts) \<Longrightarrow>
   bucket_inv t0 (foldl flood_step ke ts) \<and> fc_last_connect (snd (foldl flood_step ke ts)) \<le> last (fc_last_connect (snd ke) # ts)"
proof (induction ts arbitrary: ke)
  case (Cons t ts)
  have le: "fc_last_connect (snd ke) \<le> t" using Cons.prems(2) by simp
  note st = bucket_step [OF Cons.prems(1) le]
  have l: "fc_last_connect (snd (flood_step ke t)) \<le> t" using st le by auto
  then have "sorted (fc_last_connect (snd (flood_step ke t)) # ts)" using Cons.prems(2) by auto
  then have r: "bucket_inv t0 (foldl flood_step (flood_step ke t) ts)"
    "fc_last_connect (snd (foldl flood_step (flood_step ke t) ts)) \<le> last (fc_last_connect (snd (flood_step ke t)) # ts)"
    using Cons.IH [of "flood_step ke t"] st by blast+
  show ?case using r l by (cases ts) auto
qed simp

text \<open>
  C22: flood control is a leaky bucket: however a peer spaces its attempts, it is allowed at most ten
  connections plus one per elapsed second since its first attempt; refused and blocked attempts give
  it nothing.
\<close>

theorem flood_control_bound:
  assumes "sorted (t0 # ts)"
  shows "1000 * fst (foldl flood_step (0, fresh_entry t0) ts) \<le> 10000 + (last (t0 # ts) - t0)"
proof -
  have "bucket_inv t0 (0, fresh_entry t0)" by (simp add: bucket_inv_def fresh_entry_def)
  from bucket_run [OF this, of ts] show ?thesis
    using assms by (auto simp: bucket_inv_def fresh_entry_def simp del: last.simps intro: order_trans)
qed

theorem flood_control_bound_witness:
  "1000 * fst (foldl flood_step (0, fresh_entry 100) (replicate 20 100)) \<le> 10000 + (last (100 # replicate 20 100) - 100)"
  by (rule flood_control_bound) (simp add: numeral_eq_Suc)

subsection \<open>Admission\<close>

lemma admit_result:
  assumes "admit now i addr cls maxc m = (Inr a, m')"
  shows "sm_active_connections m' = sm_active_connections m + 1 \<and> i \<in> fst ` set (sm_sessions m')
    \<and> (cls = Limited \<longrightarrow> sm_active_connections m \<le> maxc)"
  using assms
  by (auto simp: admit_def Let_def admit_count_def dom_update split: option.splits AdmissionClass.splits if_splits)

lemma flood_gate_sessions: "ad_session_manager (snd (flood_gate now h cls c s)) = ad_session_manager s"
  "ad_next_conn_id (snd (flood_gate now h cls c s)) = ad_next_conn_id s"
  by (auto simp: flood_gate_def Let_def split: prod.splits)

text \<open>
  C21: an admitted connection satisfies the whole policy: normal connections are open or the peer is
  an authorised RPC server; a limited peer found at most the configured number of sessions and passed
  flood control; the connection has the next id, is registered, and is counted.
\<close>

theorem admission_policy:
  assumes "admit_connection now addr org c s = (Inr a, s')"
  shows "(ad_allow_normal_connections s \<or> is_rpc_authorized (so_peer_ip org) c)
    \<and> (so_is_local org \<or> is_rpc_authorized (so_peer_ip org) c
        \<or> (active_count (ad_session_manager s) \<le> max_connections c
           \<and> fst (flood_gate now (show_ip (so_peer_ip org)) Limited c s)))
    \<and> ac_conn_id a = ad_next_conn_id s + 1 \<and> ad_next_conn_id s' = ad_next_conn_id s + 1
    \<and> ac_conn_id a \<in> fst ` set (sm_sessions (ad_session_manager s'))
    \<and> active_count (ad_session_manager s') = active_count (ad_session_manager s) + 1"
proof -
  let ?auth = "is_rpc_authorized (so_peer_ip org) c"
  let ?cls = "admission_class org ?auth"
  obtain ok s1 where g: "flood_gate now (show_ip (so_peer_ip org)) ?cls c s = (ok, s1)" by force
  have keep: "ad_session_manager s1 = ad_session_manager s" "ad_next_conn_id s1 = ad_next_conn_id s"
    using flood_gate_sessions [of now "show_ip (so_peer_ip org)" ?cls c s] g by simp_all
  have ok: "ok" using assms g by (cases ok) (auto simp: admit_connection_def Let_def split: if_splits)
  obtain r sm where adm: "admit now (ad_next_conn_id s + 1) addr ?cls (max_connections c) (ad_session_manager s) = (r, sm)" by force
  obtain x where x: "r = Inr x"
    using assms g ok adm keep
    by (cases r) (auto simp: admit_connection_def Let_def split: if_splits SessionAdmitError.splits)
  have a: "ac_conn_id a = ad_next_conn_id s + 1" "s' = s1\<lparr>ad_next_conn_id := ad_next_conn_id s + 1, ad_session_manager := sm\<rparr>"
    using assms g ok adm x keep by (auto simp: admit_connection_def Let_def split: if_splits)
  have p: "ad_allow_normal_connections s \<or> ?auth" using assms by (auto simp: admit_connection_def Let_def split: if_splits)
  have l: "?cls = Limited \<longrightarrow> active_count (ad_session_manager s) \<le> max_connections c"
    using assms by (auto simp: admit_connection_def Let_def split: if_splits)
  show ?thesis
    using p l a g ok admit_result [OF adm [unfolded x]] by (auto simp: admission_class_def active_count_def split: if_splits)
qed

definition sample_admission :: admission_state where
  "sample_admission = \<lparr>ad_allow_normal_connections = True, ad_flood_control = [], ad_next_conn_id = 0,
     ad_session_manager = SessionManager_new Stats_new, ad_last_overload_notification = None\<rparr>"

definition sample_origin :: SessionOrigin where
  "sample_origin = \<lparr>so_peer_ip = V4 8 8 8 8, so_is_local = False\<rparr>"

theorem admission_policy_witness:
  "\<exists>a s'. admit_connection 5 (SocketAddr (V4 8 8 8 8) 443) sample_origin sample_config sample_admission = (Inr a, s')
     \<and> ac_conn_id a = 1 \<and> active_count (ad_session_manager s') = 1"
proof -
  have auth: "\<not> is_rpc_authorized (so_peer_ip sample_origin) sample_config"
    by (simp add: is_rpc_authorized_def sample_config_def config_defaults_def sample_args_def)
  have cls: "admission_class sample_origin False = Limited" by (simp add: admission_class_def sample_origin_def)
  have mc: "max_connections sample_config = 20"
    by (simp add: max_connections_def sample_config_def config_defaults_def sample_args_def)
  have gate: "fst (flood_gate 5 h Limited sample_config sample_admission)" for h
    by (simp add: flood_gate_def sample_admission_def flood_attempt_def fresh_entry_def is_blocked_def hit_def
        saturating_add_def saturating_sub_def)
  have "\<exists>a s'. admit_connection 5 (SocketAddr (V4 8 8 8 8) 443) sample_origin sample_config sample_admission = (Inr a, s')"
    using gate [of "show_ip (so_peer_ip sample_origin)"]
    by (cases "flood_gate 5 (show_ip (so_peer_ip sample_origin)) Limited sample_config sample_admission")
      (auto simp: admit_connection_def auth cls mc Let_def admit_def admit_count_def active_count_def sample_admission_def
        SessionManager_new_def checked_add_def flood_gate_def split: prod.splits if_splits)
  then obtain a s' where e: "admit_connection 5 (SocketAddr (V4 8 8 8 8) 443) sample_origin sample_config sample_admission = (Inr a, s')"
    by blast
  from admission_policy [OF e] e show ?thesis
    by (auto simp: sample_admission_def active_count_def SessionManager_new_def)
qed

text \<open>
  the local-network pattern is not anchored at its end, so \<^verbatim>\<open>::1\<close> also matches global IPv6
  addresses whose text only begins with it: such a peer is exempt from flood control and the
  connection limit.
\<close>

theorem ipv6_prefix_counts_as_local:
  "so_is_local (from_remote_addr (SocketAddr (V6 [0, 0, 0, 0, 0, 0, 0x1234, 0x5678]) p) c)"
proof -
  have r: "longest_run [0, 0, 0, 0, 0, 0, 0x1234, 0x5678] = (0, 6)"
    by (simp add: longest_run_def zero_run_def upt_rec)
  have "show_ip (V6 [0, 0, 0, 0, 0, 0, 0x1234, 0x5678]) = ''::1234:5678''"
    by (simp add: show_ip_def to_ipv4_mapped_def r show_groups_def show_hex.simps hex_digit_def char_of_def bit_0)
  moreover have "normalize_ip (V6 [0, 0, 0, 0, 0, 0, 0x1234, 0x5678]) = V6 [0, 0, 0, 0, 0, 0, 0x1234, 0x5678]"
    by (simp add: normalize_ip_def to_ipv4_mapped_def)
  ultimately show ?thesis
    by (simp add: from_remote_addr_def LOCAL_NETWORK_RE_def starts_with_def to_lower_def is_ascii_upper_def char_code_def)
qed

end
