(* ===== verification/Hath_Request.thy ===== *)
theory Hath_Request
  imports Hath_Admission
begin

text \<open>
  Request lines, \<^verbatim>\<open>src/src/server/request.rs\<close>: the kinds of request, how a method and a path are
  turned into one, and the three signatures the server puts into URLs (file serving, server
  commands, speed tests). \<open>sha1\<close> is the digest parameter, \<open>now\<close> the Unix time in seconds.
\<close>

datatype RequestType =
    FileServe string "HVFile option" Additional bool bool
  | ServerCommand string string bool
  | SpeedTest u32 bool bool bool
  | Favicon
  | Robots
  | NotFound
  | BadRequest
  | MethodNotAllowed

subsection \<open>Signatures\<close>

definition keystamp_plain :: "int \<Rightarrow> string \<Rightarrow> Config \<Rightarrow> string" where
  "keystamp_plain timestamp fid c =
     show_int timestamp @ ''-'' @ fid @ ''-'' @ key_str (cfg_client_key c) @ ''-hotlinkthis''"

definition validate_keystamp :: "digest \<Rightarrow> int \<Rightarrow> string \<Rightarrow> string option \<Rightarrow> Config \<Rightarrow> bool" where
  "validate_keystamp sha1 now fid keystamp c =
     (case keystamp of
        None \<Rightarrow> False
      | Some k \<Rightarrow>
          (case split_once CHR ''-'' k of
             None \<Rightarrow> False
           | Some (timestamp_str, provided_prefix) \<Rightarrow>
               (case parse_i64 timestamp_str of
                  None \<Rightarrow> False
                | Some timestamp \<Rightarrow>
                    if 900 \<le> i64_abs (i64_wrap (server_time now c - timestamp)) then False
                    else if length provided_prefix \<noteq> 10 then False
                    else eq_ignore_ascii_case (take 10 (sha1_string sha1 (keystamp_plain timestamp fid c)))
                           provided_prefix)))"

definition servercmd_plain :: "string \<Rightarrow> string \<Rightarrow> int \<Rightarrow> Config \<Rightarrow> string" where
  "servercmd_plain command additional time c =
     ''hentai@home-servercmd-'' @ command @ ''-'' @ additional @ ''-''
       @ show_word (client_id_val (cfg_client_id c)) @ ''-'' @ show_int time @ ''-'' @ key_str (cfg_client_key c)"

definition validate_servercmd :: "digest \<Rightarrow> int \<Rightarrow> string \<Rightarrow> string \<Rightarrow> int \<Rightarrow> string \<Rightarrow> Config \<Rightarrow> bool" where
  "validate_servercmd sha1 now command additional time key c =
     (if 300 < i64_abs (i64_wrap (time - server_time now c)) then False
      else sha1_string sha1 (servercmd_plain command additional time c) = key)"

definition speedtest_plain :: "u32 \<Rightarrow> int \<Rightarrow> Config \<Rightarrow> string" where
  "speedtest_plain testsize testtime c =
     ''hentai@home-speedtest-'' @ show_word testsize @ ''-'' @ show_int testtime @ ''-''
       @ show_word (client_id_val (cfg_client_id c)) @ ''-'' @ key_str (cfg_client_key c)"

definition validate_speedtest :: "digest \<Rightarrow> int \<Rightarrow> u32 \<Rightarrow> int \<Rightarrow> string \<Rightarrow> Config \<Rightarrow> bool" where
  "validate_speedtest sha1 now testsize testtime testkey c =
     (if 300 < i64_abs (i64_wrap (testtime - server_time now c)) then False
      else sha1_string sha1 (speedtest_plain testsize testtime c) = testkey)"

subsection \<open>The parsers of the three kinds of URL\<close>

definition parse_file_serve :: "digest \<Rightarrow> int \<Rightarrow> string list \<Rightarrow> Config \<Rightarrow> bool \<Rightarrow> RequestType" where
  "parse_file_serve sha1 now url_parts c head_only =
     (if length url_parts < 4 then BadRequest
      else let fid = url_parts ! 2;
               additional = parse_additional (url_parts ! 3)
           in FileServe fid (from_fileid fid) additional
                (validate_keystamp sha1 now fid (add_keystamp additional) c) head_only)"

definition parse_server_command :: "digest \<Rightarrow> int \<Rightarrow> string list \<Rightarrow> IpAddr \<Rightarrow> Config \<Rightarrow> RequestType" where
  "parse_server_command sha1 now url_parts client_ip c =
     (let is_from_rpc = is_rpc_authorized client_ip c in
      if length url_parts < 6 then ServerCommand [] [] False
      else let command = url_parts ! 2;
               additional = url_parts ! 3;
               command_time = unwrap_or (parse_i64 (url_parts ! 4)) 0;
               key = url_parts ! 5
           in ServerCommand command additional
                (is_from_rpc \<and> validate_servercmd sha1 now command additional command_time key c))"

definition parse_speed_test :: "digest \<Rightarrow> int \<Rightarrow> string list \<Rightarrow> Config \<Rightarrow> bool \<Rightarrow> RequestType" where
  "parse_speed_test sha1 now url_parts c head_only =
     (if length url_parts < 5 then SpeedTest 0 False False head_only
      else let testsize = unwrap_or (parse_word (url_parts ! 2)) 0;
               testtime = unwrap_or (parse_i64 (url_parts ! 3)) 0;
               valid = validate_speedtest sha1 now testsize testtime (url_parts ! 4) c
           in SpeedTest testsize valid (\<not> valid) head_only)"

subsection \<open>The request line\<close>

definition strip_absolute :: "string \<Rightarrow> string" where
  "strip_absolute uri =
     (if starts_with ''http://'' uri then
        (case dropWhile (\<lambda>ch. ch \<noteq> CHR ''/'') (drop 7 uri) of [] \<Rightarrow> ''/'' | rest \<Rightarrow> rest)
      else uri)"

definition parse_request :: "digest \<Rightarrow> int \<Rightarrow> string \<Rightarrow> string \<Rightarrow> IpAddr \<Rightarrow> Config \<Rightarrow> RequestType" where
  "parse_request sha1 now meth path_and_query client_ip c =
     (if to_uppercase meth \<notin> {''GET'', ''HEAD''} then MethodNotAllowed
      else
        let uri = replace_all ''%3d'' ''='' (strip_absolute path_and_query);
            url_parts = split_on CHR ''/'' uri;
            head_only = eq_ignore_ascii_case meth ''HEAD''
        in if length url_parts < 2 \<or> url_parts ! 0 \<noteq> [] then NotFound
           else if url_parts ! 1 = ''h'' then parse_file_serve sha1 now url_parts c head_only
           else if url_parts ! 1 = ''servercmd'' then parse_server_command sha1 now url_parts client_ip c
           else if url_parts ! 1 = ''t'' then parse_speed_test sha1 now url_parts c head_only
           else if length url_parts = 2 then
             (if url_parts ! 1 = ''favicon.ico'' then Favicon
              else if url_parts ! 1 = ''robots.txt'' then Robots
              else NotFound)
           else NotFound)"

subsection \<open>Lemmas\<close>

lemma replace_all_absent:
  "p \<notin> set s \<Longrightarrow> replace_all (p # ps) rep s = s"
proof (induction s)
  case (Cons x xs)
  then show ?case by (subst replace_all.simps) (auto simp: starts_with_def)
qed (subst replace_all.simps, simp add: starts_with_def)

text \<open>The i64 distance test is the distance on integers when the difference does not overflow.\<close>

lemma i64_distance:
  assumes "\<bar>a - b\<bar> < 2 ^ 63"
  shows "i64_abs (i64_wrap (a - b)) = \<bar>a - b\<bar>"
proof -
  have "is_i64 (a - b)" "a - b \<noteq> - (2 ^ 63)" using assms by (auto simp: is_i64_def)
  then show ?thesis by (simp add: i64_abs_id)
qed

lemma i64_distance_less:
  assumes "is_i64 a" "is_i64 b" "i64_abs (i64_wrap (a - b)) \<le> n" "0 \<le> n" "n < 2 ^ 63"
  shows "\<exists>k. \<bar>a - b - k * 2 ^ 64\<bar> \<le> n \<or> i64_wrap (a - b) = - (2 ^ 63)"
proof (cases "i64_wrap (a - b) = - (2 ^ 63)")
  case False
  then have "\<bar>i64_wrap (a - b)\<bar> \<le> n" using assms(3) by (simp add: i64_abs_id)
  moreover have "i64_wrap (a - b) = a - b - ((a - b + 2 ^ 63) div 2 ^ 64) * 2 ^ 64"
    unfolding i64_wrap_def by (simp add: minus_div_mult_eq_mod [symmetric])
  ultimately show ?thesis by auto
qed auto

lemma sha1_string_chars: "ch \<in> set (sha1_string sha1 s) \<Longrightarrow> is_lower_hex ch"
  by (simp add: sha1_string_def hex_encode_lower)

lemma lower_hex_not_sep [simp]:
  "is_lower_hex ch \<Longrightarrow> ch \<noteq> CHR ''/''" "is_lower_hex ch \<Longrightarrow> ch \<noteq> CHR ''%''"
  by (auto simp: char_eval)

lemma sha1_string_no_sep [simp]:
  "CHR ''/'' \<notin> set (sha1_string sha1 s)" "CHR ''%'' \<notin> set (sha1_string sha1 s)"
  using sha1_string_chars lower_hex_not_sep by blast+

lemma sha1_prefix_lowercase:
  "to_lowercase (take n (sha1_string sha1 s)) = take n (sha1_string sha1 s)"
  by (rule to_lowercase_lower_hex) (blast dest: in_set_takeD sha1_string_chars)

lemma show_int_chars: "ch \<in> set (show_int t) \<Longrightarrow> is_ascii_digit ch \<or> ch = CHR ''-''"
  using show_nat_digits by (auto simp: show_int_def split: if_splits)

lemma show_int_no_sep [simp]: "CHR ''/'' \<notin> set (show_int t)" "CHR ''%'' \<notin> set (show_int t)"
  using show_int_chars by (force simp: char_eval)+

lemma show_nat_no_sep [simp]: "CHR ''/'' \<notin> set (show_nat n)" "CHR ''%'' \<notin> set (show_nat n)"
  by (simp_all add: show_nat_no_char char_eval)

text \<open>A path of plain segments is split into them.\<close>

lemma parts_of_path:
  assumes "\<forall>p \<in> set ps. CHR ''/'' \<notin> set p \<and> CHR ''%'' \<notin> set p" "ps \<noteq> []"
  shows "split_on CHR ''/'' (replace_all ''%3d'' ''='' (strip_absolute (CHR ''/'' # join_with ''/'' ps))) = [] # ps"
proof -
  have "CHR ''%'' \<notin> set (join_with ''/'' ps)"
    using assms(1) by (induction "''/''" ps rule: join_with.induct) auto
  then have "replace_all ''%3d'' ''='' (CHR ''/'' # join_with ''/'' ps) = CHR ''/'' # join_with ''/'' ps"
    by (intro replace_all_absent) simp
  moreover have "strip_absolute (CHR ''/'' # join_with ''/'' ps) = CHR ''/'' # join_with ''/'' ps"
    by (simp add: strip_absolute_def starts_with_def)
  ultimately show ?thesis using split_on_join [of ps "CHR ''/''"] assms by simp
qed

lemma get_upper: "to_upper CHR ''G'' = CHR ''G''" "to_upper CHR ''E'' = CHR ''E''" "to_upper CHR ''T'' = CHR ''T''"
  by (simp_all add: to_upper_def char_eval)

text \<open>A valid server command comes out of the server command parser only.\<close>

lemma parse_request_servercmd:
  assumes "parse_request sha1 now meth uri ip c = ServerCommand cmd add v"
  shows "\<exists>ps. parse_server_command sha1 now ps ip c = ServerCommand cmd add v
    \<and> ps = split_on CHR ''/'' (replace_all ''%3d'' ''='' (strip_absolute uri))"
  using assms by (auto simp: parse_request_def parse_file_serve_def parse_speed_test_def Let_def split: if_splits)

lemma servercmd_parsed:
  assumes "\<forall>p \<in> set [cmd, add, key]. CHR ''/'' \<notin> set p \<and> CHR ''%'' \<notin> set p"
    and "is_i64 t" "\<bar>t - server_time now c\<bar> < 2 ^ 63"
  shows "parse_request sha1 now ''GET'' (''/servercmd/'' @ join_with ''/'' [cmd, add, show_int t, key]) ip c =
    ServerCommand cmd add (is_rpc_authorized ip c \<and> \<bar>t - server_time now c\<bar> \<le> 300
      \<and> key = sha1_string sha1 (servercmd_plain cmd add t c))"
proof -
  let ?ps = "[''servercmd'', cmd, add, show_int t, key]"
  have "split_on CHR ''/'' (replace_all ''%3d'' ''='' (strip_absolute (CHR ''/'' # join_with ''/'' ?ps))) = [] # ?ps"
    using assms(1) by (intro parts_of_path) auto
  then have "parse_request sha1 now ''GET'' (CHR ''/'' # join_with ''/'' ?ps) ip c
      = parse_server_command sha1 now ([] # ?ps) ip c"
    unfolding parse_request_def Let_def by (simp add: get_upper)
  then show ?thesis using i64_distance [OF assms(3)]
    by (auto simp: parse_server_command_def validate_servercmd_def parse_i64_show_int [OF assms(2)] unwrap_or_def)
qed

subsection \<open>Properties\<close>


definition sample_digest :: digest where
  "sample_digest s = replicate 20 (of_nat (length s))"

lemma sample_server_time: "server_time now (sample_config\<lparr>cfg_rpc_servers := rs\<rparr>) = i64_wrap now"
  by (simp add: server_time_def sample_config_def config_defaults_def)


lemma keystamp_iff:
  assumes "0 \<le> server_time now c"
  shows "validate_keystamp sha1 now fid (Some k) c \<longleftrightarrow>
    (\<exists>ts t p. k = ts @ CHR ''-'' # p \<and> CHR ''-'' \<notin> set ts \<and> parse_i64 ts = Some t \<and> 0 \<le> t
       \<and> \<bar>server_time now c - t\<bar> < 900 \<and> length p = 10
       \<and> to_lowercase p = take 10 (sha1_string sha1 (keystamp_plain t fid c)))"
proof -
  have nonneg: "0 \<le> t" if "parse_i64 ts = Some t" "CHR ''-'' \<notin> set ts" for ts t
    using that by (auto simp: parse_i64_def split: list.splits)
  have dist: "i64_abs (i64_wrap (server_time now c - t)) = \<bar>server_time now c - t\<bar>"
    if "parse_i64 ts = Some t" "CHR ''-'' \<notin> set ts" for ts t
    using nonneg [OF that] parse_i64_is_i64 [OF that(1)] assms is_i64_wrap [of "now + cfg_server_time_delta c"]
    by (intro i64_distance) (auto simp: server_time_def is_i64_def)
  show ?thesis
  proof (cases "split_once CHR ''-'' k")
    case None
    then have "CHR ''-'' \<notin> set k" using split_once_append by (metis option.distinct(1) split_list_first)
    then show ?thesis using None by (auto simp: validate_keystamp_def)
  next
    case (Some tp)
    then obtain ts p where k: "k = ts @ CHR ''-'' # p" "CHR ''-'' \<notin> set ts"
      by (cases tp) (auto simp: split_once_Some)
    have uniq: "ts' = ts \<and> p' = p" if "k = ts' @ CHR ''-'' # p'" "CHR ''-'' \<notin> set ts'" for ts' p'
      using that k split_once_Some by (metis option.inject prod.inject)
    have "validate_keystamp sha1 now fid (Some k) c \<longleftrightarrow> (\<exists>t. parse_i64 ts = Some t
       \<and> \<bar>server_time now c - t\<bar> < 900 \<and> length p = 10
       \<and> to_lowercase p = take 10 (sha1_string sha1 (keystamp_plain t fid c)))"
      using dist [of ts, OF _ k(2)] k sha1_prefix_lowercase
      by (auto simp: validate_keystamp_def split_once_append eq_ignore_ascii_case_def split: option.splits)
    then show ?thesis using uniq k nonneg [of ts] by blast
  qed
qed

text \<open>
  A file request's keystamp is valid exactly when it consists of a time and ten characters
  joined by a dash, the time is less than 900 seconds away from the server's time, and the ten
  characters are, up to case, the first ten of the digest of time, file id and client key. The time
  cannot be negative, so the difference never overflows and no stamp outside the window passes.
\<close>

theorem keystamp_decision:
  assumes "0 \<le> server_time now c"
  shows "validate_keystamp sha1 now fid (Some k) c \<longleftrightarrow>
    (\<exists>ts t p. k = ts @ CHR ''-'' # p \<and> CHR ''-'' \<notin> set ts \<and> parse_i64 ts = Some t \<and> 0 \<le> t
       \<and> \<bar>server_time now c - t\<bar> < 900 \<and> length p = 10
       \<and> to_lowercase p = take 10 (sha1_string sha1 (keystamp_plain t fid c)))"
  using assms by (rule keystamp_iff)

theorem keystamp_decision_witness:
  "validate_keystamp sample_digest 1000 sample_id
     (Some (''101'' @ CHR ''-'' # take 10 (sha1_string sample_digest (keystamp_plain 101 sample_id sample_config)))) sample_config
   \<and> \<not> validate_keystamp sample_digest 1000 sample_id (Some ''100-0123456789'') sample_config"
proof -
  have t: "server_time 1000 sample_config = 1000"
    by (simp add: server_time_def sample_config_def config_defaults_def is_i64_def)
  have p: "parse_i64 ''101'' = Some 101" "parse_i64 ''100'' = Some 100"
    by (simp_all add: parse_i64_def parse_eval)
  have l: "length (sha1_string sample_digest x) = 40" for x by (simp add: sha1_string_def sample_digest_def)
  have "validate_keystamp sample_digest 1000 sample_id
     (Some (''101'' @ CHR ''-'' # take 10 (sha1_string sample_digest (keystamp_plain 101 sample_id sample_config)))) sample_config"
    unfolding keystamp_decision [of 1000 sample_config, unfolded t, simplified]
    by (intro exI [of _ "''101''"] exI [of _ 101] exI) (auto simp: p l sha1_prefix_lowercase)
  moreover have "split_once CHR ''-'' ''100-0123456789'' = Some (''100'', ''0123456789'')"
    by (simp add: split_once_def)
  then have "\<not> validate_keystamp sample_digest 1000 sample_id (Some ''100-0123456789'') sample_config"
    by (simp add: validate_keystamp_def p t i64_abs_def is_i64_def)
  ultimately show ?thesis by simp
qed

text \<open>
  The freshness test of server commands is not the test it is meant to be at one point: a
  correctly signed command whose time lies \<open>2 ^ 63\<close> seconds before the server's time has a difference
  of \<^verbatim>\<open>i64::MIN\<close>, whose absolute value wraps to a negative number, and is accepted.
\<close>

theorem servercmd_min_distance:
  assumes "0 \<le> server_time now c"
  shows "is_i64 (server_time now c - 2 ^ 63) \<and>
    validate_servercmd sha1 now cmd add (server_time now c - 2 ^ 63)
      (sha1_string sha1 (servercmd_plain cmd add (server_time now c - 2 ^ 63) c)) c"
proof -
  have "i64_wrap (- (2 ^ 63)) = - (2 ^ 63)" by (simp add: is_i64_def)
  then have "\<not> 300 < i64_abs (i64_wrap (server_time now c - 2 ^ 63 - server_time now c))"
    using i64_abs_min by simp
  moreover have "is_i64 (server_time now c)" by (simp add: server_time_def)
  ultimately show ?thesis using assms by (auto simp: validate_servercmd_def is_i64_def)
qed

theorem servercmd_min_distance_witness:
  "is_i64 (1000 - 2 ^ 63) \<and> validate_servercmd sample_digest 1000 ''refresh_certs'' [] (1000 - 2 ^ 63)
      (sha1_string sample_digest (servercmd_plain ''refresh_certs'' [] (1000 - 2 ^ 63) sample_config)) sample_config"
proof -
  have t: "server_time 1000 sample_config = 1000"
    by (simp add: server_time_def sample_config_def config_defaults_def is_i64_def)
  show ?thesis using servercmd_min_distance [of 1000 sample_config, unfolded t] by simp
qed

end
