(* ===== verification/Hath_Metadata.thy ===== *)
theory Hath_Metadata
  imports Hath_Config
begin

text \<open>
  Gallery metadata, \<^verbatim>\<open>src/src/gallery_downloader.rs\<close>: the line-oriented document the queue server
  sends, the tests that keep its file names inside the gallery's directory, and the choice of that
  directory. A panic of the parser is the value \<open>None\<close>.
\<close>

definition MAX_GALLERY_FILES :: nat where
  "MAX_GALLERY_FILES = 10000"

record GalleryFile =
  gf_page :: u32
  gf_fileindex :: u32
  gf_xres :: string
  gf_expected_sha1 :: "Sha1Hash option"
  gf_filetype :: string
  gf_filename :: string

record GalleryMetadata =
  gm_gid :: u32
  gm_minxres :: string
  gm_title :: string
  gm_information :: string
  gm_files :: "GalleryFile list"

subsection \<open>Fields\<close>

definition parse_positive :: "string \<Rightarrow> string \<Rightarrow> u32 res" where
  "parse_positive value field =
     (case parse_word value of
        Some v \<Rightarrow> if 0 < v then Inr v else Inl (Parse (''invalid '' @ field))
      | None \<Rightarrow> Inl (Parse (''invalid '' @ field)))"

definition valid_xres :: "string \<Rightarrow> bool" where
  "valid_xres value \<longleftrightarrow> value = ''org'' \<or> (value \<noteq> [] \<and> list_all is_ascii_digit value)"

text \<open>\<^verbatim>\<open>str::split_whitespace\<close>.\<close>

definition split_whitespace :: "string \<Rightarrow> string list" where
  "split_whitespace s =
     filter (\<lambda>p. p \<noteq> []) (split_on CHR '' '' (map (\<lambda>ch. if is_whitespace ch then CHR '' '' else ch) s))"

definition sanitize_title :: "string \<Rightarrow> string" where
  "sanitize_title value =
     join_with '' '' (split_whitespace (filter
       (\<lambda>ch. ch \<notin> {CHR ''*'', CHR 0x22, CHR 0x5C, CHR ''/'', CHR ''<'', CHR ''>'', CHR '':'', CHR ''|'', CHR ''?''}) value))"

definition reserved_names :: "string list" where
  "reserved_names = [''CON'', ''PRN'', ''AUX'', ''NUL'',
     ''COM1'', ''COM2'', ''COM3'', ''COM4'', ''COM5'', ''COM6'', ''COM7'', ''COM8'', ''COM9'',
     ''LPT1'', ''LPT2'', ''LPT3'', ''LPT4'', ''LPT5'', ''LPT6'', ''LPT7'', ''LPT8'', ''LPT9'']"

definition safe_file_component :: "string \<Rightarrow> bool" where
  "safe_file_component value \<longleftrightarrow>
     \<not> (value = [] \<or> value = ''.'' \<or> value = ''..'' \<or> last value \<in> {CHR ''.'', CHR '' ''}
        \<or> list_ex (\<lambda>ch. ch \<in> {CHR ''/'', CHR 0x5C, CHR '':'', CHR 0x00}) value)
     \<and> to_uppercase (hd (split_on CHR ''.'' value)) \<notin> set reserved_names"

definition safe_filetype :: "string \<Rightarrow> bool" where
  "safe_filetype value \<longleftrightarrow> value \<noteq> [] \<and> length value \<le> 16 \<and> list_all is_ascii_alphanumeric value"

text \<open>The first \<open>n\<close> fields of a line; each is followed by white space.\<close>

fun take_fields :: "nat \<Rightarrow> string \<Rightarrow> (string list \<times> string) option" where
  "take_fields 0 rest = Some ([], rest)"
| "take_fields (Suc n) rest0 =
     (let rest = trim_start rest0;
          field = takeWhile (\<lambda>ch. \<not> is_whitespace ch) rest;
          after = dropWhile (\<lambda>ch. \<not> is_whitespace ch) rest
      in if after = [] then None
         else (case take_fields n after of None \<Rightarrow> None | Some (fs, r) \<Rightarrow> Some (field # fs, r)))"

definition parse_file_line :: "string \<Rightarrow> GalleryFile res" where
  "parse_file_line line =
     (case take_fields 5 line of
        Some ([f0, f1, f2, f3, f4], rest) \<Rightarrow>
          (let filename = trim_start rest in
           case parse_positive f0 ''page'' of
             Inl e \<Rightarrow> Inl e
           | Inr page \<Rightarrow>
               (case parse_positive f1 ''fileindex'' of
                  Inl e \<Rightarrow> Inl e
                | Inr fileindex \<Rightarrow>
                    if \<not> valid_xres f2 \<or> \<not> safe_file_component filename \<or> \<not> safe_filetype f4
                    then Inl (Parse ''unsafe gallery file entry'')
                    else
                      (case (if f3 = ''unknown'' then Inr None
                             else (case Sha1Hash_new f3 of
                                     Some h \<Rightarrow> Inr (Some h)
                                   | None \<Rightarrow> Inl (Parse ''invalid gallery SHA-1''))) of
                         Inl e \<Rightarrow> Inl e
                       | Inr sha \<Rightarrow>
                           Inr \<lparr>gf_page = page, gf_fileindex = fileindex, gf_xres = f2, gf_expected_sha1 = sha,
                                gf_filetype = f4, gf_filename = filename\<rparr>)))
      | _ \<Rightarrow> Inl (Parse ''truncated gallery file entry''))"

subsection \<open>The document\<close>

datatype meta_phase = Header | FileList | Information

record meta_state =
  ms_state :: meta_phase
  ms_gid :: "u32 option"
  ms_filecount :: "nat option"
  ms_minxres :: "string option"
  ms_title :: "string option"
  ms_files :: "GalleryFile option list"
  ms_filenames :: "string list"
  ms_information :: string

definition meta_init :: meta_state where
  "meta_init = \<lparr>ms_state = Header, ms_gid = None, ms_filecount = None, ms_minxres = None, ms_title = None,
     ms_files = [], ms_filenames = [], ms_information = []\<rparr>"

definition render_name :: "GalleryFile \<Rightarrow> string" where
  "render_name f = gf_filename f @ ''.'' @ gf_filetype f"

definition header_line :: "string \<Rightarrow> meta_state \<Rightarrow> meta_state res" where
  "header_line line s =
     (if line = [] then Inr s
      else if line = ''FILELIST'' then
        (case ms_filecount s of
           None \<Rightarrow> Inl (Parse ''FILELIST before FILECOUNT'')
         | Some count \<Rightarrow> Inr (s\<lparr>ms_files := replicate count None, ms_state := FileList\<rparr>))
      else case split_once CHR '' '' line of
          None \<Rightarrow> Inl (Parse ''invalid gallery header line'')
        | Some (key, value) \<Rightarrow>
            if key = ''GID'' \<and> ms_gid s = None then
              (case parse_positive value ''gid'' of Inl e \<Rightarrow> Inl e | Inr v \<Rightarrow> Inr (s\<lparr>ms_gid := Some v\<rparr>))
            else if key = ''FILECOUNT'' \<and> ms_filecount s = None then
              (case parse_positive value ''filecount'' of
                 Inl e \<Rightarrow> Inl e
               | Inr v \<Rightarrow> if MAX_GALLERY_FILES < unat v then Inl (Parse ''gallery filecount exceeds limit'')
                          else Inr (s\<lparr>ms_filecount := Some (unat v)\<rparr>))
            else if key = ''MINXRES'' \<and> ms_minxres s = None \<and> valid_xres value
            then Inr (s\<lparr>ms_minxres := Some value\<rparr>)
            else if key = ''TITLE'' \<and> ms_title s = None then Inr (s\<lparr>ms_title := Some (sanitize_title value)\<rparr>)
            else Inl (Parse (''invalid gallery header key: '' @ key)))"

definition file_line :: "string \<Rightarrow> meta_state \<Rightarrow> meta_state res option" where
  "file_line line s =
     (if line = [] then Some (Inr s)
      else if line = ''INFORMATION'' then Some (Inr (s\<lparr>ms_state := Information\<rparr>))
      else case parse_file_line line of
          Inl e \<Rightarrow> Some (Inl e)
        | Inr entry \<Rightarrow>
            (case ms_filecount s of
               None \<Rightarrow> None
             | Some count \<Rightarrow>
                 if gf_page entry = 0 \<or> count < unat (gf_page entry)
                 then Some (Inl (Parse ''gallery page is out of range''))
                 else if render_name entry \<in> set (ms_filenames s)
                 then Some (Inl (Parse ''gallery contains duplicate output filename''))
                 else
                   let s1 = s\<lparr>ms_filenames := render_name entry # ms_filenames s\<rparr>;
                       slot = unat (gf_page entry) - 1
                   in if length (ms_files s1) \<le> slot then None
                      else if ms_files s1 ! slot \<noteq> None then Some (Inl (Parse ''gallery contains duplicate page''))
                      else Some (Inr (s1\<lparr>ms_files := (ms_files s1)[slot := Some entry]\<rparr>))))"

definition meta_line :: "meta_state \<Rightarrow> string \<Rightarrow> meta_state res option" where
  "meta_line s line =
     (case ms_state s of
        Header \<Rightarrow> Some (header_line line s)
      | FileList \<Rightarrow> file_line line s
      | Information \<Rightarrow> Some (Inr (s\<lparr>ms_information := ms_information s @ line @ [LF]\<rparr>)))"

fun meta_lines :: "meta_state \<Rightarrow> string list \<Rightarrow> meta_state res option" where
  "meta_lines s [] = Some (Inr s)"
| "meta_lines s (l # ls) =
     (case meta_line s l of
        None \<Rightarrow> None
      | Some (Inl e) \<Rightarrow> Some (Inl e)
      | Some (Inr s') \<Rightarrow> meta_lines s' ls)"

definition meta_finish :: "meta_state \<Rightarrow> GalleryMetadata res" where
  "meta_finish s =
     (case ms_gid s of
        None \<Rightarrow> Inl (Parse ''gallery has no gid'')
      | Some gid \<Rightarrow>
     (case ms_minxres s of
        None \<Rightarrow> Inl (Parse ''gallery has no minxres'')
      | Some minxres \<Rightarrow>
     (case ms_title s of
        None \<Rightarrow> Inl (Parse ''gallery has no title'')
      | Some title \<Rightarrow>
     (case ms_filecount s of
        None \<Rightarrow> Inl (Parse ''gallery has no filecount'')
      | Some filecount \<Rightarrow>
          if ms_state s \<noteq> Information then Inl (Parse ''gallery has no INFORMATION section'')
          else if length (ms_files s) \<noteq> filecount \<or> None \<in> set (ms_files s)
          then Inl (Parse ''gallery file list is incomplete'')
          else Inr \<lparr>gm_gid = gid, gm_minxres = minxres, gm_title = title, gm_information = ms_information s,
                    gm_files = map the (ms_files s)\<rparr>))))"

definition parse_gallery_metadata :: "string \<Rightarrow> GalleryMetadata res option" where
  "parse_gallery_metadata raw =
     (case meta_lines meta_init (lines raw) of
        None \<Rightarrow> None
      | Some (Inl e) \<Rightarrow> Some (Inl e)
      | Some (Inr s) \<Rightarrow> Some (meta_finish s))"

subsection \<open>The directory\<close>

text \<open>\<^verbatim>\<open>Path::join\<close>: an absolute path replaces the base.\<close>

definition path_join :: "path \<Rightarrow> string \<Rightarrow> path" where
  "path_join d s = (if starts_with ''/'' s then path_from s else d @ path_from s)"

definition gallery_suffix :: "GalleryMetadata \<Rightarrow> string" where
  "gallery_suffix m =
     (if gm_minxres m = ''org'' then '' ['' @ show_word (gm_gid m) @ '']''
      else '' ['' @ show_word (gm_gid m) @ ''-'' @ gm_minxres m @ ''x]'')"

definition gallery_title :: "Config \<Rightarrow> GalleryMetadata \<Rightarrow> string" where
  "gallery_title c m =
     (let n = unat (cfg_max_filename_length c);
          suffix = gallery_suffix m
      in if n < length (gm_title m) + length suffix
         then take (n - (length suffix + 3)) (gm_title m) @ ''...''
         else gm_title m)"

definition gallery_dirs :: "Config \<Rightarrow> GalleryMetadata \<Rightarrow> path list" where
  "gallery_dirs c m =
     [path_join (cfg_download_dir c) (gallery_title c m @ gallery_suffix m),
      path_join (cfg_download_dir c)
        (if gm_minxres m = ''org'' then show_word (gm_gid m) else show_word (gm_gid m) @ ''-'' @ gm_minxres m @ ''x'')]"

fun first_dir :: "os \<Rightarrow> path \<Rightarrow> fs \<Rightarrow> path list \<Rightarrow> path res \<times> fs" where
  "first_dir os base f [] = (Inl (Io ''could not create gallery directory''), f)"
| "first_dir os base f (p # ps) =
     (if parent p \<noteq> base then first_dir os base f ps
      else case mkdirs os f (prefixes p) of
          (None, f1) \<Rightarrow> if is_dir f1 p then (Inr p, f1) else first_dir os base f1 ps
        | (Some _, f1) \<Rightarrow> first_dir os base f1 ps)"

definition create_gallery_dir :: "os \<Rightarrow> fs \<Rightarrow> Config \<Rightarrow> GalleryMetadata \<Rightarrow> path res \<times> fs" where
  "create_gallery_dir os f c m = first_dir os (cfg_download_dir c) f (gallery_dirs c m)"

definition has_low_space :: "os \<Rightarrow> Config \<Rightarrow> bool" where
  "has_low_space os c =
     (if cfg_skip_free_space_check c then False
      else let minimum = saturating_add (cfg_diskremaining_bytes c) 1048576000
           in case os_free_space os (cfg_download_dir c) of
                Some space \<Rightarrow> space < minimum
              | None \<Rightarrow> True)"

text \<open>The name under which a file is written until it is verified.\<close>

definition part_path :: "path \<Rightarrow> path" where
  "part_path target = butlast target @ [''.'' @ file_name target @ ''.part'']"

subsection \<open>File lines\<close>

definition file_ok :: "GalleryFile \<Rightarrow> bool" where
  "file_ok f \<longleftrightarrow> safe_file_component (gf_filename f) \<and> safe_filetype (gf_filetype f) \<and> valid_xres (gf_xres f)
     \<and> 0 < gf_page f \<and> 0 < gf_fileindex f \<and> (case gf_expected_sha1 f of None \<Rightarrow> True | Some h \<Rightarrow> sha1_wf h)"

lemma parse_positive_pos: "parse_positive v x = Inr n \<Longrightarrow> 0 < n"
  by (auto simp: parse_positive_def split: option.splits if_splits)

lemma parse_file_line_ok:
  assumes "parse_file_line line = Inr f"
  shows "file_ok f"
proof -
  obtain f0 f1 f2 f3 f4 rest where t: "take_fields 5 line = Some ([f0, f1, f2, f3, f4], rest)"
    using assms by (auto simp: parse_file_line_def split: option.splits list.splits)
  then show ?thesis using assms
    by (auto simp: parse_file_line_def file_ok_def Let_def parse_positive_pos Sha1Hash_new_wf
        split: sum.splits if_splits option.splits)
qed

text \<open>A rendered name is one component of a path, other than the two special ones.\<close>

definition plain_component :: "string \<Rightarrow> bool" where
  "plain_component s \<longleftrightarrow> s \<noteq> [] \<and> s \<noteq> ''.'' \<and> s \<noteq> ''..'' \<and> CHR ''/'' \<notin> set s \<and> CHR 0x5C \<notin> set s
     \<and> CHR '':'' \<notin> set s \<and> CHR 0x00 \<notin> set s"

lemma alphanumeric_plain:
  "is_ascii_alphanumeric ch \<Longrightarrow> ch \<notin> {CHR ''/'', CHR 0x5C, CHR '':'', CHR 0x00, CHR ''.''}"
  by (auto simp: char_class_defs char_code_def)

lemma render_name_plain:
  assumes "file_ok f"
  shows "plain_component (render_name f)"
proof -
  have ft: "gf_filetype f \<noteq> []" "\<forall>ch \<in> set (gf_filetype f). is_ascii_alphanumeric ch"
    using assms by (auto simp: file_ok_def safe_filetype_def list_all_iff)
  have fn: "gf_filename f \<noteq> []" "\<forall>ch \<in> {CHR ''/'', CHR 0x5C, CHR '':'', CHR 0x00}. ch \<notin> set (gf_filename f)"
    using assms by (auto simp: file_ok_def safe_file_component_def list_ex_iff)
  have no: "ch \<notin> set (gf_filetype f)" if "ch \<in> {CHR ''/'', CHR 0x5C, CHR '':'', CHR 0x00, CHR ''.''}" for ch
    using ft(2) alphanumeric_plain that by blast
  have "last (gf_filetype f) \<noteq> CHR ''.''"
  proof
    assume "last (gf_filetype f) = CHR ''.''"
    then have "CHR ''.'' \<in> set (gf_filetype f)" using last_in_set [OF ft(1)] by (rule subst)
    then show False using no [of "CHR ''.''"] by simp
  qed
  then have "last (render_name f) \<noteq> CHR ''.''" using ft(1) by (simp add: render_name_def)
  then have "render_name f \<noteq> ''.''" "render_name f \<noteq> ''..''" by auto
  moreover have "ch \<notin> set (render_name f)" if "ch \<in> {CHR ''/'', CHR 0x5C, CHR '':'', CHR 0x00}" for ch
    using that fn(2) no [of ch] by (auto simp: render_name_def)
  moreover have "render_name f \<noteq> []" by (simp add: render_name_def)
  ultimately show ?thesis unfolding plain_component_def by simp
qed

lemma split_whitespace_chars:
  assumes "p \<in> set (split_whitespace s)" "ch \<in> set p" "ch \<noteq> CHR '' ''"
  shows "ch \<in> set s"
proof -
  let ?t = "map (\<lambda>ch. if is_whitespace ch then CHR '' '' else ch) s"
  have mem: "\<And>q. q \<in> set (split_on d t) \<Longrightarrow> set q \<subseteq> set t" for d t
    by (induction t) (fastforce split: if_splits list.splits)+
  have "ch \<in> set ?t" using assms(1,2) mem [of p "CHR '' ''" ?t] by (auto simp: split_whitespace_def)
  then show ?thesis using assms(3) by (auto split: if_splits)
qed

lemma join_with_chars: "ch \<in> set (join_with sep xs) \<Longrightarrow> ch \<in> set sep \<or> (\<exists>x \<in> set xs. ch \<in> set x)"
  by (induction sep xs rule: join_with.induct) auto

lemma sanitize_title_chars:
  "ch \<in> {CHR ''*'', CHR 0x22, CHR 0x5C, CHR ''/'', CHR ''<'', CHR ''>'', CHR '':'', CHR ''|'', CHR ''?''} \<Longrightarrow>
   ch \<notin> set (sanitize_title v)"
  unfolding sanitize_title_def by (auto dest!: join_with_chars split_whitespace_chars)

subsection \<open>The parser keeps its books\<close>

definition files_ok :: "meta_state \<Rightarrow> bool" where
  "files_ok s \<longleftrightarrow>
     (\<forall>i < length (ms_files s). \<forall>f. ms_files s ! i = Some f \<longrightarrow>
        unat (gf_page f) = Suc i \<and> file_ok f \<and> render_name f \<in> set (ms_filenames s))
     \<and> (\<forall>i < length (ms_files s). \<forall>j < length (ms_files s). \<forall>f g. ms_files s ! i = Some f \<longrightarrow> ms_files s ! j = Some g
          \<longrightarrow> render_name f = render_name g \<longrightarrow> i = j)"

definition meta_inv :: "meta_state \<Rightarrow> bool" where
  "meta_inv s \<longleftrightarrow>
     (\<forall>n. ms_filecount s = Some n \<longrightarrow> 0 < n \<and> n \<le> MAX_GALLERY_FILES)
     \<and> (if ms_state s = Header then ms_files s = [] else ms_filecount s = Some (length (ms_files s)))
     \<and> (\<forall>g. ms_gid s = Some g \<longrightarrow> 0 < g)
     \<and> (\<forall>x. ms_minxres s = Some x \<longrightarrow> valid_xres x)
     \<and> (\<forall>t. ms_title s = Some t \<longrightarrow> CHR ''/'' \<notin> set t)
     \<and> files_ok s"

lemma files_ok_insert:
  assumes "files_ok s" "file_ok f" "render_name f \<notin> set (ms_filenames s)" "unat (gf_page f) = Suc k"
  shows "files_ok (s\<lparr>ms_filenames := render_name f # ms_filenames s, ms_files := (ms_files s)[k := Some f]\<rparr>)"
proof -
  let ?new = "(ms_files s)[k := Some f]"
  have old: "unat (gf_page g) = Suc i \<and> file_ok g \<and> render_name g \<in> set (ms_filenames s)"
    if "i < length (ms_files s)" "ms_files s ! i = Some g" for i g
    using assms(1) that unfolding files_ok_def by blast
  have uniq: "i = j" if "i < length (ms_files s)" "j < length (ms_files s)" "ms_files s ! i = Some g"
      "ms_files s ! j = Some h" "render_name g = render_name h" for i j g h
    using assms(1) that unfolding files_ok_def by blast
  have nth: "?new ! i = (if i = k then Some f else ms_files s ! i)" if "i < length (ms_files s)" for i
    using that by (simp add: nth_list_update)
  have "i = j" if "i < length (ms_files s)" "j < length (ms_files s)" "?new ! i = Some g" "?new ! j = Some h"
      "render_name g = render_name h" for i j g h
  proof (cases "i = k"; cases "j = k")
    assume "i = k" "j \<noteq> k"
    then have "ms_files s ! j = Some h" "g = f" using that nth by auto
    then show "i = j" using old [OF that(2)] assms(3) that(5) by simp
  next
    assume "i \<noteq> k" "j = k"
    then have "ms_files s ! i = Some g" "h = f" using that nth by auto
    then show "i = j" using old [OF that(1)] assms(3) that(5) by simp
  next
    assume "i \<noteq> k" "j \<noteq> k"
    then have "ms_files s ! i = Some g" "ms_files s ! j = Some h" using that nth by auto
    then show "i = j" by (rule uniq [OF that(1,2) _ _ that(5)])
  qed simp
  moreover have "unat (gf_page g) = Suc i \<and> file_ok g \<and> render_name g \<in> insert (render_name f) (set (ms_filenames s))"
    if "i < length (ms_files s)" "?new ! i = Some g" for i g
    using that nth [of i] old [of i g] assms(2,4) by (auto split: if_splits)
  ultimately show ?thesis unfolding files_ok_def by simp
qed

lemma header_line_inv:
  assumes "meta_inv s" "ms_state s = Header" "header_line line s = Inr s'"
  shows "meta_inv s'"
proof -
  have "files_ok s'" if "ms_files s = []"
    using assms(3) that by (auto simp: header_line_def files_ok_def split: if_splits option.splits sum.splits)
  then show ?thesis using assms
    by (auto simp: header_line_def meta_inv_def parse_positive_pos sanitize_title_chars word_less_nat_alt
        dest!: parse_positive_pos split: if_splits option.splits sum.splits)
qed

lemma file_line_inv:
  assumes "meta_inv s" "ms_state s = FileList"
  shows "\<exists>r. file_line line s = Some r \<and> (\<forall>s'. r = Inr s' \<longrightarrow> meta_inv s')"
proof -
  have fc: "ms_filecount s = Some (length (ms_files s))" and fo: "files_ok s" using assms by (auto simp: meta_inv_def)
  consider "line = []" | "line = ''INFORMATION''" | e where "line \<noteq> []" "line \<noteq> ''INFORMATION''" "parse_file_line line = Inl e"
    | f where "line \<noteq> []" "line \<noteq> ''INFORMATION''" "parse_file_line line = Inr f"
    by (cases "parse_file_line line") auto
  then show ?thesis
  proof cases
    case (4 f)
    have ok: "file_ok f" using parse_file_line_ok 4(3) .
    show ?thesis
    proof (cases "gf_page f = 0 \<or> length (ms_files s) < unat (gf_page f) \<or> render_name f \<in> set (ms_filenames s)")
      case True
      then show ?thesis using 4 fc by (auto simp: file_line_def)
    next
      case False
      have p: "unat (gf_page f) = Suc (unat (gf_page f) - 1)"
        using False unat_eq_zero [of "gf_page f"] by auto
      have "files_ok (s\<lparr>ms_filenames := render_name f # ms_filenames s, ms_files := (ms_files s)[unat (gf_page f) - 1 := Some f]\<rparr>)"
        using files_ok_insert [OF fo ok _ p] False by simp
      then have "meta_inv (s\<lparr>ms_filenames := render_name f # ms_filenames s, ms_files := (ms_files s)[unat (gf_page f) - 1 := Some f]\<rparr>)"
        using assms fc by (simp add: meta_inv_def)
      moreover have "unat (gf_page f) - 1 < length (ms_files s)" using p False by linarith
      ultimately show ?thesis using False 4 fc by (auto simp: file_line_def Let_def)
    qed
  qed (use assms in \<open>auto simp: file_line_def meta_inv_def files_ok_def\<close>)
qed

text \<open>The parser as a machine on results: an error stays.\<close>

definition meta_step :: "meta_state res \<Rightarrow> string \<Rightarrow> meta_state res option" where
  "meta_step r line = (case r of Inl e \<Rightarrow> Some (Inl e) | Inr s \<Rightarrow> meta_line s line)"

definition meta_res_inv :: "meta_state res \<Rightarrow> bool" where
  "meta_res_inv r = (case r of Inl _ \<Rightarrow> True | Inr s \<Rightarrow> meta_inv s)"

interpretation meta: panic_free_machine meta_step meta_res_inv
proof
  fix r line
  assume "meta_res_inv r"
  then show "\<exists>r'. meta_step r line = Some r' \<and> meta_res_inv r'"
  proof (cases r)
    case (Inr s)
    then have inv: "meta_inv s" using \<open>meta_res_inv r\<close> by (simp add: meta_res_inv_def)
    show ?thesis
    proof (cases "ms_state s")
      case Header
      then show ?thesis using Inr header_line_inv [OF inv Header]
        by (auto simp: meta_step_def meta_line_def meta_res_inv_def split: sum.splits)
    next
      case FileList
      then show ?thesis using Inr file_line_inv [OF inv FileList, of line]
        by (auto simp: meta_step_def meta_line_def meta_res_inv_def split: sum.splits)
    next
      case Information
      then show ?thesis using Inr inv by (simp add: meta_step_def meta_line_def meta_res_inv_def meta_inv_def files_ok_def)
    qed
  qed (simp add: meta_step_def meta_res_inv_def)
qed

lemma meta_error_stays: "run_opt meta_step (Inl e) ls = Some (Inl e)"
  by (induction ls) (simp_all add: meta_step_def)

lemma meta_lines_run: "meta_lines s ls = run_opt meta_step (Inr s) ls"
  by (induction ls arbitrary: s) (auto simp: meta_step_def meta_error_stays split: option.splits sum.splits)

lemma meta_lines_inv: "\<exists>r. meta_lines meta_init ls = Some r \<and> meta_res_inv r"
  unfolding meta_lines_run
  by (rule meta.run_some) (simp add: meta_res_inv_def meta_inv_def meta_init_def files_ok_def)

subsection \<open>The directory stays inside\<close>

lemma path_from_single:
  assumes "CHR ''/'' \<notin> set s" "s \<noteq> []" "s \<noteq> ''.''"
  shows "path_from s = [s]"
proof -
  have "\<not> starts_with ''/'' s" using assms(1,2) by (cases s) (auto simp: starts_with_def)
  then show ?thesis using assms by (simp add: path_from_def)
qed

lemma path_join_single:
  assumes "CHR ''/'' \<notin> set s" "s \<noteq> []" "s \<noteq> ''.''"
  shows "path_join d s = d @ [s]"
proof -
  have "\<not> starts_with ''/'' s" using assms(1,2) by (cases s) (auto simp: starts_with_def)
  then show ?thesis using path_from_single [OF assms] by (simp add: path_join_def)
qed

lemma valid_xres_no_slash: "valid_xres x \<Longrightarrow> CHR ''/'' \<notin> set x"
  by (auto simp: valid_xres_def list_all_iff char_class_defs char_code_def)

definition metadata_ok :: "GalleryMetadata \<Rightarrow> bool" where
  "metadata_ok m \<longleftrightarrow> 0 < gm_gid m \<and> valid_xres (gm_minxres m) \<and> CHR ''/'' \<notin> set (gm_title m)
     \<and> gm_files m \<noteq> [] \<and> length (gm_files m) \<le> MAX_GALLERY_FILES
     \<and> map (\<lambda>f. unat (gf_page f)) (gm_files m) = [1..<Suc (length (gm_files m))]
     \<and> distinct (map render_name (gm_files m)) \<and> list_all file_ok (gm_files m)"

lemma slash_not_digit: "\<not> is_ascii_digit CHR ''/''"
  by (simp add: char_class_defs char_code_def)

lemma gallery_suffix_plain:
  assumes "valid_xres (gm_minxres m)"
  shows "CHR ''/'' \<notin> set (gallery_suffix m)" "last (gallery_suffix m) = CHR '']''" "gallery_suffix m \<noteq> []"
  using assms valid_xres_no_slash show_nat_no_char [OF slash_not_digit]
  by (auto simp: gallery_suffix_def)

definition fallback_name :: "GalleryMetadata \<Rightarrow> string" where
  "fallback_name m = (if gm_minxres m = ''org'' then show_word (gm_gid m) else show_word (gm_gid m) @ ''-'' @ gm_minxres m @ ''x'')"

lemma fallback_plain:
  assumes "valid_xres (gm_minxres m)"
  shows "CHR ''/'' \<notin> set (fallback_name m)" "fallback_name m \<noteq> []" "hd (fallback_name m) \<noteq> CHR ''.''"
proof -
  have "hd (show_word (gm_gid m)) \<noteq> CHR ''.''" using show_nat_hd [of "unat (gm_gid m)"]
    by (auto simp: char_class_defs char_code_def)
  then show "hd (fallback_name m) \<noteq> CHR ''.''" by (simp add: fallback_name_def)
qed (use assms valid_xres_no_slash show_nat_no_char [OF slash_not_digit] in \<open>auto simp: fallback_name_def\<close>)

lemma gallery_dirs_single:
  assumes "metadata_ok m"
  shows "gallery_dirs c m = [cfg_download_dir c @ [gallery_title c m @ gallery_suffix m], cfg_download_dir c @ [fallback_name m]]"
proof -
  have x: "valid_xres (gm_minxres m)" using assms by (simp add: metadata_ok_def)
  note suf = gallery_suffix_plain [OF x] and fb = fallback_plain [OF x]
  have "CHR ''/'' \<notin> set (gallery_title c m)"
    using assms by (auto simp: gallery_title_def Let_def metadata_ok_def dest: in_set_takeD)
  moreover have "gallery_title c m @ gallery_suffix m \<noteq> ''.''"
  proof
    assume "gallery_title c m @ gallery_suffix m = ''.''"
    then have "last (gallery_title c m @ gallery_suffix m) = CHR ''.''" by simp
    then show False using suf(2,3) by simp
  qed
  moreover have "fallback_name m \<noteq> ''.''" using fb(3) by auto
  ultimately show ?thesis
    unfolding gallery_dirs_def fallback_name_def [symmetric] using suf fb by (simp add: path_join_single)
qed

lemma first_dir_mem: "first_dir os base f ps = (Inr p, f') \<Longrightarrow> p \<in> set ps \<and> is_dir f' p"
  by (induction os base f ps rule: first_dir.induct) (auto split: if_splits prod.splits option.splits)

lemma finished_metadata_ok:
  assumes "meta_inv s" "meta_finish s = Inr m"
  shows "metadata_ok m"
proof -
  have st: "ms_state s = Information" and len: "ms_filecount s = Some (length (ms_files s))"
    and none: "None \<notin> set (ms_files s)" and fo: "files_ok s"
    using assms by (auto simp: meta_finish_def meta_inv_def split: option.splits if_splits)
  have m: "gm_files m = map the (ms_files s)" "ms_gid s = Some (gm_gid m)" "ms_minxres s = Some (gm_minxres m)"
      "ms_title s = Some (gm_title m)"
    using assms(2) by (auto simp: meta_finish_def split: option.splits if_splits)
  have some: "ms_files s ! i = Some (the (ms_files s ! i))" if "i < length (ms_files s)" for i
    using none that nth_mem [OF that] by (cases "ms_files s ! i") auto
  have each: "unat (gf_page (the (ms_files s ! i))) = Suc i \<and> file_ok (the (ms_files s ! i))"
    if "i < length (ms_files s)" for i
    using fo some [OF that] that unfolding files_ok_def by blast
  have "distinct (map render_name (gm_files m))"
    unfolding distinct_conv_nth m(1) using fo some unfolding files_ok_def by (simp add: nth_map) blast
  moreover have "map (\<lambda>f. unat (gf_page f)) (gm_files m) = [1..<Suc (length (gm_files m))]"
    by (rule nth_equalityI) (auto simp: m(1) each simp del: upt_Suc)
  moreover have "list_all file_ok (gm_files m)"
    unfolding list_all_length m(1) using each by simp
  ultimately show ?thesis using assms(1) len m st by (auto simp: metadata_ok_def meta_inv_def)
qed

lemma parsed_metadata_ok: "parse_gallery_metadata raw = Some (Inr m) \<Longrightarrow> metadata_ok m"
proof -
  assume a: "parse_gallery_metadata raw = Some (Inr m)"
  then obtain s where s: "meta_lines meta_init (lines raw) = Some (Inr s)" "meta_finish s = Inr m"
    by (auto simp: parse_gallery_metadata_def split: sum.splits option.splits)
  then have "meta_inv s" using meta_lines_inv [of "lines raw"] by (simp add: meta_res_inv_def)
  then show ?thesis using s(2) by (rule finished_metadata_ok)
qed

subsection \<open>Properties\<close>

text \<open>
  The metadata parser never panics, whatever the server sends, and what it accepts is complete
  and safe: between 1 and 10000 files on the pages 1, 2, 3 and so on in this order, pairwise different
  output names, each of them a single path component without separators, drive or NUL characters that
  is not the current or the parent directory, and a title without a slash.
\<close>

theorem metadata_parser_safe:
  "\<exists>r. parse_gallery_metadata raw = Some r \<and>
     (\<forall>m. r = Inr m \<longrightarrow> metadata_ok m \<and> list_all (\<lambda>f. plain_component (render_name f)) (gm_files m))"
proof -
  obtain r where r: "meta_lines meta_init (lines raw) = Some r" using meta_lines_inv by blast
  then obtain r' where "parse_gallery_metadata raw = Some r'"
    by (cases r) (auto simp: parse_gallery_metadata_def)
  moreover have "metadata_ok m \<Longrightarrow> list_all (\<lambda>f. plain_component (render_name f)) (gm_files m)" for m
    using render_name_plain by (auto simp: metadata_ok_def list_all_iff)
  ultimately show ?thesis using parsed_metadata_ok by auto
qed

definition sample_doc_lines :: "string list" where
  "sample_doc_lines = [''GID 7'', ''FILECOUNT 2'', ''MINXRES org'', ''TITLE A/B  c'', ''FILELIST'',
     ''1 1 org unknown jpg foo'', ''2 2 org unknown part .foo.jpg'', ''INFORMATION'', ''x'']"

definition sample_doc :: string where
  "sample_doc = concat (map (\<lambda>l. l @ [LF]) sample_doc_lines)"

definition sample_metadata :: GalleryMetadata where
  "sample_metadata = \<lparr>gm_gid = 7, gm_minxres = ''org'', gm_title = ''AB c'', gm_information = ''x'' @ [LF],
     gm_files = [\<lparr>gf_page = 1, gf_fileindex = 1, gf_xres = ''org'', gf_expected_sha1 = None,
                   gf_filetype = ''jpg'', gf_filename = ''foo''\<rparr>,
                 \<lparr>gf_page = 2, gf_fileindex = 2, gf_xres = ''org'', gf_expected_sha1 = None,
                   gf_filetype = ''part'', gf_filename = ''.foo.jpg''\<rparr>]\<rparr>"

lemma sample_doc_read: "lines sample_doc = sample_doc_lines"
  unfolding sample_doc_def by (rule lines_of_terminated) (simp add: sample_doc_lines_def)

lemmas file_line_eval = parse_file_line_def trim_start_def parse_positive_def valid_xres_def
  safe_file_component_def reserved_names_def safe_filetype_def to_upper_def parse_eval

lemma sample_file_lines:
  "parse_file_line ''1 1 org unknown jpg foo'' = Inr (gm_files sample_metadata ! 0)"
  "parse_file_line ''2 2 org unknown part .foo.jpg'' = Inr (gm_files sample_metadata ! 1)"
proof -
  have five: "take_fields 5 = take_fields (Suc (Suc (Suc (Suc (Suc 0)))))" by (simp add: eval_nat_numeral)
  have "take_fields 5 ''1 1 org unknown jpg foo'' = Some ([''1'', ''1'', ''org'', ''unknown'', ''jpg''], '' foo'')"
    unfolding five by (simp add: trim_start_def char_eval)
  then show "parse_file_line ''1 1 org unknown jpg foo'' = Inr (gm_files sample_metadata ! 0)"
    by (simp add: file_line_eval sample_metadata_def)
  have "take_fields 5 ''2 2 org unknown part .foo.jpg'' = Some ([''2'', ''2'', ''org'', ''unknown'', ''part''], '' .foo.jpg'')"
    unfolding five by (simp add: trim_start_def char_eval)
  then show "parse_file_line ''2 2 org unknown part .foo.jpg'' = Inr (gm_files sample_metadata ! 1)"
    by (simp add: file_line_eval sample_metadata_def)
qed

lemma sample_metadata_parsed: "parse_gallery_metadata sample_doc = Some (Inr sample_metadata)"
proof -
  have t: "sanitize_title ''A/B  c'' = ''AB c''"
    by (simp add: sanitize_title_def split_whitespace_def char_eval)
  have r2: "replicate 2 None = [None, None]" by (simp add: numeral_2_eq_2)
  show ?thesis
    unfolding parse_gallery_metadata_def sample_doc_read sample_doc_lines_def
    by (simp add: meta_line_def header_line_def file_line_def meta_init_def meta_finish_def
        split_once_def parse_positive_def parse_eval valid_xres_def MAX_GALLERY_FILES_def t sample_file_lines
        sample_metadata_def render_name_def r2)
qed

theorem metadata_parser_safe_witness:
  "metadata_ok sample_metadata \<and> list_all (\<lambda>f. plain_component (render_name f)) (gm_files sample_metadata)"
  using metadata_parser_safe [of sample_doc] sample_metadata_parsed by simp


lemma sample_gallery_dir:
  "create_gallery_dir sample_os [] sample_config sample_metadata
     = (Inr [''download'', ''AB c [7]''], [([''download''], Dir), ([''download'', ''AB c [7]''], Dir)])"
proof -
  have t: "gallery_suffix sample_metadata = '' [7]''"
    by (simp add: gallery_suffix_def sample_metadata_def show_nat.simps)
  have n: "unat (cfg_max_filename_length sample_config) = 125" "cfg_download_dir sample_config = [''download'']"
    by (simp_all add: sample_config_def config_defaults_def sample_args_def path_from_def starts_with_def)
  have "gm_title sample_metadata = ''AB c''" by (simp add: sample_metadata_def)
  then have "gallery_title sample_config sample_metadata = ''AB c''" by (simp add: gallery_title_def t n)
  moreover have "fallback_name sample_metadata = ''7''"
    by (simp add: fallback_name_def sample_metadata_def show_nat.simps)
  ultimately have "gallery_dirs sample_config sample_metadata = [[''download'', ''AB c [7]''], [''download'', ''7'']]"
    using gallery_dirs_single [OF parsed_metadata_ok [OF sample_metadata_parsed]] by (simp add: n t)
  then show ?thesis
    by (simp add: create_gallery_dir_def n parent_def prefixes_def sample_os_def is_dir_def)
qed


text \<open>
  The temporary name of one file can be the name of another. The document accepted here has a page
  that is stored as \<^verbatim>\<open>.foo.jpg.part\<close>, which is also where the page \<^verbatim>\<open>foo.jpg\<close> is written before it is
  verified, so fetching the first page removes and replaces the second; the test for duplicate output
  names does not see it.
\<close>

theorem part_name_collision:
  "parse_gallery_metadata sample_doc = Some (Inr sample_metadata)
   \<and> part_path (path_join d (render_name (gm_files sample_metadata ! 0)))
     = path_join d (render_name (gm_files sample_metadata ! 1))"
proof -
  have "path_join d ''foo.jpg'' = d @ [''foo.jpg'']" "path_join d ''.foo.jpg.part'' = d @ [''.foo.jpg.part'']"
    by (rule path_join_single; simp)+
  then show ?thesis using sample_metadata_parsed
    by (simp add: sample_metadata_def render_name_def part_path_def file_name_def)
qed

end
