(* ===== verification/Hath_Bandwidth.thy ===== *)
theory Hath_Bandwidth
  imports Hath_Prelude
begin

text \<open>
  The bandwidth monitor, \<^verbatim>\<open>src/src/bandwidth.rs\<close>: fifty ticks of twenty milliseconds, each with the
  second it was last used in. One attempt is \<open>try_quota\<close>; \<open>wait_for_quota\<close> repeats it over the clock
  readings of the retries. The floating point expressions are written as the exact integer
  comparisons they decide: \<^verbatim>\<open>ceil(t / 50)\<close>, \<^verbatim>\<open>x > 1.1 b\<close> as \<open>10 x > 11 b\<close> and \<^verbatim>\<open>w > 5 b 1.05\<close> as
  \<open>100 w > 525 b\<close>; all quantities are below \<open>2 ^ 32\<close>, where doubles separate these cases.
\<close>

definition TIME_RESOLUTION :: nat where "TIME_RESOLUTION = 50"
definition WINDOW_LENGTH :: nat where "WINDOW_LENGTH = 5"
definition MILLIS_PER_TICK :: nat where "MILLIS_PER_TICK = 20"

record BandwidthMonitor =
  bytes_per_tick :: u32
  tick_bytes :: "u32 list"
  tick_seconds :: "u64 list"

definition BandwidthMonitor_new :: "u32 \<Rightarrow> BandwidthMonitor" where
  "BandwidthMonitor_new throttle =
     \<lparr>bytes_per_tick = of_nat ((unat throttle + 49) div 50),
      tick_bytes = replicate TIME_RESOLUTION 0, tick_seconds = replicate TIME_RESOLUTION 0\<rparr>"

text \<open>The three sums: this tick, the last window, the last second.\<close>

record tick_sums =
  bytes_this_tick :: u32
  bytes_last_window :: u32
  bytes_last_second :: u32

definition tick_counter :: "nat \<Rightarrow> nat \<Rightarrow> int" where
  "tick_counter current_tick offset = int current_tick - int TIME_RESOLUTION + 1 + int offset"

definition tick_index :: "nat \<Rightarrow> nat \<Rightarrow> nat" where
  "tick_index current_tick offset =
     (let t = tick_counter current_tick offset
      in if t < 0 then nat (int TIME_RESOLUTION + t) else nat t)"

definition valid_second :: "nat \<Rightarrow> u64 \<Rightarrow> nat \<Rightarrow> u64" where
  "valid_second current_tick epoch_seconds offset =
     (if tick_counter current_tick offset < 0 then epoch_seconds - 1 else epoch_seconds)"

definition add_tick :: "BandwidthMonitor \<Rightarrow> nat \<Rightarrow> u64 \<Rightarrow> tick_sums \<Rightarrow> nat \<Rightarrow> tick_sums" where
  "add_tick m current_tick epoch_seconds s offset =
     (let t = tick_counter current_tick offset; i = tick_index current_tick offset;
          b = tick_bytes m ! i in
      if tick_seconds m ! i = valid_second current_tick epoch_seconds offset then
        (if t = int current_tick then s\<lparr>bytes_this_tick := bytes_this_tick s + b\<rparr>
         else (let s1 = (if int current_tick - int WINDOW_LENGTH \<le> t
                         then s\<lparr>bytes_last_window := bytes_last_window s + b\<rparr> else s)
               in s1\<lparr>bytes_last_second := bytes_last_second s1 + b\<rparr>))
      else s)"

definition recent_sums :: "BandwidthMonitor \<Rightarrow> nat \<Rightarrow> u64 \<Rightarrow> tick_sums" where
  "recent_sums m current_tick epoch_seconds =
     foldl (add_tick m current_tick epoch_seconds)
       \<lparr>bytes_this_tick = 0, bytes_last_window = 0, bytes_last_second = 0\<rparr> [0..<TIME_RESOLUTION]"

definition exceeded :: "BandwidthMonitor \<Rightarrow> tick_sums \<Rightarrow> bool" where
  "exceeded m s \<longleftrightarrow>
     11 * unat (bytes_per_tick m) < 10 * unat (bytes_this_tick s)
     \<or> 525 * unat (bytes_per_tick m) < 100 * unat (bytes_last_window s)
     \<or> bytes_per_tick m * of_nat TIME_RESOLUTION < bytes_last_second s"

definition current_tick_of :: "u64 \<Rightarrow> nat" where
  "current_tick_of now_millis = unat now_millis mod 1000 div MILLIS_PER_TICK"

definition try_quota :: "u64 \<Rightarrow> nat \<Rightarrow> BandwidthMonitor \<Rightarrow> bool \<times> BandwidthMonitor" where
  "try_quota now_millis byte_count m =
     (let epoch_seconds = now_millis div 1000;
          current_tick = current_tick_of now_millis in
      if exceeded m (recent_sums m current_tick epoch_seconds) then (False, m)
      else let m1 = (if tick_seconds m ! current_tick \<noteq> epoch_seconds
                     then m\<lparr>tick_seconds := (tick_seconds m)[current_tick := epoch_seconds],
                            tick_bytes := (tick_bytes m)[current_tick := 0]\<rparr>
                     else m)
           in (True, m1\<lparr>tick_bytes := (tick_bytes m1)[current_tick := tick_bytes m1 ! current_tick + of_nat byte_count]\<rparr>))"

text \<open>\<open>None\<close>: still waiting after the given readings of the clock.\<close>

fun wait_for_quota :: "u64 list \<Rightarrow> nat \<Rightarrow> BandwidthMonitor \<Rightarrow> BandwidthMonitor option" where
  "wait_for_quota [] byte_count m = None"
| "wait_for_quota (now # rest) byte_count m =
     (case try_quota now byte_count m of
        (True, m1) \<Rightarrow> Some m1
      | (False, m1) \<Rightarrow> wait_for_quota rest byte_count m1)"

subsection \<open>Indices\<close>

definition bwm_wf :: "BandwidthMonitor \<Rightarrow> bool" where
  "bwm_wf m \<longleftrightarrow> length (tick_bytes m) = TIME_RESOLUTION \<and> length (tick_seconds m) = TIME_RESOLUTION"

lemma current_tick_less: "current_tick_of now < TIME_RESOLUTION"
proof -
  have "unat now mod 1000 < 50 * 20" by simp
  then have "unat now mod 1000 div 20 < 50" by (rule less_mult_imp_div_less)
  then show ?thesis by (simp add: current_tick_of_def TIME_RESOLUTION_def MILLIS_PER_TICK_def)
qed

lemma tick_index_less: "c < TIME_RESOLUTION \<Longrightarrow> k < TIME_RESOLUTION \<Longrightarrow> tick_index c k < TIME_RESOLUTION"
  by (auto simp: tick_index_def tick_counter_def TIME_RESOLUTION_def Let_def)

lemma tick_index_current: "c < TIME_RESOLUTION \<Longrightarrow> tick_index c 49 = c \<and> tick_counter c 49 = int c"
  by (simp add: tick_index_def tick_counter_def TIME_RESOLUTION_def)

subsection \<open>What a grant means\<close>

lemma this_tick_prefix:
  "c < TIME_RESOLUTION \<Longrightarrow> n \<le> 49 \<Longrightarrow> bytes_this_tick (foldl (add_tick m c e) s [0..<n]) = bytes_this_tick s"
  by (induction n) (auto simp: add_tick_def Let_def tick_counter_def TIME_RESOLUTION_def)

lemma recent_this_tick:
  assumes "c < TIME_RESOLUTION"
  shows "bytes_this_tick (recent_sums m c e) = (if tick_seconds m ! c = e then tick_bytes m ! c else 0)"
proof -
  have "[0..<TIME_RESOLUTION] = [0..<49] @ [49]" by (simp add: TIME_RESOLUTION_def upt_rec)
  then show ?thesis
    using this_tick_prefix [OF assms, of 49 m e] tick_index_current [OF assms]
    by (simp add: recent_sums_def) (simp add: add_tick_def valid_second_def Let_def)
qed

lemma try_quota_cases:
  assumes "try_quota now n m = (True, m')" "bwm_wf m"
  shows "m' = m\<lparr>tick_seconds := (tick_seconds m)[current_tick_of now := now div 1000],
                tick_bytes := (tick_bytes m)[current_tick_of now :=
                  bytes_this_tick (recent_sums m (current_tick_of now) (now div 1000)) + of_nat n]\<rparr>
    \<and> \<not> exceeded m (recent_sums m (current_tick_of now) (now div 1000))"
proof (cases "tick_seconds m ! current_tick_of now = now div 1000")
  case True
  then have "(tick_seconds m)[current_tick_of now := now div 1000] = tick_seconds m"
    by (metis list_update_id)
  then show ?thesis using assms True
    by (simp add: try_quota_def Let_def recent_this_tick current_tick_less split: if_splits)
next
  case False
  then show ?thesis using assms current_tick_less [of now]
    by (simp add: try_quota_def Let_def recent_this_tick bwm_wf_def split: if_splits)
qed

subsection \<open>Rates\<close>

text \<open>A run over requests \<open>(now, bytes)\<close>; the second component collects the granted ones.\<close>

definition quota_step :: "BandwidthMonitor \<times> (u64 \<times> nat) list \<Rightarrow> u64 \<times> nat \<Rightarrow> BandwidthMonitor \<times> (u64 \<times> nat) list" where
  "quota_step mg r =
     (case try_quota (fst r) (snd r) (fst mg) of
        (True, m1) \<Rightarrow> (m1, r # snd mg)
      | (False, m1) \<Rightarrow> (m1, snd mg))"

definition granted_in :: "(u64 \<times> nat) list \<Rightarrow> u64 \<Rightarrow> nat \<Rightarrow> nat" where
  "granted_in g e c = sum_list (map snd (filter (\<lambda>r. fst r div 1000 = e \<and> current_tick_of (fst r) = c) g))"

text \<open>The table agrees with the grants, and no tick was granted more than the bound.\<close>

definition rate_inv :: "u32 \<Rightarrow> nat \<Rightarrow> u64 \<Rightarrow> BandwidthMonitor \<times> (u64 \<times> nat) list \<Rightarrow> bool" where
  "rate_inv b R t mg \<longleftrightarrow>
     bwm_wf (fst mg) \<and> bytes_per_tick (fst mg) = b
     \<and> (\<forall>c < TIME_RESOLUTION. tick_seconds (fst mg) ! c \<le> t div 1000
          \<and> unat (tick_bytes (fst mg) ! c) = granted_in (snd mg) (tick_seconds (fst mg) ! c) c
          \<and> (\<forall>e. tick_seconds (fst mg) ! c < e \<longrightarrow> granted_in (snd mg) e c = 0))
     \<and> (\<forall>e c. 10 * granted_in (snd mg) e c \<le> 11 * unat b + 10 * R)"

lemma try_quota_refused: "try_quota now n m = (False, m') \<Longrightarrow> m' = m"
  by (auto simp: try_quota_def Let_def split: if_splits)

lemma div_1000_mono: "t \<le> t' \<Longrightarrow> t div 1000 \<le> (t' :: u64) div 1000"
  by (simp add: word_le_nat_alt unat_div div_le_mono)

lemma rate_inv_mono: "rate_inv b R t mg \<Longrightarrow> t \<le> t' \<Longrightarrow> rate_inv b R t' mg"
  unfolding rate_inv_def using div_1000_mono order_trans by blast

lemma granted_in_Cons:
  "granted_in (r # g) e c = (if fst r div 1000 = e \<and> current_tick_of (fst r) = c then snd r else 0) + granted_in g e c"
  by (simp add: granted_in_def)

lemma rate_inv_grant:
  assumes inv: "rate_inv b R t (m, g)" and t: "t \<le> now" and n: "n \<le> R"
    and fits: "11 * unat b + 10 * R < 10 * 2 ^ 32"
    and q: "try_quota now n m = (True, m')"
  shows "rate_inv b R now (m', (now, n) # g)"
proof -
  let ?c = "current_tick_of now" and ?e = "now div 1000"
  define x where "x = bytes_this_tick (recent_sums m ?c ?e)"
  have wf: "bwm_wf m" and bb: "bytes_per_tick m = b" using inv by (simp_all add: rate_inv_def)
  have c: "?c < TIME_RESOLUTION" by (rule current_tick_less)
  have m': "m' = m\<lparr>tick_seconds := (tick_seconds m)[?c := ?e], tick_bytes := (tick_bytes m)[?c := x + of_nat n]\<rparr>"
    and ex: "10 * unat x \<le> 11 * unat b"
    using try_quota_cases [OF q wf] bb by (auto simp: x_def exceeded_def)
  have old: "tick_seconds m ! ?c \<le> ?e"
    using inv c t div_1000_mono [of t now] unfolding rate_inv_def fst_conv snd_conv by (meson order_trans)
  have x: "unat x = granted_in g ?e ?c"
  proof (cases "tick_seconds m ! ?c = ?e")
    case True
    then show ?thesis using inv c by (auto simp: rate_inv_def x_def recent_this_tick)
  next
    case False
    then have "granted_in g ?e ?c = 0" using inv c old by (auto simp: rate_inv_def)
    then show ?thesis using False by (simp add: x_def recent_this_tick c)
  qed
  have fit: "unat x + n < 2 ^ 32" using ex n fits by linarith
  have xn: "unat (x + of_nat n) = unat x + n"
    using fit by (simp add: unat_word_ariths unat_of_nat take_bit_nat_eq_self)
  have "10 * granted_in ((now, n) # g) e d \<le> 11 * unat b + 10 * R" for e d
    using inv x ex n by (auto simp: rate_inv_def granted_in_Cons)
  moreover have "tick_seconds m' ! d \<le> ?e \<and> unat (tick_bytes m' ! d) = granted_in ((now, n) # g) (tick_seconds m' ! d) d
      \<and> (\<forall>e. tick_seconds m' ! d < e \<longrightarrow> granted_in ((now, n) # g) e d = 0)" if d: "d < TIME_RESOLUTION" for d
  proof (cases "d = ?c")
    case True
    have "\<forall>e. tick_seconds m ! ?c < e \<longrightarrow> granted_in g e ?c = 0" using inv c by (simp add: rate_inv_def)
    then have "granted_in g e ?c = 0" if "?e < e" for e using order_le_less_trans [OF old that] by blast
    then show ?thesis using True d wf x xn by (auto simp: m' bwm_wf_def granted_in_Cons)
  next
    case False
    then show ?thesis using inv d t div_1000_mono [of t now]
      by (auto simp: m' rate_inv_def granted_in_Cons intro: order_trans)
  qed
  ultimately show ?thesis using wf bb by (simp add: rate_inv_def m' bwm_wf_def)
qed

lemma rate_inv_run:
  assumes "rate_inv b R t mg" "sorted (t # map fst es)" "\<forall>r \<in> set es. snd r \<le> R" "11 * unat b + 10 * R < 10 * 2 ^ 32"
  shows "\<exists>t'. rate_inv b R t' (foldl quota_step mg es)"
  using assms
proof (induction es arbitrary: t mg)
  case (Cons r es)
  obtain now n where r: "r = (now, n)" by force
  obtain m g where mg: "mg = (m, g)" by force
  have "rate_inv b R now (quota_step mg r)"
  proof (cases "try_quota now n m")
    case (Pair ok m')
    then show ?thesis
    proof (cases ok)
      case True
      then show ?thesis using rate_inv_grant [of b R t m g now n m'] Cons.prems Pair by (simp add: quota_step_def r mg)
    next
      case False
      then have "m' = m" using Pair try_quota_refused [of now n m m'] by simp
      then show ?thesis using False Pair Cons.prems rate_inv_mono [of b R t mg now] by (simp add: quota_step_def r mg)
    qed
  qed
  then show ?case using Cons.IH [of now "quota_step mg r"] Cons.prems r by simp
qed auto

lemma rate_inv_new: "rate_inv (bytes_per_tick (BandwidthMonitor_new t)) R 0 (BandwidthMonitor_new t, [])"
  by (simp add: rate_inv_def BandwidthMonitor_new_def bwm_wf_def granted_in_def TIME_RESOLUTION_def nth_replicate)

text \<open>
  C19: the rate bound: for requests of at most \<open>R\<close> bytes and a clock that does not run backwards, the
  bytes granted in any one tick of any second never exceed 1.1 times the per-tick budget by more than
  one request. (The first grant that passes the budget closes the tick.)
\<close>

theorem tick_rate_bound:
  assumes "sorted (map fst es)" "\<forall>r \<in> set es. snd r \<le> R"
    and "11 * unat (bytes_per_tick (BandwidthMonitor_new t)) + 10 * R < 10 * 2 ^ 32"
  shows "10 * granted_in (snd (foldl quota_step (BandwidthMonitor_new t, []) es)) e c
    \<le> 11 * unat (bytes_per_tick (BandwidthMonitor_new t)) + 10 * R"
  using rate_inv_run [OF rate_inv_new [of t R] _ assms(2,3)] assms(1) by (auto simp: rate_inv_def)

theorem tick_rate_bound_witness:
  "10 * granted_in (snd (foldl quota_step (BandwidthMonitor_new 100, []) [(5, 3), (6, 3), (1005, 3)])) 0 0
    \<le> 11 * unat (bytes_per_tick (BandwidthMonitor_new 100)) + 10 * 3"
  by (rule tick_rate_bound) (simp_all add: BandwidthMonitor_new_def)

subsection \<open>Progress\<close>

lemma idle_sums:
  assumes "\<forall>i < TIME_RESOLUTION. tick_seconds m ! i \<noteq> e \<and> tick_seconds m ! i \<noteq> e - 1" "c < TIME_RESOLUTION"
  shows "recent_sums m c e = \<lparr>bytes_this_tick = 0, bytes_last_window = 0, bytes_last_second = 0\<rparr>"
proof -
  have "foldl (add_tick m c e) s ks = s" if "set ks \<subseteq> {..<TIME_RESOLUTION}" for s ks
    using that
  proof (induction ks)
    case (Cons k ks)
    then have "tick_index c k < TIME_RESOLUTION" using assms(2) tick_index_less by simp
    then have "add_tick m c e s k = s" using assms(1) by (auto simp: add_tick_def valid_second_def Let_def)
    then show ?case using Cons by simp
  qed simp
  then show ?thesis unfolding recent_sums_def by (metis atLeast_upt subset_refl)
qed

text \<open>
  C20: waiting ends: whatever was recorded, once a retry reads a clock at least two seconds past every
  recorded tick, the request is granted at the latest there, so \<^verbatim>\<open>wait_for_quota\<close> returns.
\<close>

theorem quota_wait_ends:
  assumes "now \<in> set readings" "\<forall>i < TIME_RESOLUTION. unat (tick_seconds m ! i) + 1 < unat (now div 1000)"
  shows "\<exists>m'. wait_for_quota readings n m = Some m'"
  using assms(1)
proof (induction readings)
  case (Cons r rs)
  obtain ok m1 where q: "try_quota r n m = (ok, m1)" by force
  show ?case
  proof (cases ok)
    case True
    then show ?thesis using q by simp
  next
    case False
    have "r \<noteq> now"
    proof
      assume "r = now"
      have "tick_seconds m ! i \<noteq> now div 1000 \<and> tick_seconds m ! i \<noteq> now div 1000 - 1" if "i < TIME_RESOLUTION" for i
      proof -
        have lt: "unat (tick_seconds m ! i) + 1 < unat (now div 1000)" using assms(2) that by blast
        then have "unat (now div 1000 - 1) = unat (now div 1000) - 1"
          by (subst unat_sub_fits) (auto simp: word_le_nat_alt)
        then show ?thesis using lt by auto
      qed
      then have "recent_sums m (current_tick_of now) (now div 1000) = \<lparr>bytes_this_tick = 0, bytes_last_window = 0, bytes_last_second = 0\<rparr>"
        using current_tick_less by (intro idle_sums) auto
      then show False using q False \<open>r = now\<close> by (auto simp: try_quota_def Let_def exceeded_def split: if_splits)
    qed
    then show ?thesis using Cons q False try_quota_refused by fastforce
  qed
qed simp

theorem quota_wait_ends_witness: "\<exists>m'. wait_for_quota [10, 5000] 9 (BandwidthMonitor_new 100) = Some m'"
  by (rule quota_wait_ends [of 5000]) (simp_all add: BandwidthMonitor_new_def TIME_RESOLUTION_def nth_replicate unat_div)

text \<open>
  a very large throttle wraps the per-second limit: from 4294967251 bytes per second on, the
  product \<^verbatim>\<open>bytes_per_tick * 50\<close> overflows 32 bits and the limit is four bytes.
\<close>

theorem huge_throttle_wraps:
  assumes "4294967250 < t"
  shows "bytes_per_tick (BandwidthMonitor_new t) * of_nat TIME_RESOLUTION = 4"
proof -
  have "(unat t + 49) div 50 = 85899346"
    using assms unat_u32 [of t] by (auto simp: word_less_nat_alt)
  then show ?thesis by (simp add: BandwidthMonitor_new_def TIME_RESOLUTION_def)
qed

theorem huge_throttle_wraps_witness:
  "bytes_per_tick (BandwidthMonitor_new 4294967295) * of_nat TIME_RESOLUTION = 4"
  by (rule huge_throttle_wraps) simp

end
