(* ===== verification/Hath_Downloader.thy ===== *)
theory Hath_Downloader
  imports Hath_Rpc Hath_Bandwidth
begin

text \<open>
  Whole-file downloads, \<^verbatim>\<open>src/src/downloader.rs\<close>: one attempt with its checks of the announced length,
  the retries, and the URL of the image proxy. What the server answers to the n-th attempt is a
  parameter; a reply is its status, the announced length and the chunks of its body, of which one may
  be a transport error.
\<close>

datatype DownloadMode = Memory | File_mode path | Discard

record FileDownloader =
  fd_retries :: u32
  fd_mode :: DownloadMode
  fd_max_content_length :: "u64 option"
  fd_content_length :: int

definition FileDownloader_new :: "DownloadMode \<Rightarrow> FileDownloader" where
  "FileDownloader_new mode =
     \<lparr>fd_retries = 3, fd_mode = mode, fd_max_content_length = None, fd_content_length = 0\<rparr>"

definition set_max_content_length :: "u64 \<Rightarrow> FileDownloader \<Rightarrow> FileDownloader" where
  "set_max_content_length m d = d\<lparr>fd_max_content_length := Some m\<rparr>"

datatype DownloadAttemptError = Retryable HathError | Attempt_not_found HathError

record dl_reply =
  rp_status :: u16
  rp_length :: "u64 option"
  rp_chunks :: "(string + string) list"

type_synonym dl_net = "nat \<Rightarrow> string + dl_reply"

text \<open>The conversion \<^verbatim>\<open>as i32\<close> of a \<^verbatim>\<open>u64\<close>: the low 32 bits, signed.\<close>

definition as_i32 :: "u64 \<Rightarrow> int" where
  "as_i32 w = sint (ucast w :: u32)"

fun receive :: "os \<Rightarrow> DownloadMode \<Rightarrow> (string + string) list \<Rightarrow> u64 \<Rightarrow> string \<Rightarrow> fs \<Rightarrow> (u64 \<times> string) res \<times> fs" where
  "receive os mode [] total_bytes buf f = (Inr (total_bytes, buf), f)"
| "receive os mode (Inl e # cs) total_bytes buf f = (Inl (Network e), f)"
| "receive os mode (Inr chunk # cs) total_bytes buf f =
     (let total = total_bytes + of_nat (length chunk) in
      case mode of
        Memory \<Rightarrow> receive os mode cs total (buf @ chunk) f
      | Discard \<Rightarrow> receive os mode cs total buf f
      | File_mode p \<Rightarrow>
          (case fs_append os f p chunk of
             (Some _, f1) \<Rightarrow> (Inl (Io ''write_all''), f1)
           | (None, f1) \<Rightarrow> receive os mode cs total buf f1))"

text \<open>The result carries the buffer of the memory mode, the downloader its announced length.\<close>

definition attempt_download :: "os \<Rightarrow> string + dl_reply \<Rightarrow> FileDownloader \<times> fs
    \<Rightarrow> (DownloadAttemptError + string option) \<times> FileDownloader \<times> fs" where
  "attempt_download os reply df =
     (case df of (d, f) \<Rightarrow>
      case reply of
        Inl e \<Rightarrow> (Inl (Retryable (Network e)), d, f)
      | Inr resp \<Rightarrow>
          if rp_status resp = 404 then (Inl (Attempt_not_found (Network ''server returned 404'')), d, f)
          else if \<not> (200 \<le> rp_status resp \<and> rp_status resp < 300)
          then (Inl (Retryable (Network ''server returned an error'')), d, f)
          else (case rp_length resp of
              None \<Rightarrow> (Inl (Retryable (Network ''missing Content-Length header'')), d, f)
            | Some announced \<Rightarrow>
                let content_length = as_i32 announced in
                if content_length < 0 then (Inl (Retryable (Network ''invalid Content-Length'')), d, f)
                else if (case fd_max_content_length d of None \<Rightarrow> False | Some m \<Rightarrow> m < word_of_int content_length)
                then (Inl (Retryable (Network ''content too large'')), d, f)
                else if 10485760 < content_length \<and> fd_mode d = Memory
                then (Inl (Retryable (Network ''content too large for memory buffer'')), d, f)
                else
                  let d1 = d\<lparr>fd_content_length := content_length\<rparr> in
                  case (case fd_mode d of File_mode p \<Rightarrow> fs_write os f p [] | _ \<Rightarrow> (None, f)) of
                    (Some _, f1) \<Rightarrow> (Inl (Retryable (Io ''create'')), d1, f1)
                  | (None, f1) \<Rightarrow>
                      (case receive os (fd_mode d) (rp_chunks resp) 0 [] f1 of
                         (Inl e, f2) \<Rightarrow> (Inl (Retryable e), d1, f2)
                       | (Inr (total_bytes, buf), f2) \<Rightarrow>
                           if total_bytes \<noteq> word_of_int content_length
                           then (Inl (Retryable (Network ''incomplete'')), d1, f2)
                           else (Inr (if fd_mode d = Memory then Some buf else None), d1, f2))))"

lemma attempt_keeps:
  "fd_retries (fst (snd (attempt_download os r (d, f)))) = fd_retries d"
  "fd_mode (fst (snd (attempt_download os r (d, f)))) = fd_mode d"
  "fd_max_content_length (fst (snd (attempt_download os r (d, f)))) = fd_max_content_length d"
  by (simp_all add: attempt_download_def Let_def split: sum.split option.split prod.split)

text \<open>The loop over the retries; \<open>k\<close> numbers the requests.\<close>

function download_loop :: "os \<Rightarrow> dl_net \<Rightarrow> nat \<Rightarrow> FileDownloader \<times> fs \<Rightarrow> string option res \<times> FileDownloader \<times> fs" where
  "download_loop os net k df =
     (case df of (d, f) \<Rightarrow>
      let remaining = fd_retries d in
      if remaining = 0 then (Inl (Network ''exhausted retries''), d, f)
      else case attempt_download os (net k) (d\<lparr>fd_retries := remaining - 1\<rparr>, f) of
          (Inr data, df1) \<Rightarrow> (Inr data, df1)
        | (Inl (Attempt_not_found e), df1) \<Rightarrow> (Inl e, df1)
        | (Inl (Retryable e), df1) \<Rightarrow> download_loop os net (Suc k) df1)"
  by pat_completeness auto

termination
proof (relation "measure (\<lambda>(os, net, k, d, f). unat (fd_retries d))", goal_cases)
  case 1
  show ?case by simp
next
  case (2 os net k df d f remaining r df1 e err)
  have "fd_retries (fst df1) = remaining - 1"
    using attempt_keeps(1) [of os "net k" "d\<lparr>fd_retries := remaining - 1\<rparr>" f] 2
    by (auto dest: arg_cong [where f = "\<lambda>x. fst (snd x)"])
  moreover have "unat (remaining - 1) < unat remaining" using 2 unat_minus_one [of remaining] by (simp add: unat_gt_0)
  ultimately show ?case using 2 by (cases df1) auto
qed

declare download_loop.simps [simp del]

definition download :: "os \<Rightarrow> dl_net \<Rightarrow> FileDownloader \<times> fs \<Rightarrow> string option res \<times> FileDownloader \<times> fs" where
  "download os net df = download_loop os net 0 df"

subsection \<open>The image proxy\<close>

definition build_proxy_url :: "('u, 'z) url_lib_scheme \<Rightarrow> string \<Rightarrow> string \<Rightarrow> u16 \<Rightarrow> 'u res" where
  "build_proxy_url lib proxy_type proxy_host proxy_port =
     (case (if proxy_type = ''socks'' then Some (url_parse lib ''socks://hath.invalid/'')
            else if proxy_type = ''http'' then Some (url_parse lib ''http://hath.invalid/'') else None) of
        None \<Rightarrow> Inl (Config_error (''invalid proxy type: '' @ proxy_type))
      | Some None \<Rightarrow> Inl (Config_error ''invalid proxy URL base'')
      | Some (Some u0) \<Rightarrow>
          (case (case parse_ip proxy_host of
                   Some ip \<Rightarrow> url_set_ip_host lib ip u0
                 | None \<Rightarrow> url_set_host lib proxy_host u0) of
             None \<Rightarrow> Inl (Config_error ''invalid proxy host'')
           | Some u1 \<Rightarrow>
               (case url_set_port lib (Some proxy_port) u1 of
                  None \<Rightarrow> Inl (Config_error ''invalid proxy port'')
                | Some u2 \<Rightarrow> Inr u2)))"

text \<open>The proxy of a client, if one is configured; the HTTP client itself is a library object.\<close>

definition image_proxy :: "('u, 'z) url_lib_scheme \<Rightarrow> Config \<Rightarrow> 'u option res" where
  "image_proxy lib c =
     (case cfg_image_proxy_host c of
        None \<Rightarrow> Inr None
      | Some proxy_host \<Rightarrow>
          let proxy_type = unwrap_or (cfg_image_proxy_type c) ''socks'';
              default_port = (if proxy_type = ''http'' then 8080 else 1080);
              proxy_port = unwrap_or (cfg_image_proxy_port c) default_port
          in case build_proxy_url lib proxy_type proxy_host proxy_port of Inl e \<Rightarrow> Inl e | Inr u \<Rightarrow> Inr (Some u))"

subsection \<open>What is received\<close>

text \<open>The text of a body without transport errors.\<close>

definition body_text :: "(string + string) list \<Rightarrow> string" where
  "body_text cs = concat (map (case_sum (\<lambda>_. []) id) cs)"

lemma receive_spec:
  assumes "receive os mode cs tot buf f = (Inr (tot1, buf'), f')"
  shows "tot1 = tot + of_nat (length (body_text cs))
    \<and> buf' = (if mode = Memory then buf @ body_text cs else buf)
    \<and> (\<forall>p c0 t. mode = File_mode p \<longrightarrow> fs_get f p = Some (File c0 t) \<longrightarrow>
         (\<exists>t'. fs_get f' p = Some (File (c0 @ body_text cs) t')))
    \<and> (\<forall>q. mode \<noteq> File_mode q \<longrightarrow> fs_get f' q = fs_get f q)"
  using assms
proof (induction os mode cs tot buf f rule: receive.induct)
  case (1 os mode tot buf f)
  then show ?case by (auto simp: body_text_def)
next
  case (3 os mode chunk cs tot buf f)
  show ?case
  proof (cases mode)
    case Memory
    then show ?thesis using 3 by (simp add: Let_def body_text_def)
  next
    case Discard
    then show ?thesis using 3 by (simp add: Let_def body_text_def)
  next
    case (File_mode p)
    obtain f1 where f1: "fs_append os f p chunk = (None, f1)"
      "receive os mode cs (tot + of_nat (length chunk)) buf f1 = (Inr (tot1, buf'), f')"
      using "3.prems" File_mode by (auto simp: Let_def split: prod.splits option.splits)
    have ih: "tot1 = tot + of_nat (length chunk) + of_nat (length (body_text cs)) \<and> buf' = buf
      \<and> (\<forall>c0 t. fs_get f1 p = Some (File c0 t) \<longrightarrow> (\<exists>t'. fs_get f' p = Some (File (c0 @ body_text cs) t')))
      \<and> (\<forall>q. p \<noteq> q \<longrightarrow> fs_get f' q = fs_get f1 q)"
      using "3.IH"(2) [OF refl File_mode f1(1) [symmetric] refl f1(2)] File_mode by simp
    have "fs_get f1 p = Some (File (c0 @ chunk) (os_now_ms os))" if "fs_get f p = Some (File c0 t)" for c0 t
      using f1(1) that by (auto simp: fs_append_def split: if_splits)
    moreover have "fs_get f1 q = fs_get f q" if "p \<noteq> q" for q
      using f1(1) that by (auto simp: fs_append_def split: if_splits option.splits node.splits)
    ultimately show ?thesis using ih File_mode by (auto simp: body_text_def)
  qed
qed simp


lemma word_of_nonneg_i32: "0 \<le> as_i32 w \<Longrightarrow> unat (word_of_int (as_i32 w) :: u64) = nat (as_i32 w)"
proof -
  assume a: "0 \<le> as_i32 w"
  have "as_i32 w < 2 ^ 31" using sint_lt [of "ucast w :: u32"] by (simp add: as_i32_def)
  then have "as_i32 w mod 2 ^ 64 = as_i32 w" using a by (intro mod_pos_pos_trivial) auto
  then have "uint (word_of_int (as_i32 w) :: u64) = as_i32 w" by (simp add: uint_word_of_int)
  then show ?thesis by (metis nat_uint_eq)
qed

lemma attempt_success:
  assumes "attempt_download os reply (d, f) = (Inr data, d', f')"
  shows "\<exists>resp announced. reply = Inr resp \<and> rp_length resp = Some announced \<and> 0 \<le> as_i32 announced
    \<and> fd_content_length d' = as_i32 announced
    \<and> of_nat (length (body_text (rp_chunks resp))) = (word_of_int (as_i32 announced) :: u64)
    \<and> (\<forall>m. fd_max_content_length d = Some m \<longrightarrow> (word_of_int (as_i32 announced) :: u64) \<le> m)
    \<and> (case fd_mode d of
          Memory \<Rightarrow> data = Some (body_text (rp_chunks resp)) \<and> as_i32 announced \<le> 10485760
        | File_mode p \<Rightarrow> data = None \<and> (\<exists>t. fs_get f' p = Some (File (body_text (rp_chunks resp)) t))
        | Discard \<Rightarrow> data = None)"
proof -
  obtain resp announced where r: "reply = Inr resp" "rp_length resp = Some announced" "0 \<le> as_i32 announced"
    using assms by (auto simp: attempt_download_def Let_def split: sum.splits if_splits option.splits prod.splits)
  obtain f1 tot buf where f1: "(case fd_mode d of File_mode p \<Rightarrow> fs_write os f p [] | _ \<Rightarrow> (None, f)) = (None, f1)"
    "receive os (fd_mode d) (rp_chunks resp) 0 [] f1 = (Inr (tot, buf), f')" "tot = word_of_int (as_i32 announced)"
    "data = (if fd_mode d = Memory then Some buf else None)" "fd_content_length d' = as_i32 announced"
    "\<forall>m. fd_max_content_length d = Some m \<longrightarrow> \<not> m < word_of_int (as_i32 announced)"
    "fd_mode d = Memory \<longrightarrow> as_i32 announced \<le> 10485760"
    using assms r by (auto simp: attempt_download_def Let_def split: sum.splits if_splits option.splits prod.splits)
  note spec = receive_spec [OF f1(2)]
  have "\<exists>t. fs_get f1 p = Some (File [] t)" if "fd_mode d = File_mode p" for p
    using f1(1) that by (auto dest!: fs_write_ok)
  then show ?thesis using r f1 spec by (cases "fd_mode d") (auto simp: not_less)
qed

lemma download_loop_success:
  assumes "download_loop os net k (d, f) = (Inr data, d', f')"
  shows "\<exists>j d1 f1. k \<le> j \<and> j < k + unat (fd_retries d) \<and> attempt_download os (net j) (d1, f1) = (Inr data, d', f')
    \<and> fd_mode d1 = fd_mode d \<and> fd_max_content_length d1 = fd_max_content_length d"
  using assms
proof (induction "unat (fd_retries d)" arbitrary: k d f)
  case 0
  then have "fd_retries d = 0" by (simp add: unat_eq_zero)
  then show ?case using 0 by (subst (asm) download_loop.simps) (simp add: Let_def)
next
  case (Suc n)
  have r: "fd_retries d \<noteq> 0" using Suc.hyps(2) by auto
  have n: "unat (fd_retries d - 1) = n" using Suc.hyps(2) unat_minus_one [OF r] by simp
  let ?d = "d\<lparr>fd_retries := fd_retries d - 1\<rparr>"
  obtain res d1 f1 where a: "attempt_download os (net k) (?d, f) = (res, d1, f1)" by (metis prod_cases3)
  have keeps: "fd_retries d1 = fd_retries d - 1" "fd_mode d1 = fd_mode d" "fd_max_content_length d1 = fd_max_content_length d"
    using attempt_keeps [of os "net k" ?d f] a by simp_all
  show ?case
  proof (cases res)
    case (Inr data')
    then have "data' = data" "d1 = d'" "f1 = f'"
      using Suc.prems r a by (subst (asm) download_loop.simps, simp add: Let_def)+
    then show ?thesis using a Inr Suc.hyps(2)
      by (intro exI [of _ k] exI [of _ ?d] exI [of _ f]) simp
  next
    case (Inl e)
    then obtain e' where "e = Retryable e'"
      using Suc.prems r a by (cases e) (subst (asm) download_loop.simps, simp add: Let_def)+
    then have "download_loop os net (Suc k) (d1, f1) = (Inr data, d', f')"
      using Suc.prems r a Inl by (subst (asm) download_loop.simps) (simp add: Let_def)
    from Suc.hyps(1) [OF _ this] keeps n obtain j d2 f2 where "Suc k \<le> j" "j < Suc k + n"
      "attempt_download os (net j) (d2, f2) = (Inr data, d', f')" "fd_mode d2 = fd_mode d"
      "fd_max_content_length d2 = fd_max_content_length d" by auto
    then show ?thesis using Suc.hyps(2) by (intro exI [of _ j] exI [of _ d2] exI [of _ f2]) simp
  qed
qed

lemma download_body:
  assumes "download os net (d, f) = (Inr data, d', f')" "fd_mode d = File_mode p"
  shows "\<exists>j resp t. j < unat (fd_retries d) \<and> net j = Inr resp
    \<and> fs_get f' p = Some (File (body_text (rp_chunks resp)) t)
    \<and> 0 \<le> fd_content_length d'
    \<and> int (length (body_text (rp_chunks resp)) mod 2 ^ 64) = fd_content_length d'
    \<and> (\<forall>m. fd_max_content_length d = Some m \<longrightarrow> fd_content_length d' \<le> int (unat m))"
proof -
  obtain j d1 f1 where j: "j < unat (fd_retries d)" "attempt_download os (net j) (d1, f1) = (Inr data, d', f')"
    "fd_mode d1 = fd_mode d" "fd_max_content_length d1 = fd_max_content_length d"
    using download_loop_success [OF assms(1) [unfolded download_def]] by auto
  obtain resp announced where r: "net j = Inr resp" "0 \<le> as_i32 announced" "fd_content_length d' = as_i32 announced"
    "of_nat (length (body_text (rp_chunks resp))) = (word_of_int (as_i32 announced) :: u64)"
    "\<forall>m. fd_max_content_length d = Some m \<longrightarrow> (word_of_int (as_i32 announced) :: u64) \<le> m"
    "\<exists>t. fs_get f' p = Some (File (body_text (rp_chunks resp)) t)"
    using attempt_success [OF j(2)] j(3,4) assms(2) by auto
  have "length (body_text (rp_chunks resp)) mod 2 ^ 64 = unat (word_of_int (as_i32 announced) :: u64)"
    unfolding r(4) [symmetric] by (simp add: unat_of_nat)
  then have "int (length (body_text (rp_chunks resp)) mod 2 ^ 64) = as_i32 announced"
    using word_of_nonneg_i32 [OF r(2)] r(2) by simp
  moreover have "as_i32 announced \<le> int (unat m)" if "fd_max_content_length d = Some m" for m
  proof -
    have "nat (as_i32 announced) \<le> unat m" using r(5) that word_of_nonneg_i32 [OF r(2)] by (simp add: word_le_nat_alt)
    then show ?thesis by linarith
  qed
  ultimately show ?thesis using j(1) r by auto
qed

lemma receive_frame: "mode \<noteq> File_mode q \<Longrightarrow> fs_get (snd (receive os mode cs tot buf f)) q = fs_get f q"
proof (induction os mode cs tot buf f rule: receive.induct)
  case (3 os mode chunk cs tot buf f)
  show ?case
  proof (cases mode)
    case (File_mode p)
    then have "fs_get (snd (fs_append os f p chunk)) q = fs_get f q"
      using "3.prems" by (auto simp: fs_append_def split: option.splits node.splits)
    then show ?thesis using 3 File_mode by (auto simp: Let_def split: prod.splits option.splits)
  qed (use 3 in \<open>simp_all add: Let_def\<close>)
qed simp_all

lemma attempt_frame:
  assumes "fd_mode d = File_mode p" "q \<noteq> p"
  shows "fs_get (snd (snd (attempt_download os r (d, f)))) q = fs_get f q"
proof -
  have w: "fs_get (snd (fs_write os f p [])) q = fs_get f q" by (rule fs_write_frame [OF assms(2)])
  have r: "fs_get (snd (receive os (File_mode p) cs 0 [] g)) q = fs_get g q" for cs g
    using assms(2) by (intro receive_frame) simp
  have "fs_get f2 q = fs_get f q" if "fs_write os f p [] = (None, f1)" "receive os (File_mode p) cs 0 [] f1 = (x, f2)" for f1 cs x f2
    using w r [of cs f1] that by simp
  moreover have "fs_get f1 q = fs_get f q" if "fs_write os f p [] = (x, f1)" for x f1 using w that by simp
  ultimately show ?thesis using assms(1)
    by (auto simp: attempt_download_def Let_def split: sum.splits option.splits prod.splits if_splits)
qed

lemma download_loop_frame:
  assumes "fd_mode d = File_mode p" "q \<noteq> p"
  shows "fs_get (snd (snd (download_loop os net k (d, f)))) q = fs_get f q"
  using assms(1)
proof (induction "unat (fd_retries d)" arbitrary: k d f)
  case 0
  then have "fd_retries d = 0" by (simp add: unat_eq_zero)
  then show ?case by (subst download_loop.simps) (simp add: Let_def)
next
  case (Suc n)
  have r: "fd_retries d \<noteq> 0" using Suc.hyps(2) by auto
  let ?d = "d\<lparr>fd_retries := fd_retries d - 1\<rparr>"
  obtain res d1 f1 where a: "attempt_download os (net k) (?d, f) = (res, d1, f1)" by (metis prod_cases3)
  have keeps: "fd_retries d1 = fd_retries d - 1" "fd_mode d1 = fd_mode d"
    using attempt_keeps [of os "net k" ?d f] a by simp_all
  have fr: "fs_get f1 q = fs_get f q" using attempt_frame [of ?d p q os "net k" f] Suc.prems assms(2) a by simp
  have "fs_get (snd (snd (download_loop os net (Suc k) (d1, f1)))) q = fs_get f1 q"
    using Suc.hyps(1) [of d1] Suc.hyps(2) keeps unat_minus_one [OF r] Suc.prems by simp
  then show ?case using r a fr
    by (subst download_loop.simps) (auto simp: Let_def split: sum.splits DownloadAttemptError.splits)
qed

subsection \<open>Properties\<close>

text \<open>
  A download that succeeds is complete. It is the body of one of at most three replies, its length
  (modulo \<open>2 ^ 64\<close>) is the announced length the downloader reports, which is not above the limit, and a
  file download leaves exactly that body in the file.
\<close>

theorem download_complete:
  assumes "download os net (d, f) = (Inr data, d', f')" "fd_mode d = File_mode p"
  shows "\<exists>j resp t. j < unat (fd_retries d) \<and> net j = Inr resp
    \<and> fs_get f' p = Some (File (body_text (rp_chunks resp)) t)
    \<and> 0 \<le> fd_content_length d'
    \<and> int (length (body_text (rp_chunks resp)) mod 2 ^ 64) = fd_content_length d'
    \<and> (\<forall>m. fd_max_content_length d = Some m \<longrightarrow> fd_content_length d' \<le> int (unat m))"
  using assms by (rule download_body)

definition sample_net :: dl_net where
  "sample_net k = (if k = 0 then Inl ''reset''
     else Inr \<lparr>rp_status = 200, rp_length = Some 3, rp_chunks = [Inr ''a'', Inr ''bc'']\<rparr>)"

definition sample_download :: "FileDownloader \<times> fs" where
  "sample_download = (set_max_content_length 3 (FileDownloader_new (File_mode [''d'', ''x''])), [([''d''], Dir)])"

lemma sample_download_result:
  "download sample_os sample_net sample_download
     = (Inr None, \<lparr>fd_retries = 1, fd_mode = File_mode [''d'', ''x''], fd_max_content_length = Some 3, fd_content_length = 3\<rparr>,
        [([''d''], Dir), ([''d'', ''x''], File ''abc'' 1000)])"
proof -
  have l: "as_i32 3 = 3" by (simp add: as_i32_def)
  show ?thesis unfolding download_def sample_download_def
    by (subst download_loop.simps, subst download_loop.simps)
      (simp add: attempt_download_def sample_net_def set_max_content_length_def FileDownloader_new_def l
        fs_write_def fs_append_def sample_os_def parent_def is_dir_def)
qed

theorem download_complete_witness:
  "\<exists>resp t. sample_net 1 = Inr resp
    \<and> fs_get (snd (snd (download sample_os sample_net sample_download))) [''d'', ''x''] = Some (File (body_text (rp_chunks resp)) t)"
proof -
  have "\<exists>j resp t. j < unat (3::u32) \<and> sample_net j = Inr resp
     \<and> fs_get [([''d''], Dir), ([''d'', ''x''], File ''abc'' 1000)] [''d'', ''x''] = Some (File (body_text (rp_chunks resp)) t)"
    using download_complete [of sample_os sample_net "fst sample_download" "snd sample_download"] sample_download_result
    by (fastforce simp: sample_download_def set_max_content_length_def FileDownloader_new_def)
  then show ?thesis unfolding sample_download_result by (auto simp: sample_net_def split: if_splits)
qed

text \<open>
  The size limit can be passed. The announced length is cut to 32 bits before it is compared with
  the limit, so a reply that announces \<open>2 ^ 32\<close> bytes passes a limit of zero, and its whole body is
  written to the file before the attempt fails as incomplete.
\<close>

theorem announced_length_truncated:
  "attempt_download sample_os (Inr \<lparr>rp_status = 200, rp_length = Some 4294967296, rp_chunks = [Inr ''abc'']\<rparr>)
     (set_max_content_length 0 (FileDownloader_new (File_mode [''d'', ''x''])), [([''d''], Dir)])
   = (Inl (Retryable (Network ''incomplete'')), set_max_content_length 0 (FileDownloader_new (File_mode [''d'', ''x''])),
      [([''d''], Dir), ([''d'', ''x''], File ''abc'' 1000)])"
proof -
  have "as_i32 4294967296 = 0" by (simp add: as_i32_def)
  then show ?thesis
    by (simp add: attempt_download_def set_max_content_length_def FileDownloader_new_def
        fs_write_def fs_append_def sample_os_def parent_def is_dir_def)
qed

end
