(* ===== verification/Hath_RpcClient.thy ===== *)
theory Hath_RpcClient
  imports Hath_Router Hath_Shutdown Hath_Cache
begin

text \<open>
  RPC calls, \<^verbatim>\<open>src/src/rpc_client.rs\<close>: the request with its three attempts, a call with the retry
  after an expired key, the operations built on it, the heartbeat, and the two fetches of the
  blacklist (\<^verbatim>\<open>src/src/cache/blacklist.rs\<close>). The world around the client is a record of parameters: the
  URL library, SHA-1, the clock, the answers of the network (the n-th request of a URL) and the
  numbers the random generator draws.
\<close>

subsection \<open>The world\<close>

text \<open>What one HTTP request gives: a transport error, or a status and the body (or an error reading it).\<close>

datatype http_reply = Send_error string | Reply u16 "string + string"

record 'u rpc_lib = "'u url_lib" +
  lib_sha1 :: digest
  lib_now :: int
  lib_net :: "nat \<Rightarrow> 'u \<Rightarrow> http_reply"
  lib_rng :: "nat \<Rightarrow> u32"
  lib_status_text :: "u16 \<Rightarrow> string"

record RpcClient =
  rc_config :: Config
  rc_router :: RpcState
  rc_requests :: nat
  rc_draws :: nat

definition RpcClient_new :: "Config \<Rightarrow> RpcClient" where
  "RpcClient_new c = \<lparr>rc_config = c, rc_router = RpcState_default, rc_requests = 0, rc_draws = 0\<rparr>"

record GalleryAck =
  ga_gid :: u32
  ga_minxres :: string

record GalleryFileRequest =
  gr_gid :: u32
  gr_page :: u32
  gr_fileindex :: u32
  gr_xres :: string
  gr_attempt :: u32

datatype GalleryQueueReply = NoPendingDownloads | InvalidRequest | Metadata string

definition KEY_EXPIRED_RETRY_LIMIT :: nat where
  "KEY_EXPIRED_RETRY_LIMIT = 1"

subsection \<open>One request\<close>

datatype RpcStatusAction = ReadBody | Retry | Abort

definition rpc_status_action :: "u16 \<Rightarrow> RpcStatusAction" where
  "rpc_status_action status =
     (if status = 404 then Abort
      else if 400 \<le> status \<and> status < 600 then Retry
      else ReadBody)"

text \<open>
  The attempts that are left, the last error, and the number of requests sent so far. Without an
  attempt there is no error to unwrap.
\<close>

fun send_attempts :: "'u rpc_lib \<Rightarrow> 'u \<Rightarrow> nat \<Rightarrow> string option \<Rightarrow> nat \<Rightarrow> ((string + string) \<times> nat) outcome" where
  "send_attempts lib url 0 last_err k = (case last_err of Some e \<Rightarrow> Done (Inl e, k) | None \<Rightarrow> Panic)"
| "send_attempts lib url (Suc left) last_err k =
     (case lib_net lib k url of
        Reply status body \<Rightarrow>
          (case rpc_status_action status of
             ReadBody \<Rightarrow>
               (case body of
                  Inr b \<Rightarrow> Done (Inr b, Suc k)
                | Inl e \<Rightarrow> send_attempts lib url left (Some e) (Suc k))
           | Retry \<Rightarrow> send_attempts lib url left (Some (''server returned '' @ lib_status_text lib status)) (Suc k)
           | Abort \<Rightarrow> Done (Inl (''server returned '' @ lib_status_text lib status), Suc k))
      | Send_error e \<Rightarrow> send_attempts lib url left (Some e) (Suc k))"

definition send_rpc_request :: "'u rpc_lib \<Rightarrow> 'u \<Rightarrow> RpcClient \<Rightarrow> ((string + string) \<times> RpcClient) run" where
  "send_rpc_request lib url s =
     (case send_attempts lib url 3 None (rc_requests s) of
        Done (r, k) \<Rightarrow> run_return (r, s\<lparr>rc_requests := k\<rparr>)
      | Panic \<Rightarrow> Some Panic
      | Exit \<Rightarrow> Some Exit)"

text \<open>The host of the call, with the two numbers the choice may draw.\<close>

definition pick_host :: "'u rpc_lib \<Rightarrow> RpcClient \<Rightarrow> (string \<times> RpcClient) run" where
  "pick_host lib s =
     run_bind (select_host (lib_rng lib (rc_draws s)) (lib_rng lib (Suc (rc_draws s))) (rc_config s) (rc_router s))
       (\<lambda>(h, r). run_return (h, s\<lparr>rc_router := r, rc_draws := rc_draws s + 2\<rparr>))"

definition fail_host :: "string \<Rightarrow> RpcClient \<Rightarrow> RpcClient" where
  "fail_host host s = s\<lparr>rc_router := mark_failed host (rc_router s)\<rparr>"

definition good_host :: "string \<Rightarrow> RpcClient \<Rightarrow> RpcClient" where
  "good_host host s = s\<lparr>rc_router := mark_success host (rc_router s)\<rparr>"

text \<open>
  What \<^verbatim>\<open>call\<close>, \<^verbatim>\<open>call_stat_inner\<close> and the gallery queue have in common: choose a host, build the URL,
  send the request; a failed request marks the URL's host.
\<close>

definition request_host :: "'u rpc_lib \<Rightarrow> string \<Rightarrow> (Config \<Rightarrow> string \<Rightarrow> 'u res) \<Rightarrow> RpcClient \<Rightarrow> ((string \<times> string) res \<times> RpcClient) run" where
  "request_host lib what make_url s =
     run_bind (pick_host lib s) (\<lambda>(h, s1).
       case make_url (rc_config s1) h of
         Inl e \<Rightarrow> run_return (Inl e, s1)
       | Inr url \<Rightarrow>
           let host = unwrap_or (url_host_str lib url) ''unknown'' in
           run_bind (send_rpc_request lib url s1) (\<lambda>(r, s2).
             case r of
               Inr body \<Rightarrow> run_return (Inr (host, body), s2)
             | Inl e \<Rightarrow> run_return (Inl (Rpc (what @ e)), fail_host host s2)))"

definition rpc_url :: "'u rpc_lib \<Rightarrow> Action \<Rightarrow> string \<Rightarrow> Config \<Rightarrow> string \<Rightarrow> 'u res" where
  "rpc_url lib act add c h = make_rpc_url lib (lib_sha1 lib) (lib_now lib) act add c h"

definition call_stat_inner :: "'u rpc_lib \<Rightarrow> RpcClient \<Rightarrow> (ServerResponse res \<times> RpcClient) run" where
  "call_stat_inner lib s =
     run_bind (request_host lib ''stat request failed: '' (rpc_url lib ServerStat []) s) (\<lambda>(r, s1).
       case r of
         Inl e \<Rightarrow> run_return (Inl e, s1)
       | Inr (host, body) \<Rightarrow> run_return (Inr (parse_server_response body host), s1))"

subsection \<open>A call\<close>

text \<open>Refreshing the server's time after an expired key.\<close>

definition refresh_stat :: "'u rpc_lib \<Rightarrow> RpcClient \<Rightarrow> RpcClient run" where
  "refresh_stat lib s =
     run_bind (call_stat_inner lib s) (\<lambda>(r, s1).
       case r of
         Inl _ \<Rightarrow> run_return s1
       | Inr stat_resp \<Rightarrow>
           if sr_status stat_resp = Status_Ok then
             (case apply_server_response (lib_now lib) stat_resp (rc_config s1) of
                None \<Rightarrow> Some Exit
              | Some c \<Rightarrow> run_return (s1\<lparr>rc_config := c\<rparr>))
           else if sr_status stat_resp = Status_Null
           then run_return (fail_host (unwrap_or (sr_fail_host stat_resp) ''unknown'') s1)
           else run_return s1)"

definition settle :: "string \<Rightarrow> ServerResponse \<Rightarrow> RpcClient \<Rightarrow> RpcClient" where
  "settle host parsed s =
     (if sr_status parsed = Status_Null then fail_host (unwrap_or (sr_fail_host parsed) host) s
      else good_host host s)"

function call_loop :: "'u rpc_lib \<Rightarrow> nat \<Rightarrow> Action \<Rightarrow> string \<Rightarrow> RpcClient \<Rightarrow> (ServerResponse res \<times> RpcClient) run" where
  "call_loop lib retries act add s =
     run_bind (request_host lib ''request failed: '' (rpc_url lib act add) s) (\<lambda>(r, s1).
       case r of
         Inl e \<Rightarrow> run_return (Inl e, s1)
       | Inr (host, body) \<Rightarrow>
           (let parsed = parse_server_response body host in
            if sr_fail_code parsed = Some ''KEY_EXPIRED'' \<and> retries < KEY_EXPIRED_RETRY_LIMIT
               \<and> supports_key_expired_retry act
            then run_bind (refresh_stat lib s1) (\<lambda>s2. call_loop lib (Suc retries) act add s2)
            else run_return (Inr parsed, settle host parsed s1)))"
  by pat_completeness auto
termination
  by (relation "measure (\<lambda>(lib, retries, act, add, s). KEY_EXPIRED_RETRY_LIMIT - retries)") auto

declare call_loop.simps [simp del]

definition call :: "'u rpc_lib \<Rightarrow> Action \<Rightarrow> string \<Rightarrow> RpcClient \<Rightarrow> (ServerResponse res \<times> RpcClient) run" where
  "call lib act add s = call_loop lib 0 act add s"

subsection \<open>The operations\<close>

definition server_stat :: "'u rpc_lib \<Rightarrow> RpcClient \<Rightarrow> (ServerResponse res \<times> RpcClient) run" where
  "server_stat lib = call lib ServerStat []"

definition rpc_client_login :: "'u rpc_lib \<Rightarrow> RpcClient \<Rightarrow> (ServerResponse res \<times> RpcClient) run" where
  "rpc_client_login lib = call lib ClientLogin []"

definition client_start :: "'u rpc_lib \<Rightarrow> RpcClient \<Rightarrow> (ServerResponse res \<times> RpcClient) run" where
  "client_start lib = call lib ClientStart []"

definition client_stop :: "'u rpc_lib \<Rightarrow> RpcClient \<Rightarrow> (ServerResponse res \<times> RpcClient) run" where
  "client_stop lib = call lib ClientStop []"

definition client_suspend :: "'u rpc_lib \<Rightarrow> RpcClient \<Rightarrow> (ServerResponse res \<times> RpcClient) run" where
  "client_suspend lib = call lib ClientSuspend []"

definition client_resume :: "'u rpc_lib \<Rightarrow> RpcClient \<Rightarrow> (ServerResponse res \<times> RpcClient) run" where
  "client_resume lib = call lib ClientResume []"

definition still_alive :: "'u rpc_lib \<Rightarrow> bool \<Rightarrow> RpcClient \<Rightarrow> (ServerResponse res \<times> RpcClient) run" where
  "still_alive lib resume = call lib StillAlive (if resume then ''resume'' else [])"

definition refresh_settings :: "'u rpc_lib \<Rightarrow> RpcClient \<Rightarrow> (ServerResponse res \<times> RpcClient) run" where
  "refresh_settings lib = call lib ClientSettings []"

definition get_blacklist :: "'u rpc_lib \<Rightarrow> u64 \<Rightarrow> RpcClient \<Rightarrow> (ServerResponse res \<times> RpcClient) run" where
  "get_blacklist lib deltatime = call lib GetBlacklist (show_word deltatime)"

definition rpc_notify_overload :: "'u rpc_lib \<Rightarrow> RpcClient \<Rightarrow> (ServerResponse res \<times> RpcClient) run" where
  "rpc_notify_overload lib = call lib Overload []"

definition static_range_fetch :: "'u rpc_lib \<Rightarrow> string \<Rightarrow> string \<Rightarrow> string \<Rightarrow> RpcClient \<Rightarrow> (ServerResponse res \<times> RpcClient) run" where
  "static_range_fetch lib fileindex xres fid =
     call lib StaticRangeFetch (fileindex @ '';'' @ xres @ '';'' @ fid)"

definition fetch_gallery_queue :: "'u rpc_lib \<Rightarrow> GalleryAck option \<Rightarrow> RpcClient \<Rightarrow> (GalleryQueueReply res \<times> RpcClient) run" where
  "fetch_gallery_queue lib ack s =
     (let add = (case ack of Some a \<Rightarrow> show_word (ga_gid a) @ '';'' @ ga_minxres a | None \<Rightarrow> []) in
      run_bind (request_host lib ''gallery queue request failed: ''
                  (make_gallery_queue_url lib (lib_sha1 lib) (lib_now lib) add) s) (\<lambda>(r, s1).
        case r of
          Inl e \<Rightarrow> run_return (Inl e, s1)
        | Inr (host, body) \<Rightarrow>
            let s2 = good_host host s1;
                text = trim_end_matches [CR, LF] body
            in run_return (Inr (if text = ''NO_PENDING_DOWNLOADS'' then NoPendingDownloads
                                else if text = ''INVALID_REQUEST'' then InvalidRequest
                                else Metadata body), s2)))"

definition file_url_of :: "'u rpc_lib \<Rightarrow> ServerResponse \<Rightarrow> 'u res" where
  "file_url_of lib response =
     (if sr_status response \<noteq> Status_Ok
      then Inl (Rpc (''dlfetch failed: '' @ unwrap_or (sr_fail_code response) []))
      else case List.find (\<lambda>line. line \<noteq> []) (sr_lines response) of
             None \<Rightarrow> Inl (Rpc ''dlfetch returned no URL'')
           | Some source \<Rightarrow> (case url_parse lib source of
                               None \<Rightarrow> Inl (Rpc ''invalid dlfetch URL'')
                             | Some u \<Rightarrow> Inr u))"

definition fetch_gallery_file_url :: "'u rpc_lib \<Rightarrow> GalleryFileRequest \<Rightarrow> RpcClient \<Rightarrow> ('u res \<times> RpcClient) run" where
  "fetch_gallery_file_url lib q s =
     (let add = show_word (gr_gid q) @ '';'' @ show_word (gr_page q) @ '';'' @ show_word (gr_fileindex q) @ '';''
                  @ gr_xres q @ '';'' @ show_word (gr_attempt q) in
      run_bind (call lib DownloaderFetch add s) (\<lambda>(r, s1).
        run_return (case r of Inl e \<Rightarrow> Inl e | Inr response \<Rightarrow> file_url_of lib response, s1)))"

definition report_gallery_failures :: "'u rpc_lib \<Rightarrow> string list \<Rightarrow> RpcClient \<Rightarrow> (unit res \<times> RpcClient) run" where
  "report_gallery_failures lib failures s =
     (if failures = [] then run_return (Inr (), s)
      else run_bind (call lib DownloaderFailreport (join_with '';'' failures) s) (\<lambda>(r, s1).
        run_return (case r of
            Inl e \<Rightarrow> Inl e
          | Inr response \<Rightarrow>
              if sr_status response = Status_Ok then Inr ()
              else Inl (Rpc (''dlfails failed: '' @ unwrap_or (sr_fail_code response) [])), s1)))"

subsection \<open>Periodic tasks\<close>

text \<open>One beat: contact is recorded, a misconfigured network ends the process.\<close>

definition heartbeat :: "'u rpc_lib \<Rightarrow> Stats \<Rightarrow> Shutdown \<Rightarrow> RpcClient \<Rightarrow> (Stats \<times> Shutdown \<times> RpcClient) run" where
  "heartbeat lib stats sd s =
     run_bind (still_alive lib False s) (\<lambda>(r, s1).
       case r of
         Inl _ \<Rightarrow> run_return (stats, sd, s1)
       | Inr resp \<Rightarrow>
           if sr_status resp = Status_Ok then run_return (record_server_contact (lib_now lib) stats, sd, s1)
           else let code = unwrap_or (sr_fail_code resp) [] in
             if starts_with ''TERM_BAD_NETWORK'' code
             then run_return (stats, shutdown_fail (Fatal code) sd, s1)
             else run_return (stats, sd, s1))"

definition failure_clearer :: "RpcClient \<Rightarrow> RpcClient" where
  "failure_clearer s = s\<lparr>rc_router := router_clear (rc_router s)\<rparr>"

definition fetch_blacklist :: "'u rpc_lib \<Rightarrow> os \<Rightarrow> u64 \<Rightarrow> RpcClient \<Rightarrow> CacheHandler \<times> fs \<Rightarrow> (RpcClient \<times> CacheHandler \<times> fs) run" where
  "fetch_blacklist lib os deltatime s hf =
     run_bind (get_blacklist lib deltatime s) (\<lambda>(r, s1).
       case r of
         Inr resp \<Rightarrow>
           if sr_status resp = Status_Ok
           then run_return (s1, delete_listed_files os (rc_config s1) (sr_lines resp) hf)
           else run_return (s1, hf)
       | Inl _ \<Rightarrow> run_return (s1, hf))"

definition fetch_initial :: "'u rpc_lib \<Rightarrow> os \<Rightarrow> RpcClient \<Rightarrow> CacheHandler \<times> fs \<Rightarrow> (RpcClient \<times> CacheHandler \<times> fs) run" where
  "fetch_initial lib os s hf = fetch_blacklist lib os 259200 s hf"

definition blacklist_tick :: "'u rpc_lib \<Rightarrow> os \<Rightarrow> RpcClient \<Rightarrow> CacheHandler \<times> fs \<Rightarrow> (RpcClient \<times> CacheHandler \<times> fs) run" where
  "blacklist_tick lib os s hf = fetch_blacklist lib os 43200 s hf"

subsection \<open>Requests end\<close>

lemma send_attempts_done:
  "last_err \<noteq> None \<or> 0 < left \<Longrightarrow>
   \<exists>r k'. send_attempts lib url left last_err k = Done (r, k') \<and> k' \<le> k + left
     \<and> (\<forall>b. r = Inr b \<longrightarrow> (\<exists>j st. lib_net lib j url = Reply st (Inr b)))"
proof (induction left arbitrary: last_err k)
  case 0
  then show ?case by auto
next
  case (Suc left)
  have ih: "\<exists>r k'. send_attempts lib url left (Some e) (Suc k) = Done (r, k') \<and> k' \<le> k + Suc left
     \<and> (\<forall>b. r = Inr b \<longrightarrow> (\<exists>j st. lib_net lib j url = Reply st (Inr b)))" for e
    using Suc.IH [of "Some e" "Suc k"] by auto
  show ?case
  proof (cases "lib_net lib k url")
    case (Send_error e)
    then show ?thesis using ih [of e] by simp
  next
    case (Reply st body)
    then show ?thesis
    proof (cases "rpc_status_action st")
      case ReadBody
      show ?thesis
      proof (cases body)
        case (Inl e)
        then show ?thesis using Reply ReadBody ih [of e] by simp
      next
        case (Inr b)
        then show ?thesis using Reply ReadBody by fastforce
      qed
    qed (use Reply ih in auto)
  qed
qed

lemma request_host_returns:
  assumes "routable (rc_config s)"
  shows "\<exists>r s'. request_host lib what mk s = Some (Done (r, s')) \<and> rc_config s' = rc_config s
    \<and> rc_requests s' \<le> rc_requests s + 3
    \<and> (\<forall>h b. r = Inr (h, b) \<longrightarrow> (\<exists>j st u. lib_net lib j u = Reply st (Inr b)))"
proof -
  obtain h rt where sel: "select_host (lib_rng lib (rc_draws s)) (lib_rng lib (Suc (rc_draws s))) (rc_config s) (rc_router s)
      = Some (Done (h, rt))"
    using select_host_returns [OF assms] by blast
  let ?s1 = "s\<lparr>rc_router := rt, rc_draws := rc_draws s + 2\<rparr>"
  have pick: "pick_host lib s = Some (Done (h, ?s1))" using sel by (simp add: pick_host_def run_return_def)
  show ?thesis
  proof (cases "mk (rc_config s) h")
    case (Inl e)
    then show ?thesis using pick by (simp add: request_host_def run_return_def)
  next
    case (Inr url)
    obtain r k' where "send_attempts lib url 3 None (rc_requests s) = Done (r, k')" "k' \<le> rc_requests s + 3"
      "\<forall>b. r = Inr b \<longrightarrow> (\<exists>j st. lib_net lib j url = Reply st (Inr b))"
      using send_attempts_done [of None 3 lib url "rc_requests s"] by auto
    then show ?thesis using pick Inr
      by (cases r) (auto simp: request_host_def send_rpc_request_def run_return_def fail_host_def Let_def)
  qed
qed

text \<open>No answer of the network configures several servers under one name.\<close>

definition net_keeps_routable :: "'u rpc_lib \<Rightarrow> Config \<Rightarrow> bool" where
  "net_keeps_routable lib c \<longleftrightarrow>
     (\<forall>k u st b h c'. lib_net lib k u = Reply st (Inr b) \<longrightarrow>
        apply_server_response (lib_now lib) (parse_server_response b h) c = Some c' \<longrightarrow> routable c')"

lemma refresh_stat_returns:
  assumes "routable (rc_config s)" "net_keeps_routable lib (rc_config s)"
  shows "refresh_stat lib s = Some Exit \<or> (\<exists>s'. refresh_stat lib s = Some (Done s') \<and> routable (rc_config s')
    \<and> rc_requests s' \<le> rc_requests s + 3)"
proof -
  obtain r s1 where rq: "request_host lib ''stat request failed: '' (rpc_url lib ServerStat []) s = Some (Done (r, s1))"
    "rc_config s1 = rc_config s" "rc_requests s1 \<le> rc_requests s + 3"
    "\<forall>h b. r = Inr (h, b) \<longrightarrow> (\<exists>j st u. lib_net lib j u = Reply st (Inr b))"
    using request_host_returns [OF assms(1)] by blast
  show ?thesis
  proof (cases r)
    case (Inl e)
    then show ?thesis using rq assms(1) by (simp add: refresh_stat_def call_stat_inner_def run_return_def)
  next
    case (Inr hb)
    obtain h b where hb: "hb = (h, b)" by force
    obtain j st u where net: "lib_net lib j u = Reply st (Inr b)" using rq(4) Inr hb by blast
    have "routable c'" if "apply_server_response (lib_now lib) (parse_server_response b h) (rc_config s) = Some c'" for c'
      using assms(2) net that unfolding net_keeps_routable_def by blast
    then show ?thesis using rq Inr hb assms(1)
      by (auto simp: refresh_stat_def call_stat_inner_def run_return_def fail_host_def split: option.splits)
  qed
qed

text \<open>The books after an answered call.\<close>

definition call_books :: "ServerResponse res \<Rightarrow> RpcClient \<Rightarrow> bool" where
  "call_books r s =
     (case r of
        Inl _ \<Rightarrow> True
      | Inr resp \<Rightarrow>
          if sr_status resp = Status_Null then rpc_last_failed (rc_router s) = sr_fail_host resp
          else (\<exists>host. rpc_current (rc_router s) = Some host
                 \<and> (sr_status resp = Status_Fail \<longrightarrow> sr_fail_host resp = Some (to_lowercase host))))"

lemma settle_books: "call_books (Inr (parse_server_response b h)) (settle h (parse_server_response b h) s)"
proof (cases "sr_status (parse_server_response b h)")
  case Status_Null
  then have "sr_fail_host (parse_server_response b h) = Some (to_lowercase h)" using response_shape [of b h] by simp
  then show ?thesis using Status_Null by (simp add: call_books_def settle_def fail_host_def mark_failed_def)
qed (use response_shape [of b h] in \<open>auto simp: call_books_def settle_def good_host_def mark_success_def\<close>)

lemma call_loop_last:
  assumes "routable (rc_config s)" "KEY_EXPIRED_RETRY_LIMIT \<le> retries"
  shows "\<exists>r s'. call_loop lib retries act add s = Some (Done (r, s')) \<and> rc_requests s' \<le> rc_requests s + 3
    \<and> call_books r s'"
proof -
  obtain r s1 where rq: "request_host lib ''request failed: '' (rpc_url lib act add) s = Some (Done (r, s1))"
    "rc_requests s1 \<le> rc_requests s + 3"
    using request_host_returns [OF assms(1)] by blast
  show ?thesis
  proof (cases r)
    case (Inl e)
    then show ?thesis using rq by (subst call_loop.simps) (simp add: run_return_def call_books_def)
  next
    case (Inr hb)
    obtain h b where hb: "hb = (h, b)" by force
    then have "call_loop lib retries act add s = Some (Done (Inr (parse_server_response b h), settle h (parse_server_response b h) s1))"
      using rq Inr assms(2) by (subst call_loop.simps) (simp add: run_return_def Let_def)
    moreover have "rc_requests (settle h x s1) = rc_requests s1" for x
      by (simp add: settle_def fail_host_def good_host_def)
    ultimately show ?thesis using rq settle_books by fastforce
  qed
qed

lemma call_ends:
  assumes "routable (rc_config s)" "net_keeps_routable lib (rc_config s)"
  shows "call lib act add s = Some Exit \<or>
    (\<exists>r s'. call lib act add s = Some (Done (r, s')) \<and> rc_requests s' \<le> rc_requests s + 9 \<and> call_books r s')"
proof -
  obtain r s1 where rq: "request_host lib ''request failed: '' (rpc_url lib act add) s = Some (Done (r, s1))"
    "rc_config s1 = rc_config s" "rc_requests s1 \<le> rc_requests s + 3"
    using request_host_returns [OF assms(1)] by blast
  show ?thesis
  proof (cases r)
    case (Inl e)
    then show ?thesis using rq by (subst (1 2) call_def, subst (1 2) call_loop.simps) (simp add: run_return_def call_books_def)
  next
    case (Inr hb)
    obtain h b where hb: "hb = (h, b)" by force
    let ?p = "parse_server_response b h"
    show ?thesis
    proof (cases "sr_fail_code ?p = Some ''KEY_EXPIRED'' \<and> supports_key_expired_retry act")
      case True
      then have c: "call lib act add s = run_bind (refresh_stat lib s1) (\<lambda>s2. call_loop lib 1 act add s2)"
        unfolding call_def using rq Inr hb by (subst call_loop.simps) (simp add: Let_def KEY_EXPIRED_RETRY_LIMIT_def)
      consider "refresh_stat lib s1 = Some Exit"
        | s2 where "refresh_stat lib s1 = Some (Done s2)" "routable (rc_config s2)" "rc_requests s2 \<le> rc_requests s1 + 3"
        using refresh_stat_returns [of s1 lib] assms rq(2) by auto
      then show ?thesis
      proof cases
        case 1
        then show ?thesis using c by simp
      next
        case 2
        obtain r' s' where "call_loop lib 1 act add s2 = Some (Done (r', s'))" "rc_requests s' \<le> rc_requests s2 + 3"
          "call_books r' s'"
          using call_loop_last [OF 2(2), of 1 lib act add] by (auto simp: KEY_EXPIRED_RETRY_LIMIT_def)
        then show ?thesis using c 2 rq(3) by simp
      qed
    next
      case False
      then have "call lib act add s = Some (Done (Inr ?p, settle h ?p s1))"
        unfolding call_def using rq Inr hb by (subst call_loop.simps) (auto simp: Let_def run_return_def)
      moreover have "rc_requests (settle h ?p s1) = rc_requests s1" by (simp add: settle_def fail_host_def good_host_def)
      ultimately show ?thesis using rq settle_books by simp
    qed
  qed
qed

subsection \<open>Properties\<close>


type_synonym simple_url = "string \<times> u16 option \<times> string \<times> string"

text \<open>A URL library as the documentation describes it: IPv6 hosts are written in brackets.\<close>

definition bracketed :: "IpAddr \<Rightarrow> string" where
  "bracketed ip = (case ip of V4 _ _ _ _ \<Rightarrow> show_ip ip | V6 _ \<Rightarrow> ''['' @ show_ip ip @ '']'')"

definition sample_lib :: "simple_url rpc_lib" where
  "sample_lib = \<lparr>
     url_parse = (\<lambda>s. Some (s, None, [], [])),
     url_set_ip_host = (\<lambda>ip (_, p, q, r). Some (bracketed ip, p, q, r)),
     url_set_host = (\<lambda>h (_, p, q, r). Some (h, p, q, r)),
     url_set_port = (\<lambda>p (h, _, q, r). Some (h, p, q, r)),
     url_set_path = (\<lambda>q (h, p, _, r). (h, p, q, r)),
     url_set_query = (\<lambda>r (h, p, q, _). (h, p, q, r)),
     url_host_str = (\<lambda>(h, _). Some h),
     lib_sha1 = (\<lambda>s. replicate 20 0),
     lib_now = 1000,
     lib_net = (\<lambda>k u. Reply 200 (Inr (if k = 0 then ''KEY_EXPIRED'' @ [LF] else ''OK'' @ [LF]))),
     lib_rng = (\<lambda>k. of_nat k),
     lib_status_text = show_word\<rparr>"

lemma sample_net_routable: "routable c \<Longrightarrow> net_keeps_routable sample_lib c"
  by (auto simp: net_keeps_routable_def sample_lib_def apply_server_response_def parse_server_response_def
      lines_def strip_cr_def starts_with_def split: if_splits)


subsection \<open>IPv6 servers\<close>

lemma show_hex_chars: "ch \<in> set (show_hex n) \<Longrightarrow> is_lower_hex ch"
proof (induction n rule: show_hex.induct)
  case (1 n)
  show ?case
  proof (cases "n < 16")
    case True
    then show ?thesis using "1.prems" by (subst (asm) show_hex.simps) (simp add: hex_digit_lower)
  next
    case False
    then have "ch \<in> set (show_hex (n div 16)) \<or> ch = hex_digit (n mod 16)"
      using "1.prems" by (subst (asm) show_hex.simps) auto
    then show ?thesis using 1 False by (auto simp: hex_digit_lower)
  qed
qed

lemma join_with_mem: "ch \<in> set (join_with sep xs) \<Longrightarrow> ch \<in> set sep \<or> (\<exists>x \<in> set xs. ch \<in> set x)"
  by (induction sep xs rule: join_with.induct) auto

lemma bracket_classes: "\<not> is_lower_hex CHR ''[''" "\<not> is_ascii_digit CHR ''[''"
  by (simp_all add: char_eval)

lemma show_ip_no_bracket: "CHR ''['' \<notin> set (show_ip ip)"
proof -
  have v4: "CHR ''['' \<notin> set (show_ipv4 a b c d)" for a b c d
    using show_nat_no_char [OF bracket_classes(2)] join_with_mem by (fastforce simp: show_ipv4_def)
  have g: "CHR ''['' \<notin> set (show_groups gs)" for gs
    using show_hex_chars bracket_classes(1) join_with_mem by (fastforce simp: show_groups_def)
  show ?thesis
    by (cases ip) (auto simp: show_ip_def v4 g split: option.splits IpAddr.splits prod.splits)
qed

lemma to_lower_bracket: "to_lower ch = CHR ''['' \<longleftrightarrow> ch = CHR ''[''"
proof -
  have "char_code CHR ''['' = 91" by (simp add: char_code_def)
  moreover have "char_code (to_lower ch) = 91 \<longleftrightarrow> char_code ch = 91"
    by (auto simp: char_code_to_lower is_ascii_upper_def)
  ultimately show ?thesis by (metis char_code_inject)
qed

lemma host_name_no_bracket: "host_name ip \<noteq> CHR ''['' # t"
proof
  assume "host_name ip = CHR ''['' # t"
  then have "CHR ''['' \<in> to_lower ` set (show_ip ip)" unfolding host_name_def by (metis list.set_intros(1) set_map)
  then obtain ch where "ch \<in> set (show_ip ip)" "CHR ''['' = to_lower ch" by (rule imageE)
  then show False using show_ip_no_bracket [of ip] to_lower_bracket [of ch] by simp
qed

text \<open>
  Marking an IPv6 server as failed has no effect. The URL library writes its host in brackets, and
  that is the text the router is given; it equals the name of no configured server. So a server that
  just failed is chosen as if nothing had failed, and a server that just answered is never kept as
  the current one.
\<close>

theorem bracketed_host_ignored:
  "choose_host r1 r2 c (rpc_last_failed (mark_failed (bracketed (V6 gs)) s)) = choose_host r1 r2 c None
   \<and> run_bind (select_host r1 r2 c (mark_success (bracketed (V6 gs)) s)) (\<lambda>(h, s'). run_return (h, rpc_current s'))
     = run_bind (choose_host r1 r2 c (rpc_last_failed s)) (\<lambda>h. run_return (h, None))"
proof -
  let ?b = "bracketed (V6 gs)"
  have nb: "host_name ip \<noteq> ?b" for ip using host_name_no_bracket [of ip] by (simp add: bracketed_def)
  then have nb': "(Some ?b = Some (host_name ip)) = False" for ip by (metis option.inject)
  have loop: "choose_loop ss (Some ?b) dir idx = choose_loop ss None dir idx" for ss dir idx
    by (subst (1 2) choose_loop.simps) (simp only: Let_def nb' option.distinct if_False)
  have "choose_host r1 r2 c (Some ?b) = choose_host r1 r2 c None" by (simp add: choose_host_def loop)
  moreover have "\<not> host_is_configured c ?b" using nb by (auto simp: host_is_configured_def list_ex_iff)
  ultimately show ?thesis
    by (auto simp: mark_failed_def mark_success_def select_host_def run_bind_def run_return_def
        split: option.splits outcome.splits)
qed

end
