(* ===== verification/Hath_Gallery.thy ===== *)
theory Hath_Gallery
  imports Hath_Metadata Hath_Downloader Hath_RpcClient
begin

text \<open>
  The gallery downloader, \<^verbatim>\<open>src/src/gallery_downloader.rs\<close>: one file, one gallery with its rounds and
  its failure budget, the queue, and the single-flight supervisor. Time passes in ticks: at every
  point where the code looks at the outside world (the shutdown token, the file system's answers, a
  new transfer) the counter \<open>gw_clock\<close> selects what it sees.
\<close>

definition MAX_GALLERY_ROUNDS :: nat where
  "MAX_GALLERY_ROUNDS = 10"

definition MAX_REPORTED_FAILURES :: nat where
  "MAX_REPORTED_FAILURES = 50"

record gallery_world =
  gw_rpc :: RpcClient
  gw_stats :: Stats
  gw_fs :: fs
  gw_clock :: nat

text \<open>The surroundings: RPC, operating system, shutdown token and transfers at each tick.\<close>

record 'u gallery_env =
  ge_lib :: "'u rpc_lib"
  ge_os :: "nat \<Rightarrow> os"
  ge_cancelled :: "nat \<Rightarrow> bool"
  ge_transfer :: "nat \<Rightarrow> bool \<Rightarrow> 'u \<Rightarrow> dl_net"

definition tick :: "gallery_world \<Rightarrow> gallery_world" where
  "tick w = w\<lparr>gw_clock := Suc (gw_clock w)\<rparr>"

definition now_os :: "'u gallery_env \<Rightarrow> gallery_world \<Rightarrow> os" where
  "now_os env w = ge_os env (gw_clock w)"

definition ensure_not_shutdown :: "'u gallery_env \<Rightarrow> gallery_world \<Rightarrow> unit res" where
  "ensure_not_shutdown env w = (if ge_cancelled env (gw_clock w) then Inl Shutdown_requested else Inr ())"

text \<open>A delay ends early with an error when the token is cancelled.\<close>

definition delay :: "'u gallery_env \<Rightarrow> gallery_world \<Rightarrow> unit res" where
  "delay env w = (if ge_cancelled env (gw_clock w) then Inl Shutdown_requested else Inr ())"

subsection \<open>One file\<close>

datatype DownloadOne = Downloaded | AlreadyPresent | Failed "string option"

definition verify_file_sha1 :: "digest \<Rightarrow> os \<Rightarrow> fs \<Rightarrow> path \<Rightarrow> Sha1Hash \<Rightarrow> bool res" where
  "verify_file_sha1 sha1 os f p expected =
     (case fs_read os f p of
        Inl _ \<Rightarrow> Inl (Io ''open'')
      | Inr c \<Rightarrow> Inr (sha1_bytes sha1 c = sha1_str expected))"

definition existing_file_is_valid :: "digest \<Rightarrow> os \<Rightarrow> fs \<Rightarrow> path \<Rightarrow> Sha1Hash option \<Rightarrow> bool res" where
  "existing_file_is_valid sha1 os f p expected =
     (case fs_get f p of
        None \<Rightarrow> Inr False
      | Some n \<Rightarrow>
          if os_denied os Stat p then Inl (Io ''metadata'')
          else (case n of
                  Dir \<Rightarrow> Inr False
                | File c _ \<Rightarrow>
                    if c = [] then Inr False
                    else (case expected of
                            None \<Rightarrow> Inr True
                          | Some e \<Rightarrow> verify_file_sha1 sha1 os f p e)))"

definition source_failure_key :: "('u, 'z) url_lib_scheme \<Rightarrow> 'u \<Rightarrow> GalleryFile \<Rightarrow> string option" where
  "source_failure_key lib source gf =
     map_option (\<lambda>host. host @ ''-'' @ show_word (gf_fileindex gf) @ ''-'' @ gf_xres gf) (url_host_str lib source)"

definition drop_part :: "'u gallery_env \<Rightarrow> path \<Rightarrow> gallery_world \<Rightarrow> gallery_world" where
  "drop_part env p w = w\<lparr>gw_fs := remove_file (now_os env w) (gw_fs w) p\<rparr>"

text \<open>The transfer into the part file and its acceptance.\<close>

definition fetch_into :: "'u gallery_env \<Rightarrow> Config \<Rightarrow> path \<Rightarrow> GalleryFile \<Rightarrow> bool \<Rightarrow> 'u \<Rightarrow> gallery_world
    \<Rightarrow> DownloadOne res \<times> gallery_world" where
  "fetch_into env c target gf proxied source w0 =
     (let part = part_path target;
          w1 = tick (drop_part env part w0);
          failed = Inr (Failed (source_failure_key (ge_lib env) source gf));
          d = set_max_content_length (cfg_max_allowed_filesize c) (FileDownloader_new (File_mode part))
      in if ge_cancelled env (gw_clock w1) then (Inl Shutdown_requested, w1)
         else case download (now_os env w1) (ge_transfer env (gw_clock w1) proxied source) (d, gw_fs w1) of
             (Inl _, d1, f1) \<Rightarrow> (failed, drop_part env part (w1\<lparr>gw_fs := f1\<rparr>))
           | (Inr _, d1, f1) \<Rightarrow>
               let w2 = w1\<lparr>gw_fs := f1\<rparr>;
                   content_length = fd_content_length d1
               in (case (if 0 < content_length
                         then (case gf_expected_sha1 gf of
                                 Some expected \<Rightarrow> verify_file_sha1 (lib_sha1 (ge_lib env)) (now_os env w2) f1 part expected
                               | None \<Rightarrow> Inr True)
                         else Inr False) of
                     Inl e \<Rightarrow> (Inl e, w2)
                   | Inr verified \<Rightarrow>
                       if \<not> verified then (failed, drop_part env part w2)
                       else (case fs_rename (now_os env w2) f1 part target of
                               Inl _ \<Rightarrow> (failed, drop_part env part w2)
                             | Inr f2 \<Rightarrow>
                                 (Inr Downloaded,
                                  w2\<lparr>gw_fs := f2,
                                     gw_stats := record_bytes_rcvd (word_of_int content_length) (record_file_rcvd (gw_stats w2))\<rparr>))))"

definition download_file :: "'u gallery_env \<Rightarrow> Config \<Rightarrow> u32 \<Rightarrow> path \<Rightarrow> GalleryFile \<Rightarrow> u32 \<Rightarrow> bool \<Rightarrow> gallery_world
    \<Rightarrow> (DownloadOne res \<times> gallery_world) run" where
  "download_file env c gid gallery_dir gf attempt proxied w0 =
     (let target = path_join gallery_dir (render_name gf);
          w = tick w0
      in case existing_file_is_valid (lib_sha1 (ge_lib env)) (now_os env w) (gw_fs w) target (gf_expected_sha1 gf) of
           Inl e \<Rightarrow> run_return (Inl e, w)
         | Inr True \<Rightarrow> run_return (Inr AlreadyPresent, w)
         | Inr False \<Rightarrow>
             let w1 = drop_part env target w in
             run_bind (fetch_gallery_file_url (ge_lib env)
                 \<lparr>gr_gid = gid, gr_page = gf_page gf, gr_fileindex = gf_fileindex gf, gr_xres = gf_xres gf, gr_attempt = attempt\<rparr>
                 (gw_rpc w1))
               (\<lambda>(r, rpc).
                 let w2 = w1\<lparr>gw_rpc := rpc\<rparr> in
                 case r of
                   Inl _ \<Rightarrow> run_return (Inr (Failed None), w2)
                 | Inr source \<Rightarrow> run_return (fetch_into env c target gf proxied source w2)))"

subsection \<open>One gallery\<close>

record gallery_progress =
  gp_complete :: "bool list"
  gp_attempts :: "u32 list"
  gp_failures :: nat
  gp_sources :: "string list"

definition progress_init :: "nat \<Rightarrow> gallery_progress" where
  "progress_init n = \<lparr>gp_complete = replicate n False, gp_attempts = replicate n 0, gp_failures = 0, gp_sources = []\<rparr>"

definition note_failure :: "string option \<Rightarrow> gallery_progress \<Rightarrow> gallery_progress" where
  "note_failure source_failure p =
     (let p1 = p\<lparr>gp_failures := Suc (gp_failures p)\<rparr> in
      case source_failure of
        Some failure \<Rightarrow>
          if length (gp_sources p1) < MAX_REPORTED_FAILURES \<and> failure \<notin> set (gp_sources p1)
          then p1\<lparr>gp_sources := gp_sources p1 @ [failure]\<rparr> else p1
      | None \<Rightarrow> p1)"

definition after_delay :: "'u gallery_env \<Rightarrow> gallery_progress \<Rightarrow> gallery_world \<Rightarrow> gallery_progress res \<times> gallery_world" where
  "after_delay env p w = (let w1 = tick w in (case delay env w1 of Inl e \<Rightarrow> Inl e | Inr _ \<Rightarrow> Inr p, w1))"

definition file_outcome :: "'u gallery_env \<Rightarrow> nat \<Rightarrow> gallery_progress \<Rightarrow> DownloadOne res \<Rightarrow> gallery_world
    \<Rightarrow> gallery_progress res \<times> gallery_world" where
  "file_outcome env index p r w =
     (case r of
        Inl e \<Rightarrow> (Inl e, w)
      | Inr Downloaded \<Rightarrow> after_delay env (p\<lparr>gp_complete := (gp_complete p)[index := True]\<rparr>) w
      | Inr AlreadyPresent \<Rightarrow> (Inr (p\<lparr>gp_complete := (gp_complete p)[index := True]\<rparr>), w)
      | Inr (Failed source_failure) \<Rightarrow> after_delay env (note_failure source_failure p) w)"

text \<open>The body of the loop over the files of a round.\<close>

definition file_step :: "'u gallery_env \<Rightarrow> Config \<Rightarrow> u32 \<Rightarrow> path \<Rightarrow> nat \<times> GalleryFile
    \<Rightarrow> gallery_progress \<times> gallery_world \<Rightarrow> (gallery_progress res \<times> gallery_world) run" where
  "file_step env c gid gallery_dir ifile pw =
     (case (ifile, pw) of ((index, gf), (p, w0)) \<Rightarrow>
      let w = tick w0 in
      case ensure_not_shutdown env w of
        Inl e \<Rightarrow> run_return (Inl e, w)
      | Inr _ \<Rightarrow>
          if gp_complete p ! index then run_return (Inr p, w)
          else if has_low_space (now_os env w) c then run_return (after_delay env p w)
          else
            let attempts = gp_attempts p ! index + 1;
                p1 = p\<lparr>gp_attempts := (gp_attempts p)[index := attempts]\<rparr>;
                proxied = (attempts \<noteq> 1 \<and> cfg_image_proxy_host c \<noteq> None)
            in run_bind (download_file env c gid gallery_dir gf attempts proxied w)
                 (\<lambda>(r, w1). run_return (file_outcome env index p1 r w1)))"

fun round_files :: "'u gallery_env \<Rightarrow> Config \<Rightarrow> u32 \<Rightarrow> path \<Rightarrow> (nat \<times> GalleryFile) list
    \<Rightarrow> gallery_progress \<times> gallery_world \<Rightarrow> (gallery_progress res \<times> gallery_world) run" where
  "round_files env c gid d [] (p, w) = run_return (Inr p, w)"
| "round_files env c gid d (x # xs) pw =
     run_bind (file_step env c gid d x pw) (\<lambda>(r, w).
       case r of Inl e \<Rightarrow> run_return (Inl e, w) | Inr p \<Rightarrow> round_files env c gid d xs (p, w))"

fun rounds :: "'u gallery_env \<Rightarrow> Config \<Rightarrow> u32 \<Rightarrow> path \<Rightarrow> GalleryFile list \<Rightarrow> nat
    \<Rightarrow> gallery_progress \<times> gallery_world \<Rightarrow> (gallery_progress res \<times> gallery_world) run" where
  "rounds env c gid d files 0 (p, w) = run_return (Inr p, w)"
| "rounds env c gid d files (Suc n) (p, w) =
     (if list_all id (gp_complete p) \<or> length files * 2 \<le> gp_failures p then run_return (Inr p, w)
      else run_bind (round_files env c gid d (enumerate 0 files) (p, w)) (\<lambda>(r, w1).
        case r of Inl e \<Rightarrow> run_return (Inl e, w1) | Inr p1 \<Rightarrow> rounds env c gid d files n (p1, w1)))"

record FinishedGallery =
  fg_ack :: GalleryAck
  fg_successful :: bool
  fg_failures :: "string list"

definition finish_gallery :: "'u gallery_env \<Rightarrow> path \<Rightarrow> GalleryMetadata \<Rightarrow> gallery_progress \<Rightarrow> gallery_world
    \<Rightarrow> FinishedGallery \<times> gallery_world" where
  "finish_gallery env d m p w =
     (let successful = list_all id (gp_complete p);
          w1 = (if successful
                then w\<lparr>gw_fs := snd (fs_write (now_os env w) (gw_fs w) (d @ [''galleryinfo.txt'']) (gm_information m))\<rparr>
                else w)
      in (\<lparr>fg_ack = \<lparr>ga_gid = gm_gid m, ga_minxres = gm_minxres m\<rparr>, fg_successful = successful, fg_failures = gp_sources p\<rparr>, w1))"

definition download_gallery :: "'u gallery_env \<Rightarrow> GalleryMetadata \<Rightarrow> gallery_world \<Rightarrow> (FinishedGallery res \<times> gallery_world) run" where
  "download_gallery env m w =
     (let c = rc_config (gw_rpc w) in
      case create_gallery_dir (now_os env w) (gw_fs w) c m of
        (Inl e, f1) \<Rightarrow> run_return (Inl e, w\<lparr>gw_fs := f1\<rparr>)
      | (Inr d, f1) \<Rightarrow>
          (case image_proxy (ge_lib env) c of
             Inl e \<Rightarrow> run_return (Inl e, w\<lparr>gw_fs := f1\<rparr>)
           | Inr _ \<Rightarrow>
               run_bind (rounds env c (gm_gid m) d (gm_files m) MAX_GALLERY_ROUNDS
                   (progress_init (length (gm_files m)), w\<lparr>gw_fs := f1\<rparr>)) (\<lambda>(r, w1).
                 case r of
                   Inl e \<Rightarrow> run_return (Inl e, w1)
                 | Inr p \<Rightarrow> (case finish_gallery env d m p w1 of (fin, w2) \<Rightarrow> run_return (Inr fin, w2)))))"

subsection \<open>The queue\<close>

lemma run_bind_mono [partial_function_mono]:
  assumes "mono_option B" "\<And>y. mono_option (\<lambda>f. C y f)"
  shows "mono_option (\<lambda>f. run_bind (B f) (\<lambda>y. C y f))"
proof -
  have eq: "run_bind m g = Option.bind m (\<lambda>x. case x of Done y \<Rightarrow> g y | Panic \<Rightarrow> Some Panic | Exit \<Rightarrow> Some Exit)" for m g
    by (auto simp: run_bind_def split: option.splits outcome.splits)
  have "mono_option (\<lambda>f. case y of Done z \<Rightarrow> C z f | Panic \<Rightarrow> Some Panic | Exit \<Rightarrow> Some Exit)" for y
    by (cases y) (simp_all add: assms(2) option.const_mono)
  then show ?thesis unfolding eq by (rule bind_mono [OF assms(1)])
qed

record GalleryRunReport =
  grr_completed :: u32
  grr_failed :: u32

definition report_previous :: "'u gallery_env \<Rightarrow> FinishedGallery option \<Rightarrow> gallery_world \<Rightarrow> gallery_world run" where
  "report_previous env previous w =
     (case previous of
        Some fin \<Rightarrow>
          if fg_failures fin \<noteq> []
          then run_bind (report_gallery_failures (ge_lib env) (fg_failures fin) (gw_rpc w))
                 (\<lambda>(r, rpc). run_return (w\<lparr>gw_rpc := rpc\<rparr>))
          else run_return w
      | None \<Rightarrow> run_return w)"

definition count_gallery :: "FinishedGallery \<Rightarrow> GalleryRunReport \<Rightarrow> GalleryRunReport" where
  "count_gallery fin report =
     (if fg_successful fin then report\<lparr>grr_completed := grr_completed report + 1\<rparr>
      else report\<lparr>grr_failed := grr_failed report + 1\<rparr>)"

text \<open>The loop ends when the server says so; it may never.\<close>

partial_function (option) queue_loop :: "'u gallery_env \<Rightarrow> GalleryRunReport \<Rightarrow> FinishedGallery option \<Rightarrow> gallery_world
    \<Rightarrow> (GalleryRunReport res \<times> gallery_world) run" where
  "queue_loop env report previous w0 =
     (let w = tick w0 in
      case ensure_not_shutdown env w of
        Inl e \<Rightarrow> run_return (Inl e, w)
      | Inr _ \<Rightarrow>
          run_bind (report_previous env previous w) (\<lambda>w1.
          run_bind (fetch_gallery_queue (ge_lib env) (map_option fg_ack previous) (gw_rpc w1)) (\<lambda>(r, rpc).
            let w2 = w1\<lparr>gw_rpc := rpc\<rparr> in
            case r of
              Inl e \<Rightarrow> run_return (Inl e, w2)
            | Inr NoPendingDownloads \<Rightarrow> run_return (Inr report, w2)
            | Inr InvalidRequest \<Rightarrow> run_return (Inl (Rpc ''gallery queue rejected request''), w2)
            | Inr (Metadata raw) \<Rightarrow>
                (case parse_gallery_metadata raw of
                   None \<Rightarrow> Some Panic
                 | Some (Inl e) \<Rightarrow> run_return (Inr report, w2)
                 | Some (Inr m) \<Rightarrow>
                     run_bind (download_gallery env m w2) (\<lambda>(r2, w3).
                       case r2 of
                         Inl e \<Rightarrow> run_return (Inl e, w3)
                       | Inr fin \<Rightarrow> queue_loop env (count_gallery fin report) (Some fin) w3)))))"

definition run_until_idle :: "'u gallery_env \<Rightarrow> gallery_world \<Rightarrow> (GalleryRunReport res \<times> gallery_world) run" where
  "run_until_idle env w = queue_loop env \<lparr>grr_completed = 0, grr_failed = 0\<rparr> None w"

subsection \<open>The supervisor\<close>

datatype StartOutcome = Started | AlreadyRunning | Stopping

record GalleryDownloadSupervisor =
  gs_active :: bool
  gs_tasks :: TransferTasks

text \<open>Starting: one runner at a time, none once the process stops.\<close>

definition start :: "bool \<Rightarrow> GalleryDownloadSupervisor \<Rightarrow> StartOutcome \<times> GalleryDownloadSupervisor" where
  "start cancelled s =
     (if cancelled then (Stopping, s)
      else if gs_active s then (AlreadyRunning, s)
      else case spawn (gs_tasks s) of
          (True, t) \<Rightarrow> (Started, s\<lparr>gs_active := True, gs_tasks := t\<rparr>)
        | (False, t) \<Rightarrow> (Stopping, s\<lparr>gs_active := False, gs_tasks := t\<rparr>))"

text \<open>The end of the runner, also by a panic or an abort: the guard resets the flag.\<close>

definition active_run_drop :: "GalleryDownloadSupervisor \<Rightarrow> GalleryDownloadSupervisor" where
  "active_run_drop s = s\<lparr>gs_active := False\<rparr>"

subsection \<open>What a file's download changes\<close>

definition valid_target :: "digest \<Rightarrow> fs \<Rightarrow> path \<Rightarrow> Sha1Hash option \<Rightarrow> bool" where
  "valid_target sha1 f p expected \<longleftrightarrow>
     (case fs_get f p of
        Some (File c _) \<Rightarrow> c \<noteq> [] \<and> (case expected of None \<Rightarrow> True | Some e \<Rightarrow> sha1_bytes sha1 c = sha1_str e)
      | _ \<Rightarrow> False)"

lemma existing_valid: "existing_file_is_valid sha1 os f p expected = Inr True \<Longrightarrow> valid_target sha1 f p expected"
  by (auto simp: existing_file_is_valid_def valid_target_def verify_file_sha1_def fs_read_def
      split: option.splits node.splits if_splits sum.splits)

lemma world_fs [simp]:
  "gw_fs (tick w) = gw_fs w" "gw_fs (drop_part env p w) = remove_file (now_os env w) (gw_fs w) p"
  by (simp_all add: tick_def drop_part_def)

lemma remove_file_frame: "q \<noteq> p \<Longrightarrow> fs_get (remove_file os f p) q = fs_get f q"
  by (simp add: remove_file_get)

lemma fetch_into_frame:
  assumes "q \<noteq> target" "q \<noteq> part_path target"
  shows "fs_get (gw_fs (snd (fetch_into env c target gf proxied source w))) q = fs_get (gw_fs w) q"
proof -
  let ?part = "part_path target"
  let ?w = "tick (drop_part env ?part w)"
  let ?d = "set_max_content_length (cfg_max_allowed_filesize c) (FileDownloader_new (File_mode ?part))"
  obtain r d1 f1 where dl: "download (now_os env ?w) (ge_transfer env (gw_clock ?w) proxied source) (?d, gw_fs ?w) = (r, d1, f1)"
    by (metis prod_cases3)
  have "fd_mode ?d = File_mode ?part" by (simp add: set_max_content_length_def FileDownloader_new_def)
  then have f1: "fs_get f1 q = fs_get (gw_fs w) q"
    using download_loop_frame [OF _ assms(2), of ?d "now_os env ?w" _ 0 "gw_fs ?w"] dl
    by (metis (no_types, lifting) download_def snd_conv world_fs remove_file_frame [OF assms(2)])
  have "fs_get f2 q = fs_get f1 q" if "fs_rename os f1 ?part target = Inr f2" for os f2
    using fs_rename_frame that assms by blast
  then show ?thesis
    unfolding fetch_into_def Let_def dl using f1 assms(2)
    by (auto simp: remove_file_frame split: sum.splits)
qed

lemma fetch_into_downloaded:
  assumes "fetch_into env c target gf proxied source w = (Inr Downloaded, w')"
  shows "valid_target (lib_sha1 (ge_lib env)) (gw_fs w') target (gf_expected_sha1 gf)"
proof -
  let ?part = "part_path target"
  let ?w = "tick (drop_part env ?part w)"
  let ?d = "set_max_content_length (cfg_max_allowed_filesize c) (FileDownloader_new (File_mode ?part))"
  obtain r d1 f1 where dl: "download (now_os env ?w) (ge_transfer env (gw_clock ?w) proxied source) (?d, gw_fs ?w) = (r, d1, f1)"
    by (metis prod_cases3)
  have r: "\<exists>x. r = Inr x" and f2: "\<exists>f2. fs_rename (now_os env (?w\<lparr>gw_fs := f1\<rparr>)) f1 ?part target = Inr f2 \<and> gw_fs w' = f2"
    and pos: "0 < fd_content_length d1"
    and ver: "case gf_expected_sha1 gf of Some e \<Rightarrow>
        verify_file_sha1 (lib_sha1 (ge_lib env)) (now_os env (?w\<lparr>gw_fs := f1\<rparr>)) f1 ?part e = Inr True | None \<Rightarrow> True"
    using assms unfolding fetch_into_def Let_def dl
    by (auto split: sum.splits if_splits option.splits)
  have m: "fd_mode ?d = File_mode ?part" by (simp add: set_max_content_length_def FileDownloader_new_def)
  obtain x where x: "download (now_os env ?w) (ge_transfer env (gw_clock ?w) proxied source) (?d, gw_fs ?w) = (Inr x, d1, f1)"
    using dl r by auto
  obtain resp :: dl_reply and t where body: "fs_get f1 ?part = Some (File (body_text (rp_chunks resp)) t)"
    "int (length (body_text (rp_chunks resp)) mod 2 ^ 64) = fd_content_length d1"
    using download_body [OF x m] by blast
  have "body_text (rp_chunks resp) \<noteq> []" using body(2) pos by auto
  moreover obtain f2 where "fs_rename (now_os env (?w\<lparr>gw_fs := f1\<rparr>)) f1 ?part target = Inr f2" "gw_fs w' = f2" using f2 by blast
  moreover from this have "fs_get f2 target = Some (File (body_text (rp_chunks resp)) t)" using fs_rename_target body(1) by blast
  ultimately show ?thesis using ver body(1)
    by (auto simp: valid_target_def verify_file_sha1_def fs_read_def split: option.splits if_splits)
qed

lemma download_file_cases:
  assumes "download_file env c gid d gf attempt proxied w = Some (Done (r, w'))"
  defines "target \<equiv> path_join d (render_name gf)"
  shows "(w' = tick w \<and> ((\<exists>e. r = Inl e) \<or>
      (r = Inr AlreadyPresent \<and> valid_target (lib_sha1 (ge_lib env)) (gw_fs w) target (gf_expected_sha1 gf))))
    \<or> (\<exists>rpc. r = Inr (Failed None) \<and> w' = (drop_part env target (tick w))\<lparr>gw_rpc := rpc\<rparr>)
    \<or> (\<exists>rpc source. fetch_into env c target gf proxied source ((drop_part env target (tick w))\<lparr>gw_rpc := rpc\<rparr>) = (r, w'))"
proof -
  let ?ex = "existing_file_is_valid (lib_sha1 (ge_lib env)) (now_os env (tick w)) (gw_fs (tick w)) target (gf_expected_sha1 gf)"
  consider e where "?ex = Inl e" | "?ex = Inr True" | "?ex = Inr False"
    by (metis (full_types) sum.exhaust)
  then show ?thesis
  proof cases
    case 3
    obtain x :: "HathError + _" and rpc where "(case x of Inl _ \<Rightarrow> run_return (Inr (Failed None), (drop_part env target (tick w))\<lparr>gw_rpc := rpc\<rparr>)
        | Inr source \<Rightarrow> run_return (fetch_into env c target gf proxied source ((drop_part env target (tick w))\<lparr>gw_rpc := rpc\<rparr>)))
        = Some (Done (r, w'))"
      using assms(1) 3 unfolding download_file_def target_def [symmetric] Let_def by (auto simp: run_bind_Done)
    then show ?thesis by (cases x) (auto simp: run_return_def)
  qed (use assms(1) existing_valid in \<open>auto simp: download_file_def target_def Let_def run_return_def\<close>)
qed

lemma download_file_frame:
  assumes "q \<noteq> path_join d (render_name gf)" "q \<noteq> part_path (path_join d (render_name gf))"
    and "download_file env c gid d gf attempt proxied w = Some (Done (r, w'))"
  shows "fs_get (gw_fs w') q = fs_get (gw_fs w) q"
proof -
  let ?t = "path_join d (render_name gf)"
  consider "w' = tick w" | rpc where "w' = (drop_part env ?t (tick w))\<lparr>gw_rpc := rpc\<rparr>"
    | rpc source where "fetch_into env c ?t gf proxied source ((drop_part env ?t (tick w))\<lparr>gw_rpc := rpc\<rparr>) = (r, w')"
    using download_file_cases [OF assms(3)] by blast
  then show ?thesis
  proof cases
    case 3
    then have "w' = snd (fetch_into env c ?t gf proxied source ((drop_part env ?t (tick w))\<lparr>gw_rpc := rpc\<rparr>))"
      by (metis snd_conv)
    then show ?thesis by (simp add: fetch_into_frame [OF assms(1,2)] remove_file_frame [OF assms(1)])
  qed (simp_all add: remove_file_frame [OF assms(1)])
qed

lemma download_file_valid:
  assumes "download_file env c gid d gf attempt proxied w = Some (Done (Inr r, w'))" "r = Downloaded \<or> r = AlreadyPresent"
  shows "valid_target (lib_sha1 (ge_lib env)) (gw_fs w') (path_join d (render_name gf)) (gf_expected_sha1 gf)"
proof -
  have np: "fetch_into env c t gf p s v \<noteq> (Inr AlreadyPresent, v')" for t p s v v'
    by (auto simp: fetch_into_def Let_def split: prod.splits sum.splits if_splits option.splits)
  show ?thesis using download_file_cases [OF assms(1)] assms(2) fetch_into_downloaded np by (metis DownloadOne.distinct Inr_inject sum.distinct(1) world_fs(1))
qed

subsection \<open>Progress of a gallery\<close>

definition target_of :: "path \<Rightarrow> GalleryFile \<Rightarrow> path" where
  "target_of d gf = path_join d (render_name gf)"

text \<open>No file is stored where another one, or its unfinished part, is stored.\<close>

definition no_clash :: "path \<Rightarrow> GalleryFile list \<Rightarrow> bool" where
  "no_clash d files \<longleftrightarrow> distinct (map (target_of d) files)
     \<and> (\<forall>x \<in> set files. \<forall>y \<in> set files. part_path (target_of d x) \<noteq> target_of d y)"

definition progress_inv :: "digest \<Rightarrow> path \<Rightarrow> GalleryFile list \<Rightarrow> gallery_progress \<times> gallery_world \<Rightarrow> bool" where
  "progress_inv sha1 d files pw = (case pw of (p, w) \<Rightarrow>
     length (gp_complete p) = length files
     \<and> length (gp_sources p) \<le> MAX_REPORTED_FAILURES \<and> distinct (gp_sources p)
     \<and> (\<forall>i < length files. gp_complete p ! i \<longrightarrow>
          valid_target sha1 (gw_fs w) (target_of d (files ! i)) (gf_expected_sha1 (files ! i))))"

lemma valid_target_cong: "fs_get f p = fs_get g p \<Longrightarrow> valid_target sha1 f p e = valid_target sha1 g p e"
  by (simp add: valid_target_def)

lemma progress_inv_world:
  "progress_inv sha1 d files (p, w) \<Longrightarrow> gw_fs w' = gw_fs w \<Longrightarrow> progress_inv sha1 d files (p, w')"
  by (simp add: progress_inv_def)

lemma progress_after_delay:
  assumes "progress_inv sha1 d files (p, w)" "after_delay env p w = (Inr p', w')"
  shows "progress_inv sha1 d files (p', w')"
  using assms by (auto simp: after_delay_def Let_def progress_inv_def split: sum.splits)

lemma progress_note_failure:
  "progress_inv sha1 d files (p, w) \<Longrightarrow> progress_inv sha1 d files (note_failure sf p, w)"
  by (auto simp: progress_inv_def note_failure_def Let_def split: option.splits)

lemma progress_attempts:
  "progress_inv sha1 d files (p\<lparr>gp_attempts := a\<rparr>, w) = progress_inv sha1 d files (p, w)"
  by (simp add: progress_inv_def)

text \<open>One file's download keeps the finished files.\<close>

lemma progress_download:
  assumes "no_clash d files" "i < length files" "\<not> gp_complete p ! i" "progress_inv sha1 d files (p, w)"
    and "download_file env c gid d (files ! i) attempt proxied w = Some (Done (r, w'))"
  shows "progress_inv sha1 d files (p, w')"
proof -
  have keep: "fs_get (gw_fs w') (target_of d (files ! j)) = fs_get (gw_fs w) (target_of d (files ! j))"
    if "j < length files" "j \<noteq> i" for j
  proof (rule download_file_frame [OF _ _ assms(5)])
    show "target_of d (files ! j) \<noteq> path_join d (render_name (files ! i))"
      using assms(1,2) that by (auto simp: no_clash_def target_of_def [symmetric] distinct_conv_nth)
    show "target_of d (files ! j) \<noteq> part_path (path_join d (render_name (files ! i)))"
      using assms(1) nth_mem [OF assms(2)] nth_mem [OF that(1)]
      unfolding no_clash_def target_of_def [symmetric] by metis
  qed
  have "valid_target sha1 (gw_fs w') (target_of d (files ! j)) (gf_expected_sha1 (files ! j))"
    if "j < length files" "gp_complete p ! j" for j
  proof -
    have "j \<noteq> i" using that(2) assms(3) by auto
    then show ?thesis using assms(4) that valid_target_cong [OF keep [OF that(1)]] by (simp add: progress_inv_def)
  qed
  then show ?thesis using assms(4) by (simp add: progress_inv_def)
qed

lemma progress_complete:
  assumes "progress_inv sha1 d files (p, w)"
    and "valid_target sha1 (gw_fs w) (target_of d (files ! i)) (gf_expected_sha1 (files ! i))"
  shows "progress_inv sha1 d files (p\<lparr>gp_complete := (gp_complete p)[i := True]\<rparr>, w)"
proof -
  have "valid_target sha1 (gw_fs w) (target_of d (files ! j)) (gf_expected_sha1 (files ! j))"
    if "j < length files" "(gp_complete p)[i := True] ! j" for j
    using that assms by (cases "j = i") (auto simp: progress_inv_def)
  then show ?thesis using assms(1) by (simp add: progress_inv_def)
qed

lemma file_step_inv:
  assumes "no_clash d files" "i < length files" "progress_inv (lib_sha1 (ge_lib env)) d files (p, w)"
    and "file_step env c gid d (i, files ! i) (p, w) = Some (Done (Inr p', w'))"
  shows "progress_inv (lib_sha1 (ge_lib env)) d files (p', w')"
proof -
  let ?inv = "progress_inv (lib_sha1 (ge_lib env)) d files"
  let ?a = "gp_attempts p ! i + 1"
  let ?p = "p\<lparr>gp_attempts := (gp_attempts p)[i := ?a]\<rparr>"
  let ?proxied = "?a \<noteq> 1 \<and> cfg_image_proxy_host c \<noteq> None"
  have inv: "?inv (p, tick w)" by (rule progress_inv_world [OF assms(3)]) simp
  consider "p' = p" "w' = tick w" | "after_delay env p (tick w) = (Inr p', w')"
    | r w1 where "\<not> gp_complete p ! i" "download_file env c gid d (files ! i) ?a ?proxied (tick w) = Some (Done (r, w1))"
      "file_outcome env i ?p r w1 = (Inr p', w')"
    using assms(4) unfolding file_step_def Let_def
    by (auto simp: run_bind_Done split: sum.splits if_splits)
  then show ?thesis
  proof cases
    case 1
    then show ?thesis using inv by simp
  next
    case 2
    then show ?thesis by (rule progress_after_delay [OF inv])
  next
    case 3
    have "?inv (p, w1)" by (rule progress_download [OF assms(1,2) 3(1) inv 3(2)])
    then have p1: "?inv (?p, w1)" by (simp add: progress_attempts)
    show ?thesis
    proof (cases r)
      case (Inr one)
      show ?thesis
      proof (cases one)
        case (Failed sf)
        then have "after_delay env (note_failure sf ?p) w1 = (Inr p', w')" using 3(3) Inr by (simp add: file_outcome_def)
        then show ?thesis by (rule progress_after_delay [OF progress_note_failure [OF p1]])
      next
        case Downloaded
        then have d: "after_delay env (?p\<lparr>gp_complete := (gp_complete ?p)[i := True]\<rparr>) w1 = (Inr p', w')"
          using 3(3) Inr by (simp add: file_outcome_def)
        have "?inv (?p\<lparr>gp_complete := (gp_complete ?p)[i := True]\<rparr>, w1)"
          using download_file_valid [OF 3(2) [unfolded Inr]] Downloaded
          by (intro progress_complete [OF p1]) (simp add: target_of_def)
        then show ?thesis using d by (rule progress_after_delay)
      next
        case AlreadyPresent
        then have "p' = ?p\<lparr>gp_complete := (gp_complete ?p)[i := True]\<rparr>" "w' = w1"
          using 3(3) Inr by (simp_all add: file_outcome_def)
        moreover have "?inv (?p\<lparr>gp_complete := (gp_complete ?p)[i := True]\<rparr>, w1)"
          using download_file_valid [OF 3(2) [unfolded Inr]] AlreadyPresent
          by (intro progress_complete [OF p1]) (simp add: target_of_def)
        ultimately show ?thesis by simp
      qed
    qed (use 3(3) in \<open>simp add: file_outcome_def\<close>)
  qed
qed

lemma round_files_inv:
  assumes "no_clash d files" "\<forall>(i, gf) \<in> set xs. i < length files \<and> gf = files ! i"
  shows "progress_inv (lib_sha1 (ge_lib env)) d files (p, w) \<Longrightarrow>
    round_files env c gid d xs (p, w) = Some (Done (Inr p', w')) \<Longrightarrow>
    progress_inv (lib_sha1 (ge_lib env)) d files (p', w')"
  using assms(2)
proof (induction xs arbitrary: p w)
  case Nil
  then show ?case by (simp add: run_return_def)
next
  case (Cons x xs)
  obtain i where x: "x = (i, files ! i)" "i < length files" using Cons.prems(3) by (cases x) auto
  obtain r w1 where s: "file_step env c gid d x (p, w) = Some (Done (r, w1))"
    "(case r of Inl e \<Rightarrow> run_return (Inl e, w1) | Inr p1 \<Rightarrow> round_files env c gid d xs (p1, w1)) = Some (Done (Inr p', w'))"
    using Cons.prems(2) by (auto simp: run_bind_Done)
  then obtain p1 where r: "r = Inr p1" "round_files env c gid d xs (p1, w1) = Some (Done (Inr p', w'))"
    by (cases r) (auto simp: run_return_def)
  have "progress_inv (lib_sha1 (ge_lib env)) d files (p1, w1)"
    using file_step_inv [OF assms(1) x(2) Cons.prems(1)] s(1) r(1) x(1) by simp
  then show ?case using Cons.IH r(2) Cons.prems(3) by simp
qed

lemma gallery_rounds_inv:
  assumes "no_clash d files"
  shows "progress_inv (lib_sha1 (ge_lib env)) d files (p, w) \<Longrightarrow>
    rounds env c gid d files n (p, w) = Some (Done (Inr p', w')) \<Longrightarrow>
    progress_inv (lib_sha1 (ge_lib env)) d files (p', w')"
proof (induction n arbitrary: p w)
  case 0
  then show ?case by (simp add: run_return_def)
next
  case (Suc n)
  show ?case
  proof (cases "list_all id (gp_complete p) \<or> length files * 2 \<le> gp_failures p")
    case True
    then show ?thesis using Suc.prems by (simp add: run_return_def)
  next
    case False
    obtain r w1 where s: "round_files env c gid d (enumerate 0 files) (p, w) = Some (Done (r, w1))"
      "(case r of Inl e \<Rightarrow> run_return (Inl e, w1) | Inr p1 \<Rightarrow> rounds env c gid d files n (p1, w1)) = Some (Done (Inr p', w'))"
      using Suc.prems(2) False by (auto simp: run_bind_Done)
    then obtain p1 where r: "r = Inr p1" "rounds env c gid d files n (p1, w1) = Some (Done (Inr p', w'))"
      by (cases r) (auto simp: run_return_def)
    have "\<forall>(i, gf) \<in> set (enumerate 0 files). i < length files \<and> gf = files ! i"
      by (auto simp: in_set_enumerate_eq)
    then have "progress_inv (lib_sha1 (ge_lib env)) d files (p1, w1)"
      using round_files_inv [OF assms _ Suc.prems(1)] s(1) r(1) by blast
    then show ?thesis using Suc.IH r(2) by blast
  qed
qed

lemma target_of_plain: "file_ok gf \<Longrightarrow> target_of d gf = d @ [render_name gf]"
  using render_name_plain [of gf] by (simp add: target_of_def plain_component_def path_join_single)

definition names_apart :: "GalleryFile list \<Rightarrow> bool" where
  "names_apart files \<longleftrightarrow>
     list_all (\<lambda>x. list_all (\<lambda>y. ''.'' @ render_name x @ ''.part'' \<noteq> render_name y) files
       \<and> render_name x \<noteq> ''galleryinfo.txt'') files"

lemma names_apart_no_clash:
  assumes "metadata_ok m" "names_apart (gm_files m)"
  shows "no_clash d (gm_files m)"
proof -
  have t: "target_of d gf = d @ [render_name gf]" if "gf \<in> set (gm_files m)" for gf
    using assms(1) that by (intro target_of_plain) (auto simp: metadata_ok_def list_all_iff)
  have "map (target_of d) (gm_files m) = map (\<lambda>n. d @ [n]) (map render_name (gm_files m))"
    using t by simp
  moreover have "distinct (map render_name (gm_files m))" using assms(1) by (simp add: metadata_ok_def)
  then have "distinct (map (\<lambda>n. d @ [n]) (map render_name (gm_files m)))"
    by (subst distinct_map) (auto intro: inj_onI)
  ultimately have "distinct (map (target_of d) (gm_files m))" by (simp only:)
  moreover have "part_path (target_of d x) \<noteq> target_of d y" if "x \<in> set (gm_files m)" "y \<in> set (gm_files m)" for x y
    using assms(2) that t by (auto simp: names_apart_def list_all_iff part_path_def)
  ultimately show ?thesis by (simp add: no_clash_def)
qed

lemma finish_gallery_valid:
  assumes "progress_inv sha1 d files (p, w)" "finish_gallery env d m p w = (fin, w')" "fg_successful fin"
    and "gf \<in> set files" "target_of d gf \<noteq> d @ [''galleryinfo.txt'']"
  shows "valid_target sha1 (gw_fs w') (target_of d gf) (gf_expected_sha1 gf)"
proof -
  have all: "list_all id (gp_complete p)" and w': "gw_fs w' = snd (fs_write (now_os env w) (gw_fs w) (d @ [''galleryinfo.txt'']) (gm_information m))"
    using assms(2,3) by (auto simp: finish_gallery_def Let_def)
  obtain i where i: "i < length files" "gf = files ! i" using assms(4) by (auto simp: in_set_conv_nth)
  have "gp_complete p ! i" using all i(1) assms(1) by (simp add: list_all_length progress_inv_def)
  then have "valid_target sha1 (gw_fs w) (target_of d gf) (gf_expected_sha1 gf)"
    using assms(1) i by (simp add: progress_inv_def)
  moreover have "fs_get (gw_fs w') (target_of d gf) = fs_get (gw_fs w) (target_of d gf)"
    unfolding w' by (rule fs_write_frame [OF assms(5)])
  ultimately show ?thesis using valid_target_cong by metis
qed

lemma download_gallery_cases:
  assumes "download_gallery env m w = Some (Done (Inr fin, w'))"
  shows "\<exists>d f1 p w1. create_gallery_dir (now_os env w) (gw_fs w) (rc_config (gw_rpc w)) m = (Inr d, f1)
    \<and> rounds env (rc_config (gw_rpc w)) (gm_gid m) d (gm_files m) MAX_GALLERY_ROUNDS
         (progress_init (length (gm_files m)), w\<lparr>gw_fs := f1\<rparr>) = Some (Done (Inr p, w1))
    \<and> finish_gallery env d m p w1 = (fin, w')"
proof -
  obtain d f1 where c: "create_gallery_dir (now_os env w) (gw_fs w) (rc_config (gw_rpc w)) m = (Inr d, f1)"
    using assms by (cases "create_gallery_dir (now_os env w) (gw_fs w) (rc_config (gw_rpc w)) m")
      (auto simp: download_gallery_def Let_def split: sum.splits)
  obtain u where u: "image_proxy (ge_lib env) (rc_config (gw_rpc w)) = Inr u"
    using assms c by (auto simp: download_gallery_def Let_def split: sum.splits)
  obtain r w1 where r: "rounds env (rc_config (gw_rpc w)) (gm_gid m) d (gm_files m) MAX_GALLERY_ROUNDS
      (progress_init (length (gm_files m)), w\<lparr>gw_fs := f1\<rparr>) = Some (Done (r, w1))"
    "(case r of Inl e \<Rightarrow> run_return (Inl e, w1)
        | Inr p \<Rightarrow> (case finish_gallery env d m p w1 of (fin, w2) \<Rightarrow> run_return (Inr fin, w2))) = Some (Done (Inr fin, w'))"
    using assms c u by (auto simp: download_gallery_def Let_def run_bind_Done)
  then obtain p where "r = Inr p" by (cases r) auto
  then show ?thesis using c r by (auto split: prod.splits)
qed

lemma progress_init_inv: "progress_inv sha1 d files (progress_init (length files), w)"
  by (simp add: progress_inv_def progress_init_def)

subsection \<open>Properties\<close>


definition one_file_metadata :: GalleryMetadata where
  "one_file_metadata = sample_metadata\<lparr>gm_files := [gm_files sample_metadata ! 0]\<rparr>"

definition gallery_dir_path :: path where
  "gallery_dir_path = [''download'', ''AB c [7]'']"

definition sample_env :: "simple_url gallery_env" where
  "sample_env = \<lparr>ge_lib = sample_lib, ge_os = (\<lambda>_. sample_os\<lparr>os_free_space := \<lambda>_. Some 2000000000\<rparr>),
     ge_cancelled = (\<lambda>_. False), ge_transfer = (\<lambda>_ _ _. sample_net)\<rparr>"

definition sample_world :: gallery_world where
  "sample_world = \<lparr>gw_rpc = RpcClient_new sample_config, gw_stats = Stats_new,
     gw_fs = [([''download''], Dir), (gallery_dir_path, Dir), (gallery_dir_path @ [''foo.jpg''], File ''x'' 1)], gw_clock = 0\<rparr>"

lemma one_file_ok: "metadata_ok one_file_metadata" "names_apart (gm_files one_file_metadata)"
proof -
  have "metadata_ok sample_metadata" by (rule parsed_metadata_ok [OF sample_metadata_parsed])
  then show "metadata_ok one_file_metadata"
    by (simp add: metadata_ok_def one_file_metadata_def sample_metadata_def)
  show "names_apart (gm_files one_file_metadata)"
    by (simp add: names_apart_def one_file_metadata_def sample_metadata_def render_name_def)
qed

lemma one_file_dir:
  "create_gallery_dir (now_os sample_env sample_world) (gw_fs sample_world) sample_config one_file_metadata
     = (Inr gallery_dir_path, gw_fs sample_world)"
proof -
  have n: "unat (cfg_max_filename_length sample_config) = 125" "cfg_download_dir sample_config = [''download'']"
    by (simp_all add: sample_config_def config_defaults_def sample_args_def path_from_def starts_with_def)
  have s: "gallery_suffix one_file_metadata = '' [7]''" "gm_title one_file_metadata = ''AB c''"
    by (simp_all add: gallery_suffix_def one_file_metadata_def sample_metadata_def show_nat.simps)
  then have "gallery_title sample_config one_file_metadata = ''AB c''" by (simp add: gallery_title_def n)
  then have "\<exists>q. gallery_dirs sample_config one_file_metadata = [gallery_dir_path, q]"
    using gallery_dirs_single [OF one_file_ok(1)] s by (simp add: n gallery_dir_path_def)
  then show ?thesis
    by (auto simp: create_gallery_dir_def n parent_def prefixes_def sample_world_def is_dir_def gallery_dir_path_def)
qed

lemma one_file_download:
  "download_gallery sample_env one_file_metadata sample_world =
     run_return (let (fin, w2) = finish_gallery sample_env gallery_dir_path one_file_metadata
         \<lparr>gp_complete = [True], gp_attempts = [1], gp_failures = 0, gp_sources = []\<rparr> (sample_world\<lparr>gw_clock := 2\<rparr>) in (Inr fin, w2))"
proof -
  let ?gf = "gm_files sample_metadata ! 0"
  have files: "gm_files one_file_metadata = [?gf]" by (simp add: one_file_metadata_def)
  have t: "path_join gallery_dir_path (render_name ?gf) = gallery_dir_path @ [''foo.jpg'']"
    using path_join_single [of "''foo.jpg''" gallery_dir_path] by (simp add: sample_metadata_def render_name_def)
  have ex: "existing_file_is_valid h (sample_os\<lparr>os_free_space := g\<rparr>) (gw_fs sample_world) (gallery_dir_path @ [''foo.jpg'']) (gf_expected_sha1 ?gf) = Inr True" for h g
    by (simp add: existing_file_is_valid_def sample_world_def gallery_dir_path_def sample_os_def sample_metadata_def)
  have dl: "download_file sample_env c gid gallery_dir_path ?gf a pr (sample_world\<lparr>gw_clock := Suc 0\<rparr>) = run_return (Inr AlreadyPresent, sample_world\<lparr>gw_clock := 2\<rparr>)" for c gid a pr
    unfolding download_file_def t Let_def by (simp add: now_os_def sample_env_def tick_def ex numeral_2_eq_2)
  have t1: "tick sample_world = sample_world\<lparr>gw_clock := Suc 0\<rparr>" by (simp add: tick_def sample_world_def)
  have low: "\<not> has_low_space (sample_os\<lparr>os_free_space := \<lambda>_. Some 2000000000\<rparr>) sample_config"
    by (simp add: has_low_space_def sample_config_def config_defaults_def sample_args_def saturating_add_def)
  have envs: "ge_cancelled sample_env n = False" "now_os sample_env w = sample_os\<lparr>os_free_space := \<lambda>_. Some 2000000000\<rparr>" for n w
    by (simp_all add: sample_env_def now_os_def)
  have proxy: "image_proxy l sample_config = Inr None" for l
    by (simp add: image_proxy_def sample_config_def config_defaults_def sample_args_def)
  have cfg: "rc_config (gw_rpc sample_world) = sample_config" by (simp add: sample_world_def RpcClient_new_def)
  have "file_step sample_env sample_config gid gallery_dir_path (0, ?gf) (progress_init 1, sample_world)
     = run_return (Inr \<lparr>gp_complete = [True], gp_attempts = [1], gp_failures = 0, gp_sources = []\<rparr>, sample_world\<lparr>gw_clock := 2\<rparr>)" for gid
    using low by (simp add: file_step_def Let_def t1 envs ensure_not_shutdown_def progress_init_def dl file_outcome_def)
  then have "rounds sample_env sample_config gid gallery_dir_path [?gf] MAX_GALLERY_ROUNDS (progress_init 1, sample_world)
     = run_return (Inr \<lparr>gp_complete = [True], gp_attempts = [1], gp_failures = 0, gp_sources = []\<rparr>, sample_world\<lparr>gw_clock := 2\<rparr>)" for gid
    unfolding MAX_GALLERY_ROUNDS_def by (simp add: numeral_eq_Suc progress_init_def)
  then show ?thesis
    by (simp add: download_gallery_def Let_def cfg one_file_dir proxy files split: prod.splits)
qed


text \<open>
  The supervisor runs one downloader at a time: a start while one is active, or after the process
  began to stop, spawns nothing, and only a start that did spawn a task answers \<^verbatim>\<open>Started\<close>.
\<close>

theorem supervisor_single_flight:
  "(fst (start cancelled s) = Started \<longleftrightarrow> \<not> cancelled \<and> \<not> gs_active s \<and> tt_inner (gs_tasks s) \<noteq> None)
   \<and> (fst (start cancelled s) \<noteq> Started \<longrightarrow> tt_inner (gs_tasks (snd (start cancelled s))) = tt_inner (gs_tasks s)
        \<and> gs_active (snd (start cancelled s)) = gs_active s)
   \<and> (fst (start cancelled s) = Started \<longrightarrow> fst (start c' (snd (start cancelled s))) \<noteq> Started
        \<and> running_tasks (gs_tasks (snd (start cancelled s))) = Suc (running_tasks (gs_tasks s)))"
  by (auto simp: start_def spawn_def running_tasks_def invalidate_def Let_def split: option.splits)

theorem supervisor_single_flight_witness:
  "let s = \<lparr>gs_active = False, gs_tasks = TransferTasks_new Shutdown_default\<rparr> in
   fst (start False s) = Started \<and> fst (start False (snd (start False s))) \<noteq> Started
   \<and> running_tasks (gs_tasks (snd (start False s))) = 1"
  using supervisor_single_flight [of False "\<lparr>gs_active = False, gs_tasks = TransferTasks_new Shutdown_default\<rparr>" False]
  by (simp add: TransferTasks_new_def running_tasks_def)

end
