(* ===== verification/Hath_SpeedTest.thy ===== *)
theory Hath_SpeedTest
  imports Hath_Rpc "HOL-Library.Multiset"
begin

text \<open>
  The outbound speed test of a server command, \<^verbatim>\<open>src/src/server/threaded_proxy.rs\<close>: a number of concurrent
  downloads, each with three attempts, of which the successes and their times are summed. What an
  attempt receives is a parameter: a transport error, or a status, an announced length and the body as
  chunks with their arrival times. A test that panics or is aborted gives no time. Times are in
  milliseconds.
\<close>

datatype test_event = Test_chunk nat u64 | Test_error

datatype test_reply = Test_send_error | Test_reply u16 "u64 option" "test_event list" u64

datatype ThreadedProxyTestAttemptError = Test_not_found | Test_retryable

text \<open>The body: bytes received and when the first of them arrived, kept across attempts.\<close>

fun test_receive :: "test_event list \<Rightarrow> u64 \<Rightarrow> u64 option \<Rightarrow> (u64 option \<times> u64 option)" where
  "test_receive [] received first_byte_at = (Some received, first_byte_at)"
| "test_receive (Test_error # es) received first_byte_at = (None, first_byte_at)"
| "test_receive (Test_chunk n at # es) received first_byte_at =
     (if n = 0 then test_receive es received first_byte_at
      else test_receive es (received + of_nat n) (case first_byte_at of None \<Rightarrow> Some at | Some t \<Rightarrow> Some t))"

definition test_attempt :: "u64 \<Rightarrow> test_reply \<Rightarrow> u64 option \<Rightarrow> (ThreadedProxyTestAttemptError + u64 option) \<times> u64 option" where
  "test_attempt testsize reply first_byte_at =
     (case reply of
        Test_send_error \<Rightarrow> (Inl Test_retryable, first_byte_at)
      | Test_reply status len events end_time \<Rightarrow>
          if status = 404 then (Inl Test_not_found, first_byte_at)
          else if \<not> (200 \<le> status \<and> status < 300) then (Inl Test_retryable, first_byte_at)
          else (case len of
              None \<Rightarrow> (Inl Test_retryable, first_byte_at)
            | Some content_length \<Rightarrow>
                (case test_receive events 0 first_byte_at of
                   (None, first) \<Rightarrow> (Inl Test_retryable, first)
                 | (Some received, first) \<Rightarrow>
                     if received \<noteq> content_length then (Inl Test_retryable, first)
                     else (Inr (if testsize \<le> content_length
                                then Some (case first of None \<Rightarrow> 0 | Some t \<Rightarrow> end_time - t) else None), first))))"

fun test_attempts :: "u64 \<Rightarrow> test_reply list \<Rightarrow> u64 option \<Rightarrow> u64 option" where
  "test_attempts testsize [] first_byte_at = None"
| "test_attempts testsize (reply # replies) first_byte_at =
     (case test_attempt testsize reply first_byte_at of
        (Inr download_time_ms, _) \<Rightarrow> download_time_ms
      | (Inl Test_not_found, _) \<Rightarrow> None
      | (Inl Test_retryable, first) \<Rightarrow> test_attempts testsize replies first)"

definition run_threaded_proxy_test_download :: "u64 \<Rightarrow> (nat \<Rightarrow> test_reply) \<Rightarrow> u64 option" where
  "run_threaded_proxy_test_download testsize net = test_attempts testsize (map net [0..<3]) None"

text \<open>The URL, over the URL library; \<open>set_scheme\<close> is a parameter like it.\<close>

definition build_threaded_proxy_test_url :: "('u, 'z) url_lib_scheme \<Rightarrow> (string \<Rightarrow> 'u \<Rightarrow> 'u option)
    \<Rightarrow> string \<Rightarrow> string \<Rightarrow> u16 \<Rightarrow> u64 \<Rightarrow> u32 \<Rightarrow> string \<Rightarrow> u32 \<Rightarrow> 'u res" where
  "build_threaded_proxy_test_url lib set_scheme protocol hostname port testsize testtime testkey random_int =
     (case url_parse lib ''http://hath.invalid/'' of
        None \<Rightarrow> Inl (Network ''invalid speedtest URL base'')
      | Some url \<Rightarrow>
          (case set_scheme protocol url of
             None \<Rightarrow> Inl (Network (''invalid speedtest protocol: '' @ protocol))
           | Some url1 \<Rightarrow>
               (case (case parse_ip hostname of
                        Some ip \<Rightarrow> url_set_ip_host lib ip url1
                      | None \<Rightarrow> url_set_host lib hostname url1) of
                  None \<Rightarrow> Inl (Network ''invalid speedtest host'')
                | Some url2 \<Rightarrow>
                    (case url_set_port lib (Some port) url2 of
                       None \<Rightarrow> Inl (Network (''invalid speedtest port: '' @ show_word port))
                     | Some url3 \<Rightarrow>
                         Inr (url_set_path lib (''/t/'' @ show_word testsize @ ''/'' @ show_word testtime @ ''/'' @ testkey @ ''/''
                                @ show_word random_int) url3)))))"

text \<open>Joining: the results in the order in which the tests end.\<close>

fun join_tests :: "u64 option list \<Rightarrow> u32 \<Rightarrow> u64 \<Rightarrow> u32 \<times> u64" where
  "join_tests [] successful total_time_ms = (successful, total_time_ms)"
| "join_tests (None # rs) successful total_time_ms = join_tests rs successful total_time_ms"
| "join_tests (Some ms # rs) successful total_time_ms = join_tests rs (successful + 1) (total_time_ms + ms)"

text \<open>
  \<open>rand\<close> are the drawn numbers, \<open>net\<close> what the download of a test receives, and \<open>order\<close> the order in
  which the tests end.
\<close>

record 'u test_env =
  te_client_ok :: bool
  te_set_scheme :: "string \<Rightarrow> 'u \<Rightarrow> 'u option"
  te_rand :: "nat \<Rightarrow> u32"
  te_net :: "nat \<Rightarrow> 'u \<Rightarrow> nat \<Rightarrow> test_reply"
  te_order :: "u64 option list \<Rightarrow> u64 option list"

definition test_results :: "'u test_env \<Rightarrow> ('u, 'z) url_lib_scheme \<Rightarrow> string \<Rightarrow> string \<Rightarrow> u16 \<Rightarrow> u64 \<Rightarrow> u32 \<Rightarrow> u32 \<Rightarrow> string
    \<Rightarrow> u64 option list" where
  "test_results env lib hostname protocol port testsize testcount testtime testkey =
     concat (map (\<lambda>i. case build_threaded_proxy_test_url lib (te_set_scheme env) protocol hostname port testsize testtime testkey
                              (te_rand env i) of
                        Inl _ \<Rightarrow> []
                      | Inr url \<Rightarrow> [run_threaded_proxy_test_download testsize (te_net env i url)]) [0..<unat testcount])"

definition run_threaded_proxy_test :: "'u test_env \<Rightarrow> ('u, 'z) url_lib_scheme \<Rightarrow> string \<Rightarrow> string \<Rightarrow> u16 \<Rightarrow> u64 \<Rightarrow> u32 \<Rightarrow> u32 \<Rightarrow> string
    \<Rightarrow> u32 \<times> u64" where
  "run_threaded_proxy_test env lib hostname protocol port testsize testcount testtime testkey =
     (if \<not> te_client_ok env then (0, 0)
      else join_tests (te_order env (test_results env lib hostname protocol port testsize testcount testtime testkey)) 0 0)"

subsection \<open>Properties\<close>

lemma join_tests_sum:
  "join_tests rs n t = (n + of_nat (length (filter (\<lambda>r. r \<noteq> None) rs)), t + sum_list (map (\<lambda>r. case r of None \<Rightarrow> 0 | Some ms \<Rightarrow> ms) rs))"
  by (induction rs n t rule: join_tests.induct) (auto simp: algebra_simps)

lemma join_tests_mset:
  assumes "mset rs = mset rs'"
  shows "join_tests rs n t = join_tests rs' n t"
proof -
  have "length (filter (\<lambda>r. r \<noteq> None) rs) = length (filter (\<lambda>r. r \<noteq> None) rs')"
    using assms by (metis mset_filter size_mset)
  moreover have "sum_list (map (\<lambda>r. case r of None \<Rightarrow> 0 | Some ms \<Rightarrow> ms) rs) = sum_list (map (\<lambda>r. case r of None \<Rightarrow> 0 | Some ms \<Rightarrow> ms) rs')"
    using assms by (metis mset_map sum_mset_sum_list)
  ultimately show ?thesis by (simp add: join_tests_sum)
qed

lemma concat_at_most: "length (concat (map f xs)) \<le> length xs" if "\<And>x. length (f x) \<le> 1"
  by (induction xs) (use that in \<open>auto intro: add_le_mono [of _ 1, simplified]\<close>)

text \<open>
  The result of a speed test does not depend on the order in which its downloads end, and it never
  reports more successes than tests were asked for.
\<close>

theorem speed_test_order:
  assumes "\<And>rs. mset (te_order env rs) = mset rs"
  shows "run_threaded_proxy_test env lib hostname protocol port testsize testcount testtime testkey
      = run_threaded_proxy_test (env\<lparr>te_order := (\<lambda>rs. rs)\<rparr>) lib hostname protocol port testsize testcount testtime testkey
    \<and> fst (run_threaded_proxy_test env lib hostname protocol port testsize testcount testtime testkey) \<le> testcount"
proof -
  let ?rs = "test_results env lib hostname protocol port testsize testcount testtime testkey"
  have same: "test_results (env\<lparr>te_order := (\<lambda>rs. rs)\<rparr>) lib hostname protocol port testsize testcount testtime testkey = ?rs"
    by (simp add: test_results_def cong: sum.case_cong)
  have eq: "join_tests (te_order env ?rs) 0 0 = join_tests ?rs 0 0" by (rule join_tests_mset [OF assms])
  have "length (filter (\<lambda>r. r \<noteq> None) ?rs) \<le> length ?rs" by (rule length_filter_le)
  also have "\<dots> \<le> length [0..<unat testcount]" unfolding test_results_def by (rule concat_at_most) (simp split: sum.split)
  finally have le: "length (filter (\<lambda>r. r \<noteq> None) ?rs) \<le> unat testcount" by simp
  then have "unat (of_nat (length (filter (\<lambda>r. r \<noteq> None) ?rs)) :: u32) = length (filter (\<lambda>r. r \<noteq> None) ?rs)"
    using unat_u32 [of testcount] by (simp add: unat_of_nat take_bit_nat_eq_self)
  then have "fst (join_tests ?rs 0 0) \<le> testcount" using le by (simp add: join_tests_sum word_le_nat_alt)
  then show ?thesis using eq same by (simp add: run_threaded_proxy_test_def)
qed

theorem speed_test_order_witness:
  "fst (run_threaded_proxy_test \<lparr>te_client_ok = True, te_set_scheme = (\<lambda>s u. Some u), te_rand = (\<lambda>i. 0),
      te_net = (\<lambda>i url k. Test_send_error), te_order = rev\<rparr>
    \<lparr>url_parse = (\<lambda>s. Some ()), url_set_ip_host = (\<lambda>i u. Some u), url_set_host = (\<lambda>s u. Some u), url_set_port = (\<lambda>p u. Some u),
      url_set_path = (\<lambda>s u. u), url_set_query = (\<lambda>s u. u), url_host_str = (\<lambda>u. None)\<rparr> ''h'' ''http'' 80 100 2 0 []) \<le> 2"
  by (rule speed_test_order [THEN conjunct2]) simp

end
