(* ===== verification/Hath_Handler.thy ===== *)
theory Hath_Handler
  imports Hath_Response Hath_Request Hath_Gallery Hath_SpeedTest Hath_Bandwidth
begin

text \<open>
  The request handlers, \<^verbatim>\<open>src/src/server/handler/\<close>, the start of a proxy transfer
  (\<^verbatim>\<open>src/src/server/proxy_transfer.rs\<close>) and the service that puts parsing, session marking, handling and
  the response policy together (\<^verbatim>\<open>src/src/server/service.rs\<close>).

  The application state is a record of the components' states. The configuration lives in the RPC
  client's state, which shares it with the rest of the program; the statistics live in the cache
  handler's; the tasks in the gallery supervisor's. A handler either returns, or ends the process (a
  server answer that demands a newer client), or waits for ever (the RPC router's loop), which is the
  \<^verbatim>\<open>run\<close> type of \<^verbatim>\<open>Hath_Router\<close>.
\<close>

record 'u App =
  app_world :: body_world
  app_rpc :: RpcClient
  app_gallery :: GalleryDownloadSupervisor
  app_bwm :: "BandwidthMonitor option"
  app_do_cert_refresh :: bool
  app_cert_notified :: bool
  app_sessions :: SessionManager
  app_downloads :: "'u ProxyDownloadTask list"

text \<open>The surroundings of one request.\<close>

record 'u handler_env =
  he_lib :: "'u rpc_lib"
  he_upstream :: "'u upstream_env"
  he_os :: os
  he_now :: nat
  he_uuid :: string
  he_can_open :: bool
  he_random :: string
  he_tests :: "'u test_env"
  he_cancelled :: bool

abbreviation app_config :: "'u App \<Rightarrow> Config" where
  "app_config a \<equiv> rc_config (app_rpc a)"

abbreviation app_cache :: "'u App \<Rightarrow> CacheHandler \<times> fs" where
  "app_cache a \<equiv> (bw_handler (app_world a), bw_fs (app_world a))"

definition set_cache :: "CacheHandler \<times> fs \<Rightarrow> 'u App \<Rightarrow> 'u App" where
  "set_cache hf a = a\<lparr>app_world := (app_world a)\<lparr>bw_handler := fst hf, bw_fs := snd hf\<rparr>\<rparr>"

text \<open>The texts of the errors, from the attributes in \<^verbatim>\<open>src/src/error.rs\<close>.\<close>

fun show_error :: "HathError \<Rightarrow> string" where
  "show_error (Io m) = ''I/O error: '' @ m"
| "show_error (Http m) = ''HTTP error: '' @ m"
| "show_error (Tls m) = ''TLS error: '' @ m"
| "show_error (Hyper m) = ''Hyper error: '' @ m"
| "show_error (Rpc m) = ''RPC error: '' @ m"
| "show_error (Config_error m) = ''Config error: '' @ m"
| "show_error (Cache_error m) = ''Cache error: '' @ m"
| "show_error (Parse m) = ''Parse error: '' @ m"
| "show_error (Network m) = ''Network error: '' @ m"
| "show_error (ProxyDownloader status m) = ''Proxy download error ('' @ show_word status @ ''): '' @ m"
| "show_error Shutdown_requested = ''Shutdown requested''"
| "show_error CertExpired = ''Certificate expired''"
| "show_error (Fatal m) = m"

subsection \<open>Files\<close>

definition transfer_start :: "'u handler_env \<Rightarrow> string \<Rightarrow> 'u list \<Rightarrow> Config \<Rightarrow> 'u App \<Rightarrow> ProxyDownload res \<times> 'u App" where
  "transfer_start env fid sources c a =
     (case proxy_start (he_upstream env) (lib_status_text (he_lib env)) (lib_sha1 (he_lib env)) (he_os env) (he_uuid env) fid sources c
             (gs_tasks (app_gallery a), bw_fs (app_world a)) of
        (r, tasks, f) \<Rightarrow>
          let a1 = a\<lparr>app_gallery := (app_gallery a)\<lparr>gs_tasks := tasks\<rparr>, app_world := (app_world a)\<lparr>bw_fs := f\<rparr>\<rparr> in
          case r of
            Inl e \<Rightarrow> (Inl e, a1)
          | Inr (d, task) \<Rightarrow> (Inr d, a1\<lparr>app_downloads := task # app_downloads a1\<rparr>))"

definition error_response :: "HathError \<Rightarrow> ResponseSpec res" where
  "error_response e =
     (case e of
        ProxyDownloader status message \<Rightarrow> text_response (if 100 \<le> status \<and> status < 1000 then status else 500) message
      | _ \<Rightarrow> text_response 500 (show_error e))"

definition serve_cached :: "'u handler_env \<Rightarrow> HVFile \<Rightarrow> Config \<Rightarrow> bool \<Rightarrow> 'u App \<Rightarrow> ResponseSpec res \<times> 'u App" where
  "serve_cached env hv c head_only a =
     (case cache_mark_recently_accessed (he_os env) (app_config a) hv False (app_cache a) of
        (recently_accessed, h1, f1) \<Rightarrow>
          let (verify, h2) = (if recently_accessed \<and> \<not> cfg_disable_file_verification c
                              then (case is_file_verification_on_cooldown (he_now env) h1 of (cool, h2) \<Rightarrow> (\<not> cool, h2))
                              else (False, h1));
              a1 = set_cache (h2, f1) a
          in case file_response (he_os env) hv (cfg_cache_dir c) head_only verify (app_world a1) of
               (r, w) \<Rightarrow> (r, a1\<lparr>app_world := w\<rparr>))"

definition serve_proxied :: "'u handler_env \<Rightarrow> string \<Rightarrow> Config \<Rightarrow> bool \<Rightarrow> ServerResponse res \<Rightarrow> 'u App
    \<Rightarrow> ResponseSpec res \<times> 'u App" where
  "serve_proxied env fid c head_only r a =
     (case r of
        Inl _ \<Rightarrow> (not_found_response, a)
      | Inr sr \<Rightarrow>
          if sr_status sr \<noteq> Status_Ok then (not_found_response, a)
          else
            let sources = List.map_filter (url_parse (he_lib env)) (filter (\<lambda>s. s \<noteq> []) (sr_lines sr)) in
            if sources = [] then (not_found_response, a)
            else case transfer_start env fid sources c a of
                (Inl e, a1) \<Rightarrow> (error_response e, a1)
              | (Inr d, a1) \<Rightarrow> (into_response (he_can_open env) d head_only, a1))"

definition cache_hit :: "os \<Rightarrow> fs \<Rightarrow> HVFile \<Rightarrow> Config \<Rightarrow> bool" where
  "cache_hit os f hv c =
     (let p = cache_path (cfg_cache_dir c) hv in path_exists f p \<and> file_len os f p = Some (unat (hv_size hv)))"

definition fileindex_valid :: "Additional \<Rightarrow> bool" where
  "fileindex_valid additional = (case add_fileindex additional of None \<Rightarrow> False | Some v \<Rightarrow> (parse_word v :: u32 option) \<noteq> None)"

definition xres_valid :: "Additional \<Rightarrow> bool" where
  "xres_valid additional = (case add_xres additional of None \<Rightarrow> False | Some v \<Rightarrow> v = ''org'' \<or> (parse_word v :: u32 option) \<noteq> None)"

definition handle_file_serve :: "'u handler_env \<Rightarrow> string \<Rightarrow> HVFile option \<Rightarrow> Additional \<Rightarrow> bool \<Rightarrow> bool \<Rightarrow> Config \<Rightarrow> 'u App
    \<Rightarrow> (ResponseSpec res \<times> 'u App) run" where
  "handle_file_serve env fid hv_file additional keystamp_valid head_only c a =
     (if \<not> keystamp_valid then run_return (forbidden_response, a)
      else case hv_file of
          None \<Rightarrow> run_return (not_found_response, a)
        | Some hv \<Rightarrow>
            if \<not> fileindex_valid additional \<or> \<not> xres_valid additional then run_return (not_found_response, a)
            else if cache_hit (he_os env) (bw_fs (app_world a)) hv c
            then run_return (serve_cached env hv c head_only a)
            else
              run_bind (static_range_fetch (he_lib env) (the (add_fileindex additional)) (the (add_xres additional)) fid (app_rpc a))
                (\<lambda>(r, rpc). run_return (serve_proxied env fid c head_only r (a\<lparr>app_rpc := rpc\<rparr>))))"

subsection \<open>Server commands\<close>

definition invalid_command :: "ResponseSpec res" where
  "invalid_command = text_response 200 ''INVALID_COMMAND''"

definition threaded_proxy_test_command :: "'u handler_env \<Rightarrow> Additional \<Rightarrow> ResponseSpec res" where
  "threaded_proxy_test_command env add =
     (case (add_hostname add, add_protocol add, Option.bind (add_port add) parse_word, Option.bind (add_testsize add) parse_word,
            Option.bind (add_testcount add) parse_word, Option.bind (add_testtime add) parse_word) of
        (Some hostname, Some protocol, Some port, Some testsize, Some testcount, Some testtime) \<Rightarrow>
          (case run_threaded_proxy_test (he_tests env) (he_lib env) hostname protocol port testsize testcount testtime
                  (unwrap_or (add_testkey add) []) of
             (successful, total_time) \<Rightarrow> text_response 200 (''OK:'' @ show_word successful @ ''-'' @ show_word total_time))
      | _ \<Rightarrow> invalid_command)"

definition speed_test_command :: "'u handler_env \<Rightarrow> Additional \<Rightarrow> ResponseSpec res" where
  "speed_test_command env add =
     (case add_testsize add of
        None \<Rightarrow> speedtest_response (he_random env) 1000000
      | Some v \<Rightarrow> (case parse_word v :: u64 option of
            None \<Rightarrow> invalid_command
          | Some n \<Rightarrow> speedtest_response (he_random env) (unat n)))"

definition bwm_for :: "Config \<Rightarrow> BandwidthMonitor option" where
  "bwm_for c = (if 0 < cfg_throttle_bytes c \<and> \<not> cfg_disable_bwm c then Some (BandwidthMonitor_new (cfg_throttle_bytes c)) else None)"

definition refresh_settings_command :: "'u handler_env \<Rightarrow> 'u App \<Rightarrow> (ResponseSpec res \<times> 'u App) run" where
  "refresh_settings_command env a =
     run_bind (refresh_settings (he_lib env) (app_rpc a)) (\<lambda>(r, rpc).
       let a1 = a\<lparr>app_rpc := rpc\<rparr> in
       case r of
         Inr sr \<Rightarrow>
           if sr_status sr = Status_Ok
           then (case apply_server_response (lib_now (he_lib env)) sr (rc_config rpc) of
                   None \<Rightarrow> Some Exit
                 | Some c \<Rightarrow> run_return (text_response 200 [], a1\<lparr>app_rpc := rpc\<lparr>rc_config := c\<rparr>, app_bwm := bwm_for c\<rparr>))
           else run_return (text_response 200 [], a1)
       | Inl _ \<Rightarrow> run_return (text_response 200 [], a1))"

definition handle_server_command :: "'u handler_env \<Rightarrow> string \<Rightarrow> string \<Rightarrow> 'u App \<Rightarrow> (ResponseSpec res \<times> 'u App) run" where
  "handle_server_command env command additional a =
     (let cmd = to_lowercase command in
      if cmd = ''still_alive'' then run_return (text_response 200 ''I feel FANTASTIC and I'm still alive'', a)
      else if cmd = ''threaded_proxy_test'' then run_return (threaded_proxy_test_command env (parse_additional additional), a)
      else if cmd = ''speed_test'' then run_return (speed_test_command env (parse_additional additional), a)
      else if cmd = ''refresh_settings'' then refresh_settings_command env a
      else if cmd = ''start_downloader'' then
        (case start (he_cancelled env) (app_gallery a) of (_, g) \<Rightarrow> run_return (text_response 200 [], a\<lparr>app_gallery := g\<rparr>))
      else if cmd = ''refresh_certs'' then
        run_return (text_response 200 [], a\<lparr>app_do_cert_refresh := True, app_cert_notified := True\<rparr>)
      else run_return (invalid_command, a))"

subsection \<open>Speed tests and the dispatch\<close>

definition handle_speedtest :: "'u handler_env \<Rightarrow> u32 \<Rightarrow> bool \<Rightarrow> bool \<Rightarrow> bool \<Rightarrow> ResponseSpec res" where
  "handle_speedtest env testsize valid forbidden head_only =
     (if valid then
        (if head_only then head_response ''text/html; charset=iso-8859-1'' (unat testsize)
         else speedtest_response (he_random env) (unat testsize))
      else if forbidden then forbidden_response
      else bad_request_response)"

definition handle_request :: "'u handler_env \<Rightarrow> RequestType \<Rightarrow> Config \<Rightarrow> 'u App \<Rightarrow> (ResponseSpec res \<times> 'u App) run" where
  "handle_request env request_type c a =
     (case request_type of
        FileServe fid hv_file additional keystamp_valid head_only \<Rightarrow>
          handle_file_serve env fid hv_file additional keystamp_valid head_only c a
      | ServerCommand command additional valid \<Rightarrow>
          if valid then handle_server_command env command additional a else run_return (forbidden_response, a)
      | SpeedTest testsize valid forbidden head_only \<Rightarrow> run_return (handle_speedtest env testsize valid forbidden head_only, a)
      | Favicon \<Rightarrow> run_return (redirect_response ''https://e-hentai.org/favicon.ico'', a)
      | Robots \<Rightarrow> run_return (robots_response, a)
      | BadRequest \<Rightarrow> run_return (bad_request_response, a)
      | MethodNotAllowed \<Rightarrow> run_return (method_not_allowed_response, a)
      | RequestType.NotFound \<Rightarrow> run_return (not_found_response, a))"

subsection \<open>The service\<close>

definition mark_session :: "u32 \<Rightarrow> RequestType \<Rightarrow> SessionManager \<Rightarrow> SessionManager" where
  "mark_session session request_type m =
     (case request_type of
        ServerCommand _ _ True \<Rightarrow> mark_servercmd session m
      | _ \<Rightarrow> mark_normal session m)"

definition service_call :: "'u handler_env \<Rightarrow> (u16 \<Rightarrow> string option) \<Rightarrow> string \<Rightarrow> SessionOrigin \<Rightarrow> u32 \<Rightarrow> string \<Rightarrow> string option \<Rightarrow> 'u App
    \<Rightarrow> (Response \<times> 'u App) run" where
  "service_call env reason date org session meth path_and_query a =
     (let c = app_config a;
          bwm_for_request = (if so_is_local org then None else app_bwm a);
          request_type = parse_request (lib_sha1 (he_lib env)) (lib_now (he_lib env)) meth (unwrap_or path_and_query ''/'') (so_peer_ip org) c;
          a1 = a\<lparr>app_sessions := mark_session session request_type (app_sessions a)\<rparr>
      in run_bind (handle_request env request_type c a1) (\<lambda>(response, a2).
           run_bind (Some (finalize_response reason date (ResponsePolicy_new (so_is_local org) (bwm_for_request \<noteq> None))
                             (response, app_world a2)))
             (\<lambda>(r, w). run_return (r, a2\<lparr>app_world := w\<rparr>))))"

subsection \<open>What the handlers return\<close>

definition is_head :: "RequestType \<Rightarrow> bool" where
  "is_head request_type = (case request_type of FileServe _ _ _ _ head \<Rightarrow> head | SpeedTest _ _ _ head \<Rightarrow> head | _ \<Rightarrow> False)"

lemma parse_is_head: "is_head (parse_request sha1 now meth pq ip c) \<Longrightarrow> eq_ignore_ascii_case meth ''HEAD''"
  by (auto simp: parse_request_def parse_file_serve_def parse_server_command_def parse_speed_test_def is_head_def Let_def
      split: if_splits)

text \<open>A response the policy can send: header values are valid, and the declared length is the body's unless the body is left out.\<close>

definition spec_fits :: "bool \<Rightarrow> ResponseSpec res \<Rightarrow> bool" where
  "spec_fits head r =
     (case r of
        Inl _ \<Rightarrow> True
      | Inr spec \<Rightarrow> header_value_ok (rs_content_type spec) \<and> map_of (rs_headers spec) ''content-length'' = None
          \<and> (rs_declared_length spec = sb_total_size (rs_body spec) \<or> head))"

lemma header_ok_default [simp]: "header_value_ok DEFAULT_CONTENT_TYPE"
  by (simp add: header_value_ok_def DEFAULT_CONTENT_TYPE_def char_code_def)

lemma header_ok_mime [simp]: "header_value_ok (mime_type hv)"
  by (cases "hv_file_type hv") (simp_all add: mime_type_def header_value_ok_def char_code_def)

lemmas response_fields = ResponseSpec_new_def StreamingBody_new_def StreamingBody_empty_def from_bytes_def body_with_def
  new_random_def new_file_def new_proxy_def

lemma fits_text [simp]: "spec_fits head (text_response status t)"
  by (simp add: spec_fits_def text_response_def response_fields)

lemma fits_fixed [simp]:
  "spec_fits head not_found_response" "spec_fits head forbidden_response" "spec_fits head bad_request_response"
  "spec_fits head invalid_command" "spec_fits head (error_response e)" "spec_fits head (speedtest_response pool n)"
  by (simp_all add: not_found_response_def forbidden_response_def bad_request_response_def invalid_command_def
      error_response_def spec_fits_def speedtest_response_def text_response_def response_fields split: HathError.split)

lemma fits_special [simp]:
  "spec_fits head method_not_allowed_response" "spec_fits head (redirect_response l)" "spec_fits head robots_response"
  by (simp_all add: spec_fits_def method_not_allowed_response_def redirect_response_def robots_response_def with_header_def
      response_fields Let_def header_value_ok_def char_code_def DEFAULT_CONTENT_TYPE_def)

lemma fits_head: "header_value_ok t \<Longrightarrow> spec_fits True (head_response t n)"
  by (simp add: spec_fits_def head_response_def response_fields)

lemma fits_file: "file_response os hv dir head verify w = (r, w') \<Longrightarrow> spec_fits head r"
  by (auto simp: file_response_def spec_fits_def head_response_def response_fields Let_def split: sum.splits option.splits if_splits)

lemma start_type: "transfer_start env fid sources c a = (Inr d, a') \<Longrightarrow> \<exists>hv. pd_content_type d = mime_type hv"
  by (auto simp: transfer_start_def proxy_start_def Let_def split: prod.splits option.splits sum.splits bool.splits)

lemma fits_proxied: "serve_proxied env fid c head r a = (resp, a') \<Longrightarrow> spec_fits head resp"
  using start_type [of env fid _ c a]
  by (fastforce simp: serve_proxied_def into_response_def spec_fits_def head_response_def proxy_body_response_def response_fields Let_def
      text_response_def not_found_response_def error_response_def split: sum.splits if_splits prod.splits HathError.splits)

lemma fits_cached: "serve_cached env hv c head a = (resp, a') \<Longrightarrow> spec_fits head resp"
  by (auto simp: serve_cached_def Let_def dest!: fits_file split: prod.splits)

lemma fits_tests [simp]: "spec_fits head (threaded_proxy_test_command env add)" "spec_fits head (speed_test_command env add)"
  by (auto simp: threaded_proxy_test_command_def speed_test_command_def split: option.splits prod.splits)

lemma fits_speedtest: "spec_fits head (handle_speedtest env n valid forbidden head)"
  by (cases head) (auto simp: handle_speedtest_def fits_head header_value_ok_def char_code_def)

text \<open>A request is handled: the handler returns something the policy can send, or the process ends.\<close>

definition handled :: "bool \<Rightarrow> (ResponseSpec res \<times> 'u App) run \<Rightarrow> bool" where
  "handled head x = (case x of Some (Done (r, _)) \<Rightarrow> spec_fits head r | Some Exit \<Rightarrow> True | _ \<Rightarrow> False)"

lemma handled_return [simp]: "handled head (run_return (r, a)) = spec_fits head r"
  by (simp add: handled_def run_return_def)

lemma handled_return_pair: "(\<And>r a. x = (r, a) \<Longrightarrow> spec_fits head r) \<Longrightarrow> handled head (run_return x)"
  by (cases x) simp

lemma handled_call:
  assumes "routable (rc_config rpc)" "net_keeps_routable lib (rc_config rpc)" "\<And>r rpc'. handled head (k (r, rpc'))"
  shows "handled head (run_bind (call lib act add rpc) k)"
  using call_ends [OF assms(1,2), of act add] assms(3) by (auto simp: run_bind_def handled_def)

lemma handled_refresh:
  assumes "routable (app_config a)" "net_keeps_routable (he_lib env) (app_config a)"
  shows "handled head (refresh_settings_command env a)"
  unfolding refresh_settings_command_def refresh_settings_def
  by (rule handled_call [OF assms]) (auto simp: handled_def run_return_def Let_def split: sum.split option.split)

lemma handled_command:
  assumes "routable (app_config a)" "net_keeps_routable (he_lib env) (app_config a)"
  shows "handled head (handle_server_command env command additional a)"
  using handled_refresh [OF assms] by (simp add: handle_server_command_def Let_def split: prod.split)

lemma handled_file:
  assumes "routable (app_config a)" "net_keeps_routable (he_lib env) (app_config a)"
  shows "handled head (handle_file_serve env fid hv_file additional ok head c a)"
proof -
  have "handled head (run_bind (static_range_fetch (he_lib env) i x fid (app_rpc a))
      (\<lambda>(r, rpc). run_return (serve_proxied env fid c head r (a\<lparr>app_rpc := rpc\<rparr>))))" for i x
    unfolding static_range_fetch_def
    by (rule handled_call [OF assms]) (auto intro!: handled_return_pair fits_proxied)
  then show ?thesis
    by (auto simp: handle_file_serve_def split: option.split intro!: handled_return_pair fits_cached)
qed

lemma handled_request:
  assumes "routable (app_config a)" "net_keeps_routable (he_lib env) (app_config a)"
  shows "handled (is_head rt) (handle_request env rt c a)"
  using handled_command [OF assms] handled_file [OF assms] fits_speedtest
  by (cases rt) (simp_all add: handle_request_def is_head_def)

lemma finalize_body_size:
  "finalize_response reason date po (resp, w) = Done (r, w') \<Longrightarrow>
   sb_total_size (hr_body r) = sb_total_size (rs_body (case resp of Inr s \<Rightarrow> s | Inl _ \<Rightarrow> internal_error))"
  by (auto simp: finalize_response_def enable_flow_control_def enable_traffic_accounting_def Let_def split: if_splits prod.splits)

subsection \<open>Properties\<close>


text \<open>The surroundings of a sample request: a digest of zeros, a network that answers OK.\<close>

definition sample_handler_env :: "simple_url handler_env" where
  "sample_handler_env = \<lparr>he_lib = sample_lib,
     he_upstream = \<lparr>env_get = (\<lambda>n s. Answer 200 (Some 4) [Chunk ''ab'' Write_ok, Chunk ''cd'' Write_ok]),
                    env_open_ok = True, env_flush = Write_ok\<rparr>,
     he_os = sample_os, he_now = 5000, he_uuid = ''u'', he_can_open = True, he_random = ''r'',
     he_tests = \<lparr>te_client_ok = True, te_set_scheme = (\<lambda>s u. Some u), te_rand = (\<lambda>i. 0), te_net = (\<lambda>i url k. Test_send_error), te_order = rev\<rparr>,
     he_cancelled = False\<rparr>"

definition sample_app :: "Config \<Rightarrow> fs \<Rightarrow> simple_url App" where
  "sample_app c f = \<lparr>app_world = \<lparr>bw_handler = sample_handler, bw_fs = f, bw_quota = []\<rparr>, app_rpc = RpcClient_new c,
     app_gallery = \<lparr>gs_active = False, gs_tasks = TransferTasks_new Shutdown_default\<rparr>, app_bwm = None,
     app_do_cert_refresh = False, app_cert_notified = False, app_sessions = SessionManager_new Stats_new, app_downloads = []\<rparr>"

definition sample_peer :: SessionOrigin where
  "sample_peer = \<lparr>so_peer_ip = V4 1 2 3 4, so_is_local = False\<rparr>"


subsection \<open>Who may do what\<close>

definition url_segments :: "string option \<Rightarrow> string list" where
  "url_segments pq = split_on CHR ''/'' (replace_all ''%3d'' ''='' (strip_absolute (unwrap_or pq ''/'')))"

definition signed_command :: "'u handler_env \<Rightarrow> SessionOrigin \<Rightarrow> string option \<Rightarrow> Config \<Rightarrow> bool" where
  "signed_command env org pq c \<longleftrightarrow>
     (let ps = url_segments pq in
      is_rpc_authorized (so_peer_ip org) c \<and> 6 \<le> length ps \<and> ps ! 1 = ''servercmd''
      \<and> validate_servercmd (lib_sha1 (he_lib env)) (lib_now (he_lib env)) (ps ! 2) (ps ! 3) (unwrap_or (parse_i64 (ps ! 4)) 0) (ps ! 5) c)"

definition signed_file :: "'u handler_env \<Rightarrow> string option \<Rightarrow> Config \<Rightarrow> bool" where
  "signed_file env pq c \<longleftrightarrow>
     (let ps = url_segments pq in
      4 \<le> length ps \<and> ps ! 1 = ''h''
      \<and> validate_keystamp (lib_sha1 (he_lib env)) (lib_now (he_lib env)) (ps ! 2) (add_keystamp (parse_additional (ps ! 3))) c)"

lemma parse_command_signed:
  "parse_request (lib_sha1 (he_lib env)) (lib_now (he_lib env)) meth (unwrap_or pq ''/'') (so_peer_ip org) c
     = ServerCommand command additional True \<Longrightarrow> signed_command env org pq c"
  by (auto simp: signed_command_def url_segments_def parse_request_def parse_file_serve_def parse_server_command_def parse_speed_test_def
      Let_def split: if_splits)

lemma parse_file_signed:
  "parse_request (lib_sha1 (he_lib env)) (lib_now (he_lib env)) meth (unwrap_or pq ''/'') (so_peer_ip org) c
     = FileServe fid hv additional True head \<Longrightarrow> signed_file env pq c"
  by (auto simp: signed_file_def url_segments_def parse_request_def parse_file_serve_def parse_server_command_def parse_speed_test_def
      Let_def split: if_splits)

definition control :: "'u App \<Rightarrow> BandwidthMonitor option \<times> bool \<times> bool \<times> bool" where
  "control a = (app_bwm a, app_do_cert_refresh a, app_cert_notified a, gs_active (app_gallery a))"

lemma file_keeps_control:
  assumes "handle_file_serve env fid hv_file additional ok head c a = Some (Done (r, a'))"
  shows "control a' = control a"
proof -
  have s: "control (snd (serve_cached env hv c head a)) = control a" for hv
    by (simp add: serve_cached_def control_def set_cache_def Let_def split: prod.split)
  have t: "control (snd (serve_proxied env fid c head res (a\<lparr>app_rpc := rpc\<rparr>))) = control a" for res rpc
    by (simp add: serve_proxied_def transfer_start_def control_def Let_def split: prod.split sum.split)
  show ?thesis using assms s [symmetric] t [symmetric]
    by (auto simp: handle_file_serve_def run_return_def run_bind_Done split: option.splits if_splits) (metis snd_conv)+
qed

lemma handle_request_effects:
  assumes "handle_request env rt c a = Some (Done (r, a'))"
  shows "(\<exists>command additional. rt = ServerCommand command additional True)
    \<or> (\<exists>fid hv additional head. rt = FileServe fid hv additional True head) \<and> control a' = control a \<or> a' = a"
proof (cases rt)
  case (FileServe fid hv additional ok head)
  then show ?thesis using assms file_keeps_control [of env fid hv additional ok head c a r a']
    by (cases ok) (auto simp: handle_request_def handle_file_serve_def run_return_def)
next
  case (ServerCommand command additional ok)
  then show ?thesis using assms by (cases ok) (auto simp: handle_request_def run_return_def)
qed (use assms in \<open>auto simp: handle_request_def run_return_def\<close>)

lemma finalize_keeps_fs:
  "finalize_response reason date po (resp, w) = Done (r, w') \<Longrightarrow> bw_fs w' = bw_fs w"
  by (auto simp: finalize_response_def count_stats_def Let_def split: if_splits prod.splits)

text \<open>
  C2: Only signed requests have effects. When answering a request changes the bandwidth monitor, the
  certificate refresh flag or the gallery downloader's state, the peer is an RPC server and the path is
  a server command that carries its own valid signature; when it changes the configuration, the RPC
  state, a file, the tasks or the downloads, the path is such a command or a file request with the
  valid keystamp of that file.
\<close>

theorem effects_need_signature:
  assumes "service_call env reason date org session meth pq a = Some (Done (r, a'))"
  shows "(control a' \<noteq> control a \<longrightarrow> signed_command env org pq (app_config a))
    \<and> ((app_rpc a', bw_fs (app_world a'), app_gallery a', app_downloads a') \<noteq> (app_rpc a, bw_fs (app_world a), app_gallery a, app_downloads a)
        \<longrightarrow> signed_command env org pq (app_config a) \<or> signed_file env pq (app_config a))"
proof -
  define rt where "rt = parse_request (lib_sha1 (he_lib env)) (lib_now (he_lib env)) meth (unwrap_or pq ''/'') (so_peer_ip org) (app_config a)"
  define a1 where "a1 = a\<lparr>app_sessions := mark_session session rt (app_sessions a)\<rparr>"
  obtain resp a2 w where h: "handle_request env rt (app_config a) a1 = Some (Done (resp, a2))" "a' = a2\<lparr>app_world := w\<rparr>"
    "bw_fs w = bw_fs (app_world a2)"
    using assms finalize_keeps_fs
    by (fastforce simp: service_call_def run_bind_Done run_return_def Let_def rt_def [symmetric] a1_def [symmetric])
  have same: "control a1 = control a" "app_rpc a1 = app_rpc a" "app_world a1 = app_world a" "app_gallery a1 = app_gallery a"
      "app_downloads a1 = app_downloads a" by (simp_all add: a1_def control_def)
  have c: "control a' = control a2" by (simp add: h(2) control_def)
  from handle_request_effects [OF h(1)] consider command additional where "rt = ServerCommand command additional True"
    | fid hv additional head where "rt = FileServe fid hv additional True head" "control a2 = control a1" | "a2 = a1" by blast
  then show ?thesis
  proof cases
    case 1
    then show ?thesis using parse_command_signed unfolding rt_def by blast
  next
    case 2
    then show ?thesis using parse_file_signed [of env meth pq org "app_config a" fid hv additional head] c same unfolding rt_def by simp
  next
    case 3
    then show ?thesis using h same by (simp add: control_def)
  qed
qed

definition rpc_config :: Config where
  "rpc_config = sample_config\<lparr>cfg_rpc_servers := [V4 1 2 3 4]\<rparr>"

definition sample_command :: string where
  "sample_command = ''/servercmd/'' @ join_with ''/'' [''refresh_certs'', [], show_int 1000,
     sha1_string (lib_sha1 sample_lib) (servercmd_plain ''refresh_certs'' [] 1000 rpc_config)]"

lemma sample_command_parsed:
  "parse_request (lib_sha1 sample_lib) 1000 ''GET'' sample_command (V4 1 2 3 4) rpc_config = ServerCommand ''refresh_certs'' [] True"
proof -
  let ?key = "sha1_string (lib_sha1 sample_lib) (servercmd_plain ''refresh_certs'' [] 1000 rpc_config)"
  have t: "server_time 1000 rpc_config = 1000" unfolding rpc_config_def by (simp add: sample_server_time is_i64_def)
  have auth: "is_rpc_authorized (V4 1 2 3 4) rpc_config" by (simp add: is_rpc_authorized_def rpc_config_def)
  have k: "\<forall>p \<in> set [''refresh_certs'', [], ?key]. CHR ''/'' \<notin> set p \<and> CHR ''%'' \<notin> set p" by simp
  show ?thesis unfolding sample_command_def
    by (subst servercmd_parsed [OF k]) (simp_all add: t auth is_i64_def)
qed

lemma text_finalizes:
  assumes "header_value_ok date"
  obtains r w' where "finalize_response reason date po (text_response status t, w) = Done (r, w')"
proof -
  have "\<exists>r w'. finalize_response reason date po (text_response status t, w) = Done (r, w')"
    using finalize_complete [OF assms, of "text_response status t" reason po w]
    by (simp add: text_response_def response_fields) blast
  then show ?thesis using that by blast
qed

theorem effects_need_signature_witness:
  "\<exists>r a'. service_call sample_handler_env (\<lambda>_. None) ''now'' sample_peer 1 ''GET'' (Some sample_command) (sample_app rpc_config [])
       = Some (Done (r, a'))
     \<and> control a' \<noteq> control (sample_app rpc_config []) \<and> signed_command sample_handler_env sample_peer (Some sample_command) rpc_config"
proof -
  let ?a = "sample_app rpc_config []"
  let ?a1 = "?a\<lparr>app_sessions := mark_session 1 (ServerCommand ''refresh_certs'' [] True) (app_sessions ?a)\<rparr>"
  let ?a2 = "?a1\<lparr>app_do_cert_refresh := True, app_cert_notified := True\<rparr>"
  let ?f = "finalize_response (\<lambda>_. None) ''now'' (ResponsePolicy_new False False) (text_response 200 [], app_world ?a2)"
  have conf: "app_config ?a = rpc_config" "app_bwm ?a = None" by (simp_all add: sample_app_def RpcClient_new_def)
  have env: "lib_sha1 (he_lib sample_handler_env) = lib_sha1 sample_lib" "lib_now (he_lib sample_handler_env) = 1000"
    by (simp_all add: sample_handler_env_def sample_lib_def)
  have "header_value_ok ''now''" by (simp add: header_value_ok_def char_code_def)
  from text_finalizes [OF this] obtain r w where f: "?f = Done (r, w)" .
  have h: "handle_request sample_handler_env (ServerCommand ''refresh_certs'' [] True) rpc_config a1
      = run_return (text_response 200 [], a1\<lparr>app_do_cert_refresh := True, app_cert_notified := True\<rparr>)" for a1
    by (simp add: handle_request_def handle_server_command_def char_eval)
  have s: "service_call sample_handler_env (\<lambda>_. None) ''now'' sample_peer 1 ''GET'' (Some sample_command) ?a
      = Some (Done (r, ?a2\<lparr>app_world := w\<rparr>))"
    using f unfolding service_call_def Let_def conf env
    by (simp add: sample_peer_def sample_command_parsed unwrap_or_def h run_return_def conf)
  have "control (?a2\<lparr>app_world := w\<rparr>) \<noteq> control ?a" by (simp add: control_def sample_app_def)
  then show ?thesis using effects_need_signature [OF s] s conf(1) by auto
qed

subsection \<open>Cached files\<close>

lemma set_modified_content:
  "fs_get f p = Some (File content t) \<Longrightarrow> \<exists>t'. fs_get (fs_set_modified os f p now) p = Some (File content t')"
  by (auto simp: fs_set_modified_def)

lemma mark_keeps_content:
  assumes "cache_mark_recently_accessed os c hv skip (h, f) = (m, h', f')" "fs_get f (cache_path (cfg_cache_dir c) hv) = Some (File content t)"
  shows "\<exists>t'. fs_get f' (cache_path (cfg_cache_dir c) hv) = Some (File content t')"
  using assms set_modified_content [OF assms(2)]
  by (auto simp: cache_mark_recently_accessed_def Let_def split: prod.splits if_splits)

lemma serve_cached_hit:
  assumes "fs_get (bw_fs (app_world a)) (cache_path (cfg_cache_dir c) hv) = Some (File content t)" "app_config a = c"
    and "\<not> os_denied (he_os env) Stat (cache_path (cfg_cache_dir c) hv)" "\<not> os_denied (he_os env) Read (cache_path (cfg_cache_dir c) hv)"
    and "length content = unat (hv_size hv)"
  shows "\<exists>p a'. serve_cached env hv c False a = (Inr (ResponseSpec_new 200 (mime_type hv) (length content) (new_file p)), a')
     \<and> fp_total_size p = length content \<and> app_rpc a' = app_rpc a \<and> app_downloads a' = app_downloads a"
proof -
  obtain m h1 f1 where k: "cache_mark_recently_accessed (he_os env) c hv False (app_cache a) = (m, h1, f1)" by (metis prod_cases3)
  obtain t' where g: "fs_get f1 (cache_path (cfg_cache_dir c) hv) = Some (File content t')"
    using mark_keeps_content [OF k assms(1)] by blast
  have r: "fs_read (he_os env) f1 (cache_path (cfg_cache_dir c) hv) = Inr content"
    "file_len (he_os env) f1 (cache_path (cfg_cache_dir c) hv) = Some (length content)"
    using g assms(3,4) by (simp_all add: fs_read_def file_len_def)
  show ?thesis
    by (auto simp: serve_cached_def k assms(2) set_cache_def file_response_def r assms(5) Let_def split: prod.split)
qed

lemma spec_finalizes:
  assumes "header_value_ok date" "header_value_ok (rs_content_type spec)"
  shows "\<exists>r w'. finalize_response reason date po (Inr spec, w) = Done (r, w') \<and> hr_status r = rs_status spec
    \<and> hr_body r = (rs_body spec)\<lparr>sb_bwm := sb_bwm (rs_body spec) \<or> po_bwm po, sb_traffic_stats := sb_traffic_stats (rs_body spec) \<or> po_traffic_stats po\<rparr>"
  using assms by (cases "po_bwm po"; cases "po_traffic_stats po")
    (simp_all add: finalize_response_def enable_flow_control_def enable_traffic_accounting_def Let_def)

text \<open>
  C3: A cached file is delivered. A signed GET for a file that lies in the cache with the size its id
  names is answered with 200, without asking any server; and when reads succeed and bandwidth is granted,
  the response's body ends within \<open>2 n + 2\<close> rounds, having sent exactly the bytes of the file.
\<close>

theorem cached_file_delivered:
  assumes "parse_request (lib_sha1 (he_lib env)) (lib_now (he_lib env)) meth (unwrap_or pq ''/'') (so_peer_ip org) (app_config a)
      = FileServe fid (Some hv) additional True False"
    and "fileindex_valid additional" "xres_valid additional" "header_value_ok date"
    and "fs_get (bw_fs (app_world a)) (cache_path (cfg_cache_dir (app_config a)) hv) = Some (File content t)"
    and "\<forall>op. \<not> os_denied (he_os env) op (cache_path (cfg_cache_dir (app_config a)) hv)" "length content = unat (hv_size hv)"
    and "list_all (smooth content) obs" "2 * length content + 2 \<le> length obs"
  shows "\<exists>r a' xs b' w'. service_call env reason date org session meth pq a = Some (Done (r, a'))
    \<and> hr_status r = 200 \<and> app_rpc a' = app_rpc a \<and> app_downloads a' = app_downloads a
    \<and> body_rounds sha1 os c obs (hr_body r, app_world a') = (xs, b', w') \<and> concat xs = content \<and> sb_completion b' = Complete"
proof -
  let ?rt = "FileServe fid (Some hv) additional True False"
  define a1 where "a1 = a\<lparr>app_sessions := mark_session session ?rt (app_sessions a)\<rparr>"
  define po where "po = ResponsePolicy_new (so_is_local org) ((if so_is_local org then None else app_bwm a) \<noteq> None)"
  have hit: "cache_hit (he_os env) (bw_fs (app_world a1)) hv (app_config a)"
    using assms(5-7) by (simp add: cache_hit_def path_exists_def file_len_def a1_def)
  obtain p a2 where s: "serve_cached env hv (app_config a) False a1 = (Inr (ResponseSpec_new 200 (mime_type hv) (length content) (new_file p)), a2)"
      "fp_total_size p = length content" "app_rpc a2 = app_rpc a" "app_downloads a2 = app_downloads a"
    using serve_cached_hit [of a1 "app_config a" hv content t env] assms(5-7) by (auto simp: a1_def)
  have h: "handle_request env ?rt (app_config a) a1 = run_return (serve_cached env hv (app_config a) False a1)"
    using hit assms(2,3) by (simp add: handle_request_def handle_file_serve_def)
  obtain r w where f: "finalize_response reason date po (Inr (ResponseSpec_new 200 (mime_type hv) (length content) (new_file p)), app_world a2) = Done (r, w)"
      "hr_status r = 200" "hr_body r = (new_file p)\<lparr>sb_bwm := sb_bwm (new_file p) \<or> po_bwm po,
        sb_traffic_stats := sb_traffic_stats (new_file p) \<or> po_traffic_stats po\<rparr>"
    using spec_finalizes [OF assms(4), of "ResponseSpec_new 200 (mime_type hv) (length content) (new_file p)" reason po "app_world a2"]
    by (auto simp: ResponseSpec_new_def)
  have call: "service_call env reason date org session meth pq a = Some (Done (r, a2\<lparr>app_world := w\<rparr>))"
    unfolding service_call_def Let_def assms(1) a1_def [symmetric] po_def [symmetric] h s(1) using f(1) by (simp add: run_return_def)
  obtain xs b' w' where b: "body_rounds sha1 os c obs (hr_body r, w) = (xs, b', w')" by (metis prod_cases3)
  have "fp_total_size p < 2 ^ 64 - 1" using s(2) assms(7) unat_u32 [of "hv_size hv"] by simp
  then have "sb_completion b' = Complete \<and> concat xs = content"
    using file_body_delivers [OF b f(3) assms(8)] s(2) assms(9) by simp
  then show ?thesis using call f(2) s(3,4) b
    by (intro exI [of _ r] exI [of _ "a2\<lparr>app_world := w\<rparr>"] exI [of _ xs] exI [of _ b'] exI [of _ w']) simp
qed

definition sample_path :: string where
  "sample_path = CHR ''/'' # join_with ''/'' [''h'', sample_id, ''keystamp=1000-0000000000;fileindex=1;xres=org'', ''x'']"

lemma sample_path_parsed:
  "parse_request (lib_sha1 sample_lib) 1000 ''GET'' sample_path (V4 1 2 3 4) rpc_config
     = FileServe sample_id (Some sample_file) (Additional_default\<lparr>add_keystamp := Some ''1000-0000000000'', add_fileindex := Some ''1'',
         add_xres := Some ''org''\<rparr>) True False"
proof -
  let ?add = "''keystamp=1000-0000000000;fileindex=1;xres=org''"
  have parts: "split_on CHR ''/'' (replace_all ''%3d'' ''='' (strip_absolute sample_path)) = [[], ''h'', sample_id, ?add, ''x'']"
    unfolding sample_path_def by (rule parts_of_path) (auto simp: sample_id_def)
  have add: "parse_additional ?add = Additional_default\<lparr>add_keystamp := Some ''1000-0000000000'', add_fileindex := Some ''1'',
         add_xres := Some ''org''\<rparr>"
    by (simp add: parse_additional_def Additional_default_def split_once_def set_additional_def trim_def trim_start_def trim_end_def char_eval)
  have ks: "validate_keystamp (lib_sha1 sample_lib) 1000 sample_id (Some ''1000-0000000000'') rpc_config"
  proof -
    have t: "server_time 1000 rpc_config = 1000" unfolding rpc_config_def by (simp add: sample_server_time is_i64_def)
    have p: "parse_i64 ''1000'' = Some 1000" by (simp add: parse_i64_def parse_eval)
    have z: "take 10 (sha1_string (lib_sha1 sample_lib) x) = ''0000000000''" for x
    proof -
      have "replicate 20 (0 :: u8) = [0, 0, 0, 0, 0, 0, 0, 0, 0, 0, 0, 0, 0, 0, 0, 0, 0, 0, 0, 0]" by (simp add: numeral_eq_Suc)
      moreover have "hex_byte 0 = ''00''" by (simp add: hex_byte_def hex_digit_def char_of_def bit_0)
      ultimately show ?thesis by (simp add: sha1_string_def sample_lib_def hex_encode_def)
    qed
    show ?thesis
      unfolding keystamp_iff [of 1000 rpc_config, unfolded t, simplified]
      by (intro exI [of _ "''1000''"] exI [of _ 1000] exI [of _ "''0000000000''"]) (auto simp: p z char_eval)
  qed
  show ?thesis unfolding parse_request_def Let_def parts
    by (simp add: get_upper parse_file_serve_def add ks sample_file_parsed eq_ignore_ascii_case_def)
qed

definition cached_app :: "simple_url App" where
  "cached_app = sample_app rpc_config [(cache_path (cfg_cache_dir rpc_config) sample_file, File ''twelve bytes'' 0)]"

theorem cached_file_delivered_witness:
  "\<exists>r a' xs b' w'. service_call sample_handler_env (\<lambda>_. None) ''now'' sample_peer 1 ''GET'' (Some sample_path) cached_app = Some (Done (r, a'))
    \<and> body_rounds sample_sha1 sample_os sample_config (replicate 26 (sample_obs\<lparr>ob_content := ''twelve bytes''\<rparr>)) (hr_body r, app_world a')
        = (xs, b', w') \<and> concat xs = ''twelve bytes''"
proof -
  have conf: "app_config cached_app = rpc_config" "bw_fs (app_world cached_app) = [(cache_path (cfg_cache_dir rpc_config) sample_file, File ''twelve bytes'' 0)]"
    by (simp_all add: cached_app_def sample_app_def RpcClient_new_def)
  have env: "lib_sha1 (he_lib sample_handler_env) = lib_sha1 sample_lib" "lib_now (he_lib sample_handler_env) = 1000" "he_os sample_handler_env = sample_os"
    by (simp_all add: sample_handler_env_def sample_lib_def)
  have parsed: "parse_request (lib_sha1 (he_lib sample_handler_env)) (lib_now (he_lib sample_handler_env)) ''GET''
      (unwrap_or (Some sample_path) ''/'') (so_peer_ip sample_peer) (app_config cached_app)
     = FileServe sample_id (Some sample_file) (Additional_default\<lparr>add_keystamp := Some ''1000-0000000000'', add_fileindex := Some ''1'',
         add_xres := Some ''org''\<rparr>) True False"
    using sample_path_parsed by (simp add: conf env sample_peer_def unwrap_or_def)
  have "header_value_ok ''now''" by (simp add: header_value_ok_def char_code_def)
  moreover have "list_all (smooth ''twelve bytes'') (replicate 26 (sample_obs\<lparr>ob_content := ''twelve bytes''\<rparr>))"
    by (simp add: list_all_iff smooth_def sample_obs_def)
  moreover have "fs_get (bw_fs (app_world cached_app)) (cache_path (cfg_cache_dir (app_config cached_app)) sample_file)
      = Some (File ''twelve bytes'' 0)" by (simp add: conf)
  ultimately show ?thesis
    using cached_file_delivered [OF parsed, of "''now''" "''twelve bytes''" 0 "replicate 26 (sample_obs\<lparr>ob_content := ''twelve bytes''\<rparr>)"]
    by (fastforce simp: conf env fileindex_valid_def xres_valid_def parse_eval sample_os_def sample_file_def)
qed

end
