(* ===== verification/Hath_Logging.thy ===== *)
theory Hath_Logging
  imports Hath_Config
begin

text \<open>
  The log files, \<^verbatim>\<open>src/src/logging.rs\<close>: the line writer with its rotation, and the subscriber that sends an
  event to the two files. The console, the formatting of an event and the environment filter belong to
  the tracing library; \<open>started\<close> is the time stamp of a new log. A write is serialised by the mutex around
  the writer, so one call of \<^verbatim>\<open>write_all\<close> is one step.
\<close>

datatype LogLevel = Debug | Info | Warning | Error

record LineWriter =
  lw_path :: path
  lw_file :: bool
  lw_lines :: nat
  lw_limit :: nat
  lw_rotate_on_open :: bool

definition LineWriter_new :: "path \<Rightarrow> nat \<Rightarrow> LineWriter" where
  "LineWriter_new p limit = \<lparr>lw_path = p, lw_file = False, lw_lines = 0, lw_limit = limit, lw_rotate_on_open = True\<rparr>"

text \<open>\<^verbatim>\<open>Path::with_extension\<close>: what follows the last dot is replaced, unless the dot is the first character.\<close>

definition file_stem :: "string \<Rightarrow> string" where
  "file_stem n =
     (let r = dropWhile (\<lambda>ch. ch \<noteq> CHR ''.'') (rev n) in
      if length r \<le> 1 then n else rev (tl r))"

definition with_extension :: "path \<Rightarrow> string \<Rightarrow> path" where
  "with_extension p ext = parent p @ [file_stem (file_name p) @ ''.'' @ ext]"

definition rotate_log :: "os \<Rightarrow> path \<Rightarrow> fs \<Rightarrow> io_error option \<times> fs" where
  "rotate_log os p f =
     (let old = with_extension p ''old'' in
      case (case fs_remove_file os f old of
              Inr f1 \<Rightarrow> Inr f1
            | Inl NotFound \<Rightarrow> Inr f
            | Inl e \<Rightarrow> Inl e) of
        Inl e \<Rightarrow> (Some e, f)
      | Inr f1 \<Rightarrow>
          (case fs_rename os f1 p old of
             Inr f2 \<Rightarrow> (None, f2)
           | Inl NotFound \<Rightarrow> (None, f1)
           | Inl e \<Rightarrow> (Some e, f1)))"

text \<open>Opening for appending creates the file.\<close>

definition open_append :: "os \<Rightarrow> fs \<Rightarrow> path \<Rightarrow> io_error option \<times> fs" where
  "open_append os f p =
     (case fs_get f p of
        Some (File _ _) \<Rightarrow> if os_denied os Write p then (Some OtherIo, f) else (None, f)
      | _ \<Rightarrow> fs_write os f p [])"

definition log_header :: "string \<Rightarrow> string" where
  "log_header started = [LF] @ started @ '' Logging started'' @ [LF]"

definition lw_open :: "os \<Rightarrow> string \<Rightarrow> LineWriter \<times> fs \<Rightarrow> io_error option \<times> LineWriter \<times> fs" where
  "lw_open os started st =
     (case st of (w, f) \<Rightarrow>
      if lw_file w then (None, w, f)
      else case (if lw_rotate_on_open w then rotate_log os (lw_path w) f else (None, f)) of
          (Some e, f1) \<Rightarrow> (Some e, w, f1)
        | (None, f1) \<Rightarrow>
            let w1 = w\<lparr>lw_rotate_on_open := False\<rparr> in
            (case open_append os f1 (lw_path w) of
               (Some e, f2) \<Rightarrow> (Some e, w1, f2)
             | (None, f2) \<Rightarrow>
                 (case fs_append os f2 (lw_path w) (log_header started) of
                    (Some e, f3) \<Rightarrow> (Some e, w1, f3)
                  | (None, f3) \<Rightarrow> (None, w1\<lparr>lw_file := True, lw_lines := 0\<rparr>, f3))))"

fun split_inclusive :: "string \<Rightarrow> string list" where
  "split_inclusive [] = []"
| "split_inclusive (ch # s) =
     (if ch = LF then [LF] # split_inclusive s
      else case split_inclusive s of [] \<Rightarrow> [[ch]] | l # ls \<Rightarrow> (ch # l) # ls)"

text \<open>One line; a full file is closed and rotated, and the next one opened at once.\<close>

definition write_line :: "os \<Rightarrow> string \<Rightarrow> string \<Rightarrow> LineWriter \<times> fs \<Rightarrow> io_error option \<times> LineWriter \<times> fs" where
  "write_line os started line st =
     (case st of (w, f) \<Rightarrow>
      case fs_append os f (lw_path w) line of
        (Some e, f1) \<Rightarrow> (Some e, w, f1)
      | (None, f1) \<Rightarrow>
          if line \<noteq> [] \<and> last line = LF then
            let w1 = w\<lparr>lw_lines := Suc (lw_lines w)\<rparr> in
            if lw_limit w1 < lw_lines w1
            then lw_open os started (w1\<lparr>lw_file := False, lw_rotate_on_open := True\<rparr>, f1)
            else (None, w1, f1)
          else (None, w, f1))"

fun write_lines :: "os \<Rightarrow> string \<Rightarrow> string list \<Rightarrow> LineWriter \<times> fs \<Rightarrow> io_error option \<times> LineWriter \<times> fs" where
  "write_lines os started [] st = (None, st)"
| "write_lines os started (l # ls) st =
     (case write_line os started l st of
        (Some e, st1) \<Rightarrow> (Some e, st1)
      | (None, st1) \<Rightarrow> write_lines os started ls st1)"

definition lw_write_all :: "os \<Rightarrow> string \<Rightarrow> string \<Rightarrow> LineWriter \<times> fs \<Rightarrow> io_error option \<times> LineWriter \<times> fs" where
  "lw_write_all os started buf st =
     (case lw_open os started st of
        (Some e, st1) \<Rightarrow> (Some e, st1)
      | (None, st1) \<Rightarrow> write_lines os started (split_inclusive buf) st1)"

text \<open>\<^verbatim>\<open>Write::write\<close> either writes everything or reports the error.\<close>

definition lw_write :: "os \<Rightarrow> string \<Rightarrow> string \<Rightarrow> LineWriter \<times> fs \<Rightarrow> (io_error + nat) \<times> LineWriter \<times> fs" where
  "lw_write os started buf st =
     (case lw_write_all os started buf st of
        (Some e, st1) \<Rightarrow> (Inl e, st1)
      | (None, st1) \<Rightarrow> (Inr (length buf), st1))"

subsection \<open>The subscriber\<close>

record Subscriber =
  sub_out :: LineWriter
  sub_err :: LineWriter

definition subscriber :: "os \<Rightarrow> string \<Rightarrow> path \<Rightarrow> Config \<Rightarrow> fs \<Rightarrow> (io_error + Subscriber) \<times> fs" where
  "subscriber os started log_dir c f =
     (case (if cfg_disable_logging c then (None, LineWriter_new (log_dir @ [''log_out'']) 100000, f)
            else lw_open os started (LineWriter_new (log_dir @ [''log_out'']) 100000, f)) of
        (Some e, _, f1) \<Rightarrow> (Inl e, f1)
      | (None, out, f1) \<Rightarrow>
          (case lw_open os started (LineWriter_new (log_dir @ [''log_err'']) 10000, f1) of
             (Some e, _, f2) \<Rightarrow> (Inl e, f2)
           | (None, err, f2) \<Rightarrow> (Inr \<lparr>sub_out = out, sub_err = err\<rparr>, f2)))"

text \<open>An event that passes the environment filter, as its formatted text; a failed write is dropped by the layer.\<close>

definition log_event :: "os \<Rightarrow> string \<Rightarrow> Config \<Rightarrow> LogLevel \<Rightarrow> string \<Rightarrow> Subscriber \<times> fs \<Rightarrow> Subscriber \<times> fs" where
  "log_event os started c level text sf =
     (case sf of (s, f) \<Rightarrow>
      let (out, f1) = (if cfg_disable_logging c then (sub_out s, f) else snd (lw_write_all os started text (sub_out s, f)));
          (err, f2) = (if level \<in> {Warning, Error} then snd (lw_write_all os started text (sub_err s, f1)) else (sub_err s, f1))
      in (\<lparr>sub_out = out, sub_err = err\<rparr>, f2))"

subsection \<open>Lines\<close>

definition line_ends :: "string \<Rightarrow> nat" where
  "line_ends s = length (filter (\<lambda>ch. ch = LF) s)"

lemma line_ends_append [simp]: "line_ends (a @ b) = line_ends a + line_ends b"
  by (simp add: line_ends_def)

lemma concat_split_inclusive [simp]: "concat (split_inclusive s) = s"
  by (induction s) (auto split: list.splits)

text \<open>A piece of the split: at most one line end, at its end.\<close>

definition is_piece :: "string \<Rightarrow> bool" where
  "is_piece l \<longleftrightarrow> line_ends l = (if l \<noteq> [] \<and> last l = LF then 1 else 0)"

lemma split_inclusive_pieces: "l \<in> set (split_inclusive s) \<Longrightarrow> is_piece l \<and> l \<noteq> []"
proof (induction s arbitrary: l)
  case (Cons ch s)
  show ?case
  proof (cases "ch = LF")
    case True
    then have "l = [LF] \<or> l \<in> set (split_inclusive s)" using Cons.prems by simp
    then show ?thesis by (elim disjE) (simp add: is_piece_def line_ends_def, rule Cons.IH)
  next
    case False
    show ?thesis
    proof (cases "split_inclusive s")
      case Nil
      then show ?thesis using Cons.prems False by (simp add: is_piece_def line_ends_def)
    next
      case pieces: (Cons m ms)
      have "is_piece m \<and> m \<noteq> []" using Cons.IH [of m] pieces by simp
      then have "is_piece (ch # m)" using False by (auto simp: is_piece_def line_ends_def)
      moreover have "l = ch # m \<or> l \<in> set (split_inclusive s)" using Cons.prems False pieces by auto
      ultimately show ?thesis using Cons.IH [of l] by auto
    qed
  qed
qed simp

subsection \<open>Rotation\<close>

lemma rotate_opens:
  assumes "lw_open os started (w, f) = (None, w', f')" "\<not> lw_file w" "lw_rotate_on_open w" "lw_path w = d @ [n]"
    and "fs_get f (d @ [n]) = Some (File content t)" "is_dir f d" "with_extension (d @ [n]) ''old'' \<noteq> d @ [n]"
  shows "w' = w\<lparr>lw_file := True, lw_lines := 0, lw_rotate_on_open := False\<rparr> \<and> is_dir f' d
    \<and> (\<exists>t'. fs_get f' (with_extension (d @ [n]) ''old'') = Some (File content t'))
    \<and> (\<exists>t'. fs_get f' (d @ [n]) = Some (File (log_header started) t'))"
proof -
  define old where "old = with_extension (d @ [n]) ''old''"
  have old: "old \<noteq> d @ [n]" "d \<noteq> old" "parent old = d" using assms(7) by (auto simp: old_def with_extension_def)
  obtain f1 where rot: "rotate_log os (d @ [n]) f = (None, f1)" using assms(1-4) by (auto simp: lw_open_def split: prod.splits option.splits)
  have f1: "fs_get f1 old = Some (File content t)" "fs_get f1 (d @ [n]) = None" "is_dir f1 d"
    using rot assms(5,6) old
    by (auto simp: rotate_log_def old_def [symmetric] fs_remove_file_def fs_rename_def is_dir_def Let_def
        split: option.splits node.splits if_splits sum.splits io_error.splits)
  obtain f2 where op: "open_append os f1 (d @ [n]) = (None, f2)" and ap: "fs_append os f2 (d @ [n]) (log_header started) = (None, f')"
    and w': "w' = w\<lparr>lw_file := True, lw_lines := 0, lw_rotate_on_open := False\<rparr>"
    using assms(1-4) rot by (auto simp: lw_open_def Let_def split: prod.splits option.splits)
  have f2: "f2 = AList.update (d @ [n]) (File [] (os_now_ms os)) f1"
    using op f1 by (auto simp: open_append_def fs_write_def split: if_splits)
  have f': "f' = AList.update (d @ [n]) (File (log_header started) (os_now_ms os)) f2"
    using ap f2 by (auto simp: fs_append_def split: if_splits)
  show ?thesis unfolding f' f2 w' using f1 old by (simp add: old_def [symmetric])
qed

text \<open>Where the bytes of a call are: all in the current file, or split between the backup and the new file.\<close>

definition log_kept :: "string \<Rightarrow> path \<Rightarrow> string \<Rightarrow> nat \<Rightarrow> node option \<Rightarrow> string \<Rightarrow> LineWriter \<times> fs \<Rightarrow> bool" where
  "log_kept started p content n backup bytes st \<longleftrightarrow>
     (case st of (w, f) \<Rightarrow>
        lw_file w \<and> lw_path w = p \<and> is_dir f (parent p)
        \<and> ((\<exists>t. fs_get f p = Some (File (content @ bytes) t)) \<and> fs_get f (with_extension p ''old'') = backup
             \<and> lw_lines w = n + line_ends bytes \<and> lw_lines w \<le> lw_limit w
           \<or> (\<exists>pre suf t t'. bytes = pre @ suf \<and> fs_get f (with_extension p ''old'') = Some (File (content @ pre) t)
               \<and> fs_get f p = Some (File (log_header started @ suf) t') \<and> lw_lines w = line_ends suf
               \<and> n + line_ends pre = Suc (lw_limit w))))"

lemma write_line_kept:
  assumes "write_line os started l (w, f) = (None, w', f')" "log_kept started p content n backup bytes (w, f)" "is_piece l"
    and "p = d @ [nm]" "with_extension p ''old'' \<noteq> p" "n \<le> lw_limit w" "line_ends (bytes @ l) \<le> lw_limit w"
  shows "log_kept started p content n backup (bytes @ l) (w', f') \<and> lw_limit w' = lw_limit w"
proof -
  have path: "lw_path w = p" "lw_file w" "is_dir f d" using assms(2,4) by (simp_all add: log_kept_def)
  obtain f1 where ap: "fs_append os f p l = (None, f1)"
    using assms(1) path by (auto simp: write_line_def split: prod.splits option.splits)
  have f1: "f1 = AList.update p (File (c0 @ l) (os_now_ms os)) f" if "fs_get f p = Some (File c0 t)" for c0 t
    using ap that by (auto simp: fs_append_def split: if_splits)
  have dirs: "d \<noteq> p" "p \<noteq> d" "parent p = d" using assms(4) by simp_all
  show ?thesis
  proof (cases "l \<noteq> [] \<and> last l = LF")
    case False
    then have "w' = w" "f' = f1" "line_ends l = 0"
      using assms(1,3) ap path by (auto simp: write_line_def is_piece_def split: if_splits)
    then show ?thesis using assms(2,5) f1 dirs unfolding log_kept_def by fastforce
  next
    case True
    then have l1: "line_ends l = 1" using assms(3) by (simp add: is_piece_def)
    show ?thesis
    proof (cases "lw_limit w < Suc (lw_lines w)")
      case rotate: True
      have nolate: "lw_lines w = n + line_ends bytes" "\<exists>t. fs_get f p = Some (File (content @ bytes) t)"
        "fs_get f (with_extension p ''old'') = backup" "lw_lines w = lw_limit w"
        using assms(2,6,7) l1 rotate unfolding log_kept_def by auto
      have op: "lw_open os started (w\<lparr>lw_lines := Suc (lw_lines w), lw_file := False, lw_rotate_on_open := True\<rparr>, f1) = (None, w', f')"
        using assms(1) ap path True rotate by (simp add: write_line_def Let_def)
      obtain t where "fs_get f p = Some (File (content @ bytes) t)" using nolate(2) by blast
      from f1 [OF this] have g: "fs_get f1 (d @ [nm]) = Some (File (content @ bytes @ l) (os_now_ms os))" "is_dir f1 d"
        using assms(4) path(3) dirs by simp_all
      from rotate_opens [OF op _ _ _ g] obtain t1 t2 where r: "w' = w\<lparr>lw_lines := 0, lw_file := True, lw_rotate_on_open := False\<rparr>"
        "is_dir f' d" "fs_get f' (with_extension p ''old'') = Some (File (content @ bytes @ l) t1)"
        "fs_get f' p = Some (File (log_header started @ []) t2)" using assms(4,5) path by auto
      have "n + line_ends (bytes @ l) = Suc (lw_limit w')" using nolate l1 r(1) by simp
      then show ?thesis unfolding log_kept_def prod.case using r path dirs
        by (intro conjI disjI2 exI [of _ "bytes @ l"] exI [of _ "[]"] exI [of _ t1] exI [of _ t2]) (simp_all add: line_ends_def)
    next
      case False
      then have "w' = w\<lparr>lw_lines := Suc (lw_lines w)\<rparr>" "f' = f1"
        using assms(1) ap path True by (auto simp: write_line_def Let_def)
      then show ?thesis using assms(2,5) f1 dirs l1 False unfolding log_kept_def by fastforce
    qed
  qed
qed

lemma write_lines_kept:
  assumes "write_lines os started ls (w, f) = (None, w', f')" "log_kept started p content n backup bytes (w, f)" "list_all is_piece ls"
    and "p = d @ [nm]" "with_extension p ''old'' \<noteq> p" "n \<le> lw_limit w" "line_ends (bytes @ concat ls) \<le> lw_limit w"
  shows "log_kept started p content n backup (bytes @ concat ls) (w', f') \<and> lw_limit w' = lw_limit w"
  using assms
proof (induction ls arbitrary: w f bytes)
  case (Cons l ls)
  obtain w1 f1 where s: "write_line os started l (w, f) = (None, w1, f1)" "write_lines os started ls (w1, f1) = (None, w', f')"
    using Cons.prems(1) by (auto split: prod.splits option.splits)
  have "log_kept started p content n backup (bytes @ l) (w1, f1) \<and> lw_limit w1 = lw_limit w"
    by (rule write_line_kept [OF s(1) Cons.prems(2) _ Cons.prems(4-6)]) (use Cons.prems(3,7) in auto)
  then show ?case using Cons.IH [OF s(2), of "bytes @ l"] Cons.prems by simp
qed simp

subsection \<open>Properties\<close>

text \<open>
  C28: Rotation loses nothing. Writing an event of at most \<open>limit\<close> lines to an open log either appends it
  to the current file, or moves the file with the part of the event that fills it to the backup and puts
  the rest into a new file; the two parts are the event. The file is replaced exactly when it holds more
  than \<open>limit\<close> lines, so the counter never exceeds the limit.
\<close>

theorem rotation_keeps_events:
  assumes "lw_write_all os started buf (w, f) = (None, w', f')" "lw_file w" "lw_path w = d @ [nm]"
    and "fs_get f (d @ [nm]) = Some (File content t)" "is_dir f d" "with_extension (d @ [nm]) ''old'' \<noteq> d @ [nm]"
    and "lw_lines w \<le> lw_limit w" "line_ends buf \<le> lw_limit w"
  shows "log_kept started (d @ [nm]) content (lw_lines w) (fs_get f (with_extension (d @ [nm]) ''old'')) buf (w', f')
    \<and> lw_lines w' \<le> lw_limit w"
proof -
  let ?p = "d @ [nm]"
  have run: "write_lines os started (split_inclusive buf) (w, f) = (None, w', f')"
    using assms(1,2) by (simp add: lw_write_all_def lw_open_def)
  have i: "log_kept started ?p content (lw_lines w) (fs_get f (with_extension ?p ''old'')) [] (w, f)"
    using assms(2-5,7) by (auto simp: log_kept_def line_ends_def)
  have "list_all is_piece (split_inclusive buf)" using split_inclusive_pieces by (auto simp: list_all_iff)
  from write_lines_kept [OF run i this refl assms(6,7)] assms(8)
  have k: "log_kept started ?p content (lw_lines w) (fs_get f (with_extension ?p ''old'')) buf (w', f')" "lw_limit w' = lw_limit w" by simp_all
  then show ?thesis using assms(8) by (auto simp: log_kept_def)
qed

theorem rotation_keeps_events_witness:
  "case lw_write_all sample_os ''now'' (''a'' @ [LF] @ ''b'' @ [LF])
          (\<lparr>lw_path = [''log'', ''log_out''], lw_file = True, lw_lines = 2, lw_limit = 2, lw_rotate_on_open = False\<rparr>,
           [([''log''], Dir), ([''log'', ''log_out''], File ''old '' 0)]) of
     (r, w, f) \<Rightarrow> r = None \<and> lw_lines w \<le> 2 \<and> (\<exists>t. fs_get f [''log'', ''log_out.old''] = Some (File (''old a'' @ [LF]) t))"
proof -
  let ?w = "\<lparr>lw_path = [''log'', ''log_out''], lw_file = True, lw_lines = 2, lw_limit = 2, lw_rotate_on_open = False\<rparr>"
  let ?f = "[([''log''], Dir), ([''log'', ''log_out''], File ''old '' 0)]"
  obtain r w f where run: "lw_write_all sample_os ''now'' (''a'' @ [LF] @ ''b'' @ [LF]) (?w, ?f) = (r, w, f)" by (metis prod_cases3)
  have ext: "with_extension [''log'', ''log_out''] ''old'' = [''log'', ''log_out.old'']"
    by (simp add: with_extension_def file_stem_def Let_def parent_def file_name_def)
  have r: "r = None" "\<exists>t. fs_get f [''log'', ''log_out.old''] = Some (File (''old a'' @ [LF]) t)"
    using run by (auto simp: lw_write_all_def lw_open_def write_line_def fs_append_def sample_os_def rotate_log_def ext
        fs_remove_file_def fs_rename_def is_dir_def parent_def open_append_def fs_write_def Let_def)
  have "lw_lines w \<le> 2"
    using rotation_keeps_events [of sample_os "''now''" "''a'' @ [LF] @ ''b'' @ [LF]" ?w ?f w f "[''log'']" "''log_out''" "''old ''" 0] run r(1) ext
    by (simp add: is_dir_def line_ends_def)
  then show ?thesis using run r by simp
qed

end
