(* ===== verification/Hath_AccessLog.thy ===== *)
theory Hath_AccessLog
  imports Hath_Response Hath_Session Hath_Logging
begin

text \<open>
  The access log, \<^verbatim>\<open>src/src/server/middleware/access_log.rs\<close>: the line of a request, the body wrapper that
  keeps the session alive while packets are sent, and the line at the end of a response. The two
  numbers printed from floating point values (seconds, kilobytes per second) are formatters given as
  parameters. What is logged is a list of levels and texts.
\<close>

definition pad_right :: "nat \<Rightarrow> string \<Rightarrow> string" where
  "pad_right n s = s @ replicate (n - length s) CHR '' ''"

definition access_log_prefix :: "u32 \<Rightarrow> IpAddr \<Rightarrow> string" where
  "access_log_prefix conn_id client_ip =
     ''{'' @ show_word conn_id @ pad_right 17 (''/'' @ show_ip client_ip @ ''}'') @ '' ''"

definition access_log_request_info :: "string \<Rightarrow> u16 \<Rightarrow> u64 option \<Rightarrow> bool \<Rightarrow> string" where
  "access_log_request_info prefix status_code content_length head_only =
     (if head_only then prefix @ ''Code='' @ show_word status_code @ '' ''
      else prefix @ ''Code='' @ show_word status_code @ '' Bytes='' @ pad_right 8 (show_word (unwrap_or content_length 0)) @ '' '')"

datatype AccessLogCompletion = Log_Finished nat | Log_Incomplete string nat nat | Log_Aborted nat nat

definition log_label :: "AccessLogCompletion \<Rightarrow> string" where
  "log_label fate = (case fate of Log_Finished _ \<Rightarrow> ''Finished'' | Log_Incomplete _ _ _ \<Rightarrow> ''Incomplete'' | Log_Aborted _ _ \<Rightarrow> ''Aborted'')"

definition log_offset :: "AccessLogCompletion \<Rightarrow> nat" where
  "log_offset fate = (case fate of Log_Finished n \<Rightarrow> n | Log_Incomplete _ n _ \<Rightarrow> n | Log_Aborted n _ \<Rightarrow> n)"

definition log_suffix :: "AccessLogCompletion \<Rightarrow> string" where
  "log_suffix fate =
     (case fate of
        Log_Finished _ \<Rightarrow> []
      | Log_Incomplete reason n total_size \<Rightarrow> '' reason='' @ reason @ '' offset='' @ show_nat n @ '' expected='' @ show_nat total_size
      | Log_Aborted n total_size \<Rightarrow> '' offset='' @ show_nat n @ '' expected='' @ show_nat total_size)"

text \<open>Times are in nanoseconds.\<close>

record log_fmt =
  fmt_seconds :: "nat \<Rightarrow> string"
  fmt_rate :: "nat \<Rightarrow> nat \<Rightarrow> string"

definition access_log_completion_line :: "log_fmt \<Rightarrow> string \<Rightarrow> nat \<Rightarrow> AccessLogCompletion \<Rightarrow> string" where
  "access_log_completion_line fmt info elapsed fate =
     (let elapsed_ms = elapsed div 1000000;
          speed = (if 10 \<le> elapsed_ms then '' ('' @ fmt_rate fmt (log_offset fate) elapsed_ms @ '' KB/s)'' else [])
      in info @ log_label fate @ '' processing request in '' @ fmt_seconds fmt elapsed @ '' seconds'' @ speed @ log_suffix fate)"

definition access_log_completion_from_body :: "BodyCompletionSnapshot \<Rightarrow> AccessLogCompletion" where
  "access_log_completion_from_body s =
     (case bs_completion s of
        Complete \<Rightarrow> Log_Finished (bs_offset s)
      | Incomplete reason \<Rightarrow> Log_Incomplete (reason_as_str reason) (bs_offset s) (bs_total_size s)
      | Body_running \<Rightarrow> Log_Incomplete ''body_returned_eof_without_completion'' (bs_offset s) (bs_total_size s))"

subsection \<open>The wrapped body\<close>

record AccessLogBody =
  al_inner :: StreamingBody
  al_info :: "string option"
  al_start :: nat
  al_session :: "u32 option"

definition AccessLogBody_new :: "StreamingBody \<Rightarrow> string \<Rightarrow> nat \<Rightarrow> u32 option \<Rightarrow> AccessLogBody" where
  "AccessLogBody_new inner info start_time session = \<lparr>al_inner = inner, al_info = Some info, al_start = start_time, al_session = session\<rparr>"

definition new_without_completion :: "nat \<Rightarrow> StreamingBody \<Rightarrow> AccessLogBody" where
  "new_without_completion now inner = \<lparr>al_inner = inner, al_info = None, al_start = now, al_session = None\<rparr>"

type_synonym log_entries = "(LogLevel \<times> string) list"

definition log_completion :: "log_fmt \<Rightarrow> nat \<Rightarrow> AccessLogCompletion \<Rightarrow> AccessLogBody \<times> log_entries \<Rightarrow> AccessLogBody \<times> log_entries" where
  "log_completion fmt now fate bl =
     (case bl of (b, log) \<Rightarrow>
        case al_info b of
          None \<Rightarrow> (b, log)
        | Some info \<Rightarrow>
            (b\<lparr>al_info := None\<rparr>,
             log @ [(case fate of Log_Incomplete _ _ _ \<Rightarrow> Warning | _ \<Rightarrow> Info,
                     access_log_completion_line fmt info (now - al_start b) fate)]))"

record access_state =
  as_body :: AccessLogBody
  as_world :: body_world
  as_sessions :: SessionManager
  as_log :: log_entries

text \<open>
  A round of the inner body seen through the wrapper; \<open>now\<close> is in nanoseconds, the session registry's
  clock in milliseconds.
\<close>

definition access_round :: "log_fmt \<Rightarrow> digest \<Rightarrow> os \<Rightarrow> Config \<Rightarrow> nat \<Rightarrow> poll_obs \<Rightarrow> access_state \<Rightarrow> poll_step \<times> access_state" where
  "access_round fmt sha1 os c now ob s =
     (case poll_round sha1 os c ob (al_inner (as_body s), as_world s) of
        (st, inner, w) \<Rightarrow>
          let s1 = s\<lparr>as_body := (as_body s)\<lparr>al_inner := inner\<rparr>, as_world := w\<rparr> in
          case st of
            Frame x \<Rightarrow>
              (st, if x \<noteq> []
                   then (case al_session (as_body s) of
                           None \<Rightarrow> s1
                         | Some i \<Rightarrow> s1\<lparr>as_sessions := mark_packet_sent (now div 1000000) i (as_sessions s1)\<rparr>)
                   else s1)
          | End_of_body \<Rightarrow>
              (case log_completion fmt now (access_log_completion_from_body (completion_status inner)) (as_body s1, as_log s1) of
                 (b, log) \<Rightarrow> (st, s1\<lparr>as_body := b, as_log := log\<rparr>))
          | _ \<Rightarrow> (st, s1))"

text \<open>Dropping: the wrapper logs first, then its fields are dropped.\<close>

definition access_drop :: "log_fmt \<Rightarrow> digest \<Rightarrow> os \<Rightarrow> Config \<Rightarrow> nat \<Rightarrow> access_state \<Rightarrow> access_state" where
  "access_drop fmt sha1 os c now s =
     (let snap = completion_status (al_inner (as_body s));
          fate = (if bs_total_size snap \<le> bs_offset snap then Log_Finished (bs_offset snap) else Log_Aborted (bs_offset snap) (bs_total_size snap));
          (b, log) = (if al_info (as_body s) \<noteq> None then log_completion fmt now fate (as_body s, as_log s) else (as_body s, as_log s))
      in case body_drop sha1 os c (al_inner b, as_world s) of
           (inner, w) \<Rightarrow> s\<lparr>as_body := b\<lparr>al_inner := inner\<rparr>, as_world := w, as_log := log\<rparr>)"

fun access_rounds :: "log_fmt \<Rightarrow> digest \<Rightarrow> os \<Rightarrow> Config \<Rightarrow> (nat \<times> poll_obs) list \<Rightarrow> access_state \<Rightarrow> access_state" where
  "access_rounds fmt sha1 os c [] s = s"
| "access_rounds fmt sha1 os c ((now, ob) # obs) s = access_rounds fmt sha1 os c obs (snd (access_round fmt sha1 os c now ob s))"

subsection \<open>The service\<close>

definition access_log_call :: "u32 \<Rightarrow> SocketAddr \<Rightarrow> u32 option \<Rightarrow> string \<Rightarrow> string option \<Rightarrow> string \<Rightarrow> nat \<Rightarrow> nat \<Rightarrow> Response
    \<Rightarrow> AccessLogBody \<times> log_entries" where
  "access_log_call conn_id remote_addr session meth path_and_query version start_time now resp =
     (let head_only = (meth = ''HEAD'');
          prefix = access_log_prefix conn_id (normalize_ip (sock_ip remote_addr));
          content_length = Option.bind (map_of (hr_headers resp) ''content-length'') parse_word;
          info = access_log_request_info prefix (hr_status resp) content_length head_only
      in (if head_only then new_without_completion now (hr_body resp) else AccessLogBody_new (hr_body resp) info start_time session,
          [(Info, info @ meth @ '' '' @ unwrap_or path_and_query ''/'' @ '' '' @ version)]))"

subsection \<open>One line per response\<close>

text \<open>The inner body's own books: the offset counts what was sent, and it is complete only at the end.\<close>

definition books :: "nat \<Rightarrow> nat \<Rightarrow> string \<Rightarrow> StreamingBody \<Rightarrow> body_world \<Rightarrow> bool" where
  "books n0 t0 d b w \<longleftrightarrow> sb_offset b = n0 + length d \<and> sb_total_size b = t0 \<and> (sb_completion b = Complete \<longrightarrow> t0 \<le> sb_offset b)"

interpretation body_books: body_invariant sha1 os c "\<lambda>_. True" "books n0 t0" for sha1 os c n0 t0
proof (unfold_locales, goal_cases)
  case (6 d b w r b' w')
  then show ?case using finish_with_fields [OF 6(2)] by (auto simp: books_def split: if_splits)
qed (auto simp: books_def)

definition honest_entry :: "log_fmt \<Rightarrow> string \<Rightarrow> nat \<Rightarrow> LogLevel \<times> string \<Rightarrow> bool" where
  "honest_entry fmt info t0 e \<longleftrightarrow>
     (\<exists>elapsed fate. snd e = access_log_completion_line fmt info elapsed fate
        \<and> (case fate of Log_Finished n \<Rightarrow> t0 \<le> n \<and> fst e = Info
                      | Log_Incomplete _ n t \<Rightarrow> t = t0 \<and> fst e = Warning
                      | Log_Aborted n t \<Rightarrow> t = t0 \<and> n < t0 \<and> fst e = Info))"

definition log_state :: "log_fmt \<Rightarrow> string \<Rightarrow> nat \<Rightarrow> log_entries \<Rightarrow> access_state \<Rightarrow> bool" where
  "log_state fmt info t0 log0 s \<longleftrightarrow>
     (\<exists>d. books 0 t0 d (al_inner (as_body s)) (as_world s))
     \<and> (al_info (as_body s) = Some info \<and> as_log s = log0
        \<or> al_info (as_body s) = None \<and> (\<exists>e. as_log s = log0 @ [e] \<and> honest_entry fmt info t0 e))"

lemma from_body_honest:
  assumes "books 0 t0 d b w" "fate = access_log_completion_from_body (completion_status b)"
  shows "honest_entry fmt info t0 (case fate of Log_Incomplete _ _ _ \<Rightarrow> Warning | _ \<Rightarrow> Info, access_log_completion_line fmt info el fate)"
  unfolding honest_entry_def assms(2) using assms(1)
  by (intro exI [of _ el] exI [of _ "access_log_completion_from_body (completion_status b)"])
    (auto simp: access_log_completion_from_body_def completion_status_def books_def split: BodyCompletion.splits)

lemma log_completion_state:
  assumes "log_completion fmt now fate (b, log) = (b', log')"
  shows "al_inner b' = al_inner b \<and> al_info b' = None
    \<and> log' = (case al_info b of None \<Rightarrow> log
        | Some info \<Rightarrow> log @ [(case fate of Log_Incomplete _ _ _ \<Rightarrow> Warning | _ \<Rightarrow> Info,
                              access_log_completion_line fmt info (now - al_start b) fate)])"
  using assms by (auto simp: log_completion_def split: option.splits)

lemma access_round_state:
  assumes "log_state fmt info t0 log0 s" "access_round fmt sha1 os c now ob s = (st, s')"
  shows "log_state fmt info t0 log0 s'"
proof -
  obtain d where d: "books 0 t0 d (al_inner (as_body s)) (as_world s)" using assms(1) by (auto simp: log_state_def)
  obtain st1 inner w where r: "poll_round sha1 os c ob (al_inner (as_body s), as_world s) = (st1, inner, w)" by (metis prod_cases3)
  have b: "books 0 t0 (d @ delivered st1) inner w" using body_books.poll_round_inv [OF d TrueI r] .
  show ?thesis
  proof (cases "st1 = End_of_body")
    case True
    define fate where "fate = access_log_completion_from_body (completion_status inner)"
    obtain b' log' where l: "log_completion fmt now fate ((as_body s)\<lparr>al_inner := inner\<rparr>, as_log s) = (b', log')" by force
    have s': "s' = s\<lparr>as_body := b', as_world := w, as_log := log'\<rparr>"
      using assms(2) r True l by (auto simp: access_round_def Let_def fate_def)
    show ?thesis using assms(1) b log_completion_state [OF l] from_body_honest [OF b fate_def]
      unfolding s' log_state_def by auto
  next
    case False
    then have "al_inner (as_body s') = inner" "al_info (as_body s') = al_info (as_body s)" "as_world s' = w" "as_log s' = as_log s"
      using assms(2) r by (auto simp: access_round_def Let_def split: poll_step.splits option.splits if_splits)
    then show ?thesis using assms(1) b unfolding log_state_def by auto
  qed
qed

lemma access_rounds_state:
  "log_state fmt info t0 log0 s \<Longrightarrow> log_state fmt info t0 log0 (access_rounds fmt sha1 os c obs s)"
proof (induction fmt sha1 os c obs s rule: access_rounds.induct)
  case (2 fmt sha1 os c now ob obs s)
  then show ?case using access_round_state [of fmt info t0 log0 s sha1 os c now ob]
    by (cases "access_round fmt sha1 os c now ob s") simp
qed simp

lemma access_drop_state:
  assumes "log_state fmt info t0 log0 s"
  shows "\<exists>e. as_log (access_drop fmt sha1 os c now s) = log0 @ [e] \<and> honest_entry fmt info t0 e"
proof -
  obtain d where d: "books 0 t0 d (al_inner (as_body s)) (as_world s)" using assms by (auto simp: log_state_def)
  define b where "b = al_inner (as_body s)"
  define fate where "fate = (if sb_total_size b \<le> sb_offset b then Log_Finished (sb_offset b) else Log_Aborted (sb_offset b) (sb_total_size b))"
  have h: "honest_entry fmt info t0 (case fate of Log_Incomplete _ _ _ \<Rightarrow> Warning | _ \<Rightarrow> Info, access_log_completion_line fmt info el fate)" for el
    unfolding honest_entry_def using d by (intro exI [of _ el] exI [of _ fate]) (auto simp: fate_def books_def b_def)
  show ?thesis
  proof (cases "al_info (as_body s)")
    case None
    then show ?thesis using assms by (auto simp: access_drop_def log_state_def Let_def split: prod.splits)
  next
    case (Some i)
    then have "i = info" "as_log s = log0" using assms by (auto simp: log_state_def)
    then have "as_log (access_drop fmt sha1 os c now s)
        = log0 @ [(case fate of Log_Incomplete _ _ _ \<Rightarrow> Warning | _ \<Rightarrow> Info, access_log_completion_line fmt info (now - al_start (as_body s)) fate)]"
      using Some by (simp add: access_drop_def log_completion_def completion_status_def fate_def b_def Let_def split: prod.split)
    then show ?thesis using h by blast
  qed
qed

subsection \<open>Properties\<close>


definition plain_fmt :: log_fmt where
  "plain_fmt = \<lparr>fmt_seconds = (\<lambda>n. show_nat (n div 1000000000)), fmt_rate = (\<lambda>b ms. show_nat (b div ms))\<rparr>"


end
