(* ===== verification/Hath_Tls.thy ===== *)
theory Hath_Tls
  imports Hath_Downloader "HOL-Library.Multiset"
begin

text \<open>
  The server certificate, \<^verbatim>\<open>src/src/server/tls.rs\<close> and the key and signature helpers of
  \<^verbatim>\<open>src/src/tls/rustls_backend.rs\<close>: the archive, the order of its chain, the expiry window and the
  acceptor. PKCS12, X.509 and the cryptography are library parameters; certificates and keys are DER bytes.
\<close>

definition SECS_PER_DAY :: int where "SECS_PER_DAY = 86400"
definition CERT_RENEWAL_WINDOW_SECS :: int where "CERT_RENEWAL_WINDOW_SECS = SECS_PER_DAY"

definition i64_saturating_add :: "int \<Rightarrow> int \<Rightarrow> int" where
  "i64_saturating_add a b = max (- (2 ^ 63)) (min (2 ^ 63 - 1) (a + b))"

text \<open>\<open>now\<close> is the Unix time.\<close>

definition is_cert_expired :: "int \<Rightarrow> int \<Rightarrow> bool" where
  "is_cert_expired now cert_expiry_unix \<longleftrightarrow> cert_expiry_unix < i64_saturating_add now CERT_RENEWAL_WINDOW_SECS"

subsection \<open>The libraries\<close>

text \<open>
  A parsed certificate: key, names, the two extensions that make an issuer (an error, absent, or the flag
  \<^verbatim>\<open>ca\<close> respectively \<^verbatim>\<open>key_cert_sign\<close>) and the end of its validity.
\<close>

record X509 =
  x_spki :: string
  x_issuer :: string
  x_subject :: string
  x_basic_constraints :: "bool option option"
  x_key_usage :: "bool option option"
  x_not_after :: int

record 'p tls_lib =
  tl_parse :: "string \<Rightarrow> X509 option"
  tl_verify_signature :: "X509 \<Rightarrow> string \<Rightarrow> bool"
  tl_load_key :: "string \<Rightarrow> string option option"
  tl_pfx_parse :: "string \<Rightarrow> 'p option"
  tl_verify_mac :: "'p \<Rightarrow> string \<Rightarrow> bool"
  tl_key_bags :: "'p \<Rightarrow> string \<Rightarrow> string list option"
  tl_cert_bags :: "'p \<Rightarrow> string \<Rightarrow> string list option"
  tl_server_config :: "string list \<Rightarrow> string \<Rightarrow> bool"

definition private_key_spki :: "('p, 'z) tls_lib_scheme \<Rightarrow> string \<Rightarrow> string res" where
  "private_key_spki lib key =
     (case tl_load_key lib key of
        None \<Rightarrow> Inl (Tls ''invalid PKCS12 private key'')
      | Some None \<Rightarrow> Inl (Tls ''could not determine PKCS12 private key public key'')
      | Some (Some spki) \<Rightarrow> Inr spki)"

definition is_signed_by :: "('p, 'z) tls_lib_scheme \<Rightarrow> string \<Rightarrow> string \<Rightarrow> bool" where
  "is_signed_by lib child issuer =
     (case (tl_parse lib child, tl_parse lib issuer) of
        (Some c, Some i) \<Rightarrow> tl_verify_signature lib c (x_spki i)
      | _ \<Rightarrow> False)"

definition build_server_acceptor :: "('p, 'z) tls_lib_scheme \<Rightarrow> string list \<Rightarrow> string \<Rightarrow> (string list \<times> string) res" where
  "build_server_acceptor lib chain key =
     (if tl_server_config lib chain key then Inr (chain, key) else Inl (Tls ''failed to configure TLS certificate''))"

text \<open>
  The same three operations of the other back end, \<^verbatim>\<open>src/src/tls/openssl_backend.rs\<close>, over the calls it makes:
  the public half of a key, the key of a certificate, the verification of a signature and the steps that
  configure an acceptor, each of which may fail.
\<close>

record ossl_lib =
  ol_public_der :: "string \<Rightarrow> string option"
  ol_cert_key :: "string \<Rightarrow> string option"
  ol_verify :: "string \<Rightarrow> string \<Rightarrow> bool option"
  ol_profile :: bool
  ol_set_certificate :: "string \<Rightarrow> bool"
  ol_add_chain_cert :: "string \<Rightarrow> bool"
  ol_check_private_key :: "string option \<Rightarrow> string \<Rightarrow> bool"

definition openssl_private_key_spki :: "ossl_lib \<Rightarrow> string \<Rightarrow> string res" where
  "openssl_private_key_spki ol key =
     (case ol_public_der ol key of None \<Rightarrow> Inl (Tls ''invalid PKCS12 private key'') | Some der \<Rightarrow> Inr der)"

definition openssl_is_signed_by :: "ossl_lib \<Rightarrow> string \<Rightarrow> string \<Rightarrow> bool" where
  "openssl_is_signed_by ol child issuer =
     (case ol_cert_key ol issuer of None \<Rightarrow> False | Some issuer_key \<Rightarrow> unwrap_or (ol_verify ol child issuer_key) False)"

definition openssl_build_server_acceptor :: "ossl_lib \<Rightarrow> string list \<Rightarrow> string \<Rightarrow> (string list \<times> string) res" where
  "openssl_build_server_acceptor ol chain key =
     (if ol_profile ol
         \<and> (case chain of [] \<Rightarrow> True | leaf # certificates \<Rightarrow> ol_set_certificate ol leaf \<and> list_all (ol_add_chain_cert ol) certificates)
         \<and> ol_check_private_key ol (case chain of [] \<Rightarrow> None | leaf # _ \<Rightarrow> Some leaf) key
      then Inr (chain, key) else Inl (Tls ''failed to configure TLS certificate''))"

text \<open>
  The back ends are interchangeable: with the key and signature operations of the one read as operations of
  the other, on certificates both libraries parse alike, the three functions agree.
\<close>

definition openssl_view :: "ossl_lib \<Rightarrow> ('p, 'z) tls_lib_scheme \<Rightarrow> ('p, 'z) tls_lib_scheme" where
  "openssl_view ol lib = lib\<lparr>tl_load_key := (\<lambda>key. map_option Some (ol_public_der ol key)),
     tl_server_config := (\<lambda>chain key. \<exists>a. openssl_build_server_acceptor ol chain key = Inr a)\<rparr>"

lemma openssl_agrees:
  assumes "\<And>d. ol_cert_key ol d = map_option x_spki (tl_parse lib d)"
    and "\<And>d k. ol_verify ol d k = map_option (\<lambda>c. tl_verify_signature lib c k) (tl_parse lib d)"
  shows "openssl_private_key_spki ol key = private_key_spki (openssl_view ol lib) key"
    and "openssl_is_signed_by ol child issuer = is_signed_by (openssl_view ol lib) child issuer"
    and "openssl_build_server_acceptor ol chain key = build_server_acceptor (openssl_view ol lib) chain key"
  by (auto simp: openssl_private_key_spki_def private_key_spki_def openssl_is_signed_by_def is_signed_by_def
      openssl_build_server_acceptor_def build_server_acceptor_def openssl_view_def assms unwrap_or_def
      split: option.split)

subsection \<open>The order of the chain\<close>

definition is_valid_issuer :: "X509 \<Rightarrow> X509 \<Rightarrow> bool res" where
  "is_valid_issuer child candidate =
     (if x_issuer child \<noteq> x_subject candidate then Inr False
      else case x_basic_constraints candidate of
          None \<Rightarrow> Inl (Tls ''invalid issuer basic constraints'')
        | Some bc \<Rightarrow>
            if bc \<noteq> Some True then Inr False
            else (case x_key_usage candidate of
                    None \<Rightarrow> Inl (Tls ''invalid issuer key usage'')
                  | Some ku \<Rightarrow> Inr (ku \<noteq> Some False)))"

text \<open>
  The loop both searches share: the index of the one certificate that passes, an error of the check itself,
  or an error when a second one passes.
\<close>

fun scan_unique :: "(string \<Rightarrow> bool res) \<Rightarrow> HathError \<Rightarrow> nat \<Rightarrow> nat option \<Rightarrow> string list \<Rightarrow> nat option res" where
  "scan_unique check dup i found [] = Inr found"
| "scan_unique check dup i found (c # cs) =
     (case check c of
        Inl e \<Rightarrow> Inl e
      | Inr False \<Rightarrow> scan_unique check dup (Suc i) found cs
      | Inr True \<Rightarrow> if found \<noteq> None then Inl dup else scan_unique check dup (Suc i) (Some i) cs)"

definition is_leaf :: "('p, 'z) tls_lib_scheme \<Rightarrow> string \<Rightarrow> string \<Rightarrow> bool res" where
  "is_leaf lib key_spki certificate =
     (case tl_parse lib certificate of
        None \<Rightarrow> Inl (Tls ''invalid PKCS12 certificate'')
      | Some parsed \<Rightarrow> Inr (x_spki parsed = key_spki))"

definition is_issuer :: "('p, 'z) tls_lib_scheme \<Rightarrow> string \<Rightarrow> X509 \<Rightarrow> string \<Rightarrow> bool res" where
  "is_issuer lib last_der child certificate =
     (case tl_parse lib certificate of
        None \<Rightarrow> Inl (Tls ''invalid PKCS12 certificate'')
      | Some candidate \<Rightarrow>
          (case is_valid_issuer child candidate of
             Inl e \<Rightarrow> Inl e
           | Inr ok \<Rightarrow> Inr (ok \<and> is_signed_by lib last_der certificate)))"

definition remove_at :: "nat \<Rightarrow> 'a list \<Rightarrow> 'a list" where
  "remove_at i xs = take i xs @ drop (Suc i) xs"

lemma scan_found: "scan_unique check dup i (Some j) cs = Inr r \<Longrightarrow> r = Some j \<and> (\<forall>c \<in> set cs. check c = Inr False)"
proof (induction cs arbitrary: i)
  case (Cons c cs)
  then show ?case by (cases "check c") (auto split: if_splits bool.splits)
qed simp

lemma scan_spec:
  "scan_unique check dup i None cs = Inr (Some j) \<Longrightarrow> i \<le> j \<and> j < i + length cs \<and> (\<forall>k < length cs. check (cs ! k) = Inr (i + k = j))"
proof (induction cs arbitrary: i)
  case (Cons c cs)
  obtain b where b: "check c = Inr b" using Cons.prems by (cases "check c") auto
  show ?case
  proof (cases b)
    case True
    then have "scan_unique check dup (Suc i) (Some i) cs = Inr (Some j)" using Cons.prems b by simp
    from scan_found [OF this] have "j = i" "\<forall>c \<in> set cs. check c = Inr False" by simp_all
    then show ?thesis using b True by (auto simp: nth_Cons split: nat.splits)
  next
    case False
    then have "scan_unique check dup (Suc i) None cs = Inr (Some j)" using Cons.prems b by simp
    from Cons.IH [OF this] show ?thesis using b False by (auto simp: nth_Cons split: nat.splits)
  qed
qed simp

lemma remove_at_length: "i < length xs \<Longrightarrow> length (remove_at i xs) < length xs"
  by (simp add: remove_at_def)

lemma remove_at_mset: "i < length xs \<Longrightarrow> mset xs = add_mset (xs ! i) (mset (remove_at i xs))"
  by (subst id_take_nth_drop [of i xs]) (simp_all add: remove_at_def)

function order_loop :: "('p, 'z) tls_lib_scheme \<Rightarrow> string list \<Rightarrow> string list \<Rightarrow> string list res" where
  "order_loop lib chain certificates =
     (if certificates = [] then Inr chain
      else case tl_parse lib (last chain) of
          None \<Rightarrow> Inl (Tls ''invalid PKCS12 certificate'')
        | Some child \<Rightarrow>
            (case scan_unique (is_issuer lib (last chain) child)
                    (Tls ''multiple PKCS12 certificates can issue the same child certificate'') 0 None certificates of
               Inl e \<Rightarrow> Inl e
             | Inr None \<Rightarrow> Inl (Tls ''PKCS12 certificate chain is incomplete or invalid'')
             | Inr (Some i) \<Rightarrow> order_loop lib (chain @ [certificates ! i]) (remove_at i certificates)))"
  by pat_completeness auto
termination
  by (relation "measure (\<lambda>(lib, chain, certificates). length certificates)") (auto dest!: scan_spec intro!: remove_at_length)

declare order_loop.simps [simp del]

definition order_certificate_chain :: "('p, 'z) tls_lib_scheme \<Rightarrow> string list \<Rightarrow> string \<Rightarrow> string list res" where
  "order_certificate_chain lib certificates private_key =
     (case private_key_spki lib private_key of
        Inl e \<Rightarrow> Inl e
      | Inr key_spki \<Rightarrow>
          (case scan_unique (is_leaf lib key_spki) (Tls ''multiple PKCS12 certificates match the private key'') 0 None certificates of
             Inl e \<Rightarrow> Inl e
           | Inr None \<Rightarrow> Inl (Tls ''no PKCS12 certificate matches the private key'')
           | Inr (Some i) \<Rightarrow> order_loop lib [certificates ! i] (remove_at i certificates)))"

subsection \<open>The archive and the acceptor\<close>

definition select_private_key :: "string list \<Rightarrow> string res" where
  "select_private_key keys = (case keys of [k] \<Rightarrow> Inr k | _ \<Rightarrow> Inl (Tls ''PKCS12 archive must contain exactly one private key''))"

record ParsedP12Certificate =
  pc_chain :: "string list"
  pc_key :: string

definition parse_p12_certificate :: "('p, 'z) tls_lib_scheme \<Rightarrow> string \<Rightarrow> string \<Rightarrow> ParsedP12Certificate res" where
  "parse_p12_certificate lib data password =
     (case tl_pfx_parse lib data of
        None \<Rightarrow> Inl (Tls ''invalid PKCS12 archive'')
      | Some pfx \<Rightarrow>
          if \<not> tl_verify_mac lib pfx password then Inl (Tls ''PKCS12 archive integrity check failed'')
          else (case tl_key_bags lib pfx password of
              None \<Rightarrow> Inl (Tls ''failed to decrypt PKCS12 private key'')
            | Some keys \<Rightarrow>
                (case tl_cert_bags lib pfx password of
                   None \<Rightarrow> Inl (Tls ''failed to decrypt PKCS12 certificates'')
                 | Some certs \<Rightarrow>
                     (case select_private_key keys of
                        Inl e \<Rightarrow> Inl e
                      | Inr key \<Rightarrow>
                          (case order_certificate_chain lib certs key of
                             Inl e \<Rightarrow> Inl e
                           | Inr chain \<Rightarrow> Inr \<lparr>pc_chain = chain, pc_key = key\<rparr>)))))"

definition certificate_expiry_unix :: "('p, 'z) tls_lib_scheme \<Rightarrow> string \<Rightarrow> int res" where
  "certificate_expiry_unix lib cert =
     (case tl_parse lib cert of
        None \<Rightarrow> Inl (Tls ''invalid leaf certificate'')
      | Some c \<Rightarrow> Inr (x_not_after c))"

text \<open>What the download sees, the URL library and the random number of the host are parameters.\<close>

definition fetch_certificate :: "('u, 'y) url_lib_scheme \<Rightarrow> digest \<Rightarrow> int \<Rightarrow> u32 \<Rightarrow> os \<Rightarrow> ('u \<Rightarrow> dl_net) \<Rightarrow> Config \<Rightarrow> fs \<Rightarrow> unit res \<times> fs" where
  "fetch_certificate ulib sha1 now rng os net c f =
     (case make_rpc_url ulib sha1 now GetCertificate [] c (default_rpc_host rng c) of
        Inl e \<Rightarrow> (Inl e, f)
      | Inr cert_url \<Rightarrow>
          (case download os (net cert_url) (FileDownloader_new (File_mode (cfg_data_dir c @ [''hathcert.p12''])), f) of
             (Inl e, _, f1) \<Rightarrow> (Inl e, f1)
           | (Inr _, _, f1) \<Rightarrow> (Inr (), f1)))"

definition build_tls_acceptor :: "('p, 'z) tls_lib_scheme \<Rightarrow> ('u, 'y) url_lib_scheme \<Rightarrow> digest \<Rightarrow> int \<Rightarrow> u32 \<Rightarrow> os \<Rightarrow> ('u \<Rightarrow> dl_net)
    \<Rightarrow> Config \<Rightarrow> bool \<Rightarrow> fs \<Rightarrow> ((string list \<times> string) \<times> int) res \<times> fs" where
  "build_tls_acceptor lib ulib sha1 now rng os net c force_download f =
     (let cert_path = cfg_data_dir c @ [''hathcert.p12''] in
      case (if force_download \<or> \<not> path_exists f cert_path then fetch_certificate ulib sha1 now rng os net c f else (Inr (), f)) of
        (Inl e, f1) \<Rightarrow> (Inl e, f1)
      | (Inr _, f1) \<Rightarrow>
          (case fs_read os f1 cert_path of
             Inl _ \<Rightarrow> (Inl (Io ''read''), f1)
           | Inr data \<Rightarrow>
               (case parse_p12_certificate lib data (key_str (cfg_client_key c)) of
                  Inl e \<Rightarrow> (Inl e, f1)
                | Inr parsed \<Rightarrow>
                    (case certificate_expiry_unix lib (pc_chain parsed ! 0) of
                       Inl e \<Rightarrow> (Inl e, f1)
                     | Inr expiry \<Rightarrow>
                         if is_cert_expired now expiry then (Inl CertExpired, f1)
                         else (case build_server_acceptor lib (pc_chain parsed) (pc_key parsed) of
                                 Inl e \<Rightarrow> (Inl e, f1)
                               | Inr acceptor \<Rightarrow> (Inr (acceptor, expiry), f1))))))"

subsection \<open>Valid chains\<close>

definition issues :: "('p, 'z) tls_lib_scheme \<Rightarrow> string \<Rightarrow> string \<Rightarrow> bool" where
  "issues lib child_der issuer_der \<longleftrightarrow>
     (\<exists>child issuer. tl_parse lib child_der = Some child \<and> tl_parse lib issuer_der = Some issuer
        \<and> is_valid_issuer child issuer = Inr True \<and> tl_verify_signature lib child (x_spki issuer))"

definition valid_chain :: "('p, 'z) tls_lib_scheme \<Rightarrow> string \<Rightarrow> string list \<Rightarrow> bool" where
  "valid_chain lib key chain \<longleftrightarrow>
     chain \<noteq> [] \<and> (\<exists>leaf. tl_parse lib (hd chain) = Some leaf \<and> private_key_spki lib key = Inr (x_spki leaf))
     \<and> successively (issues lib) chain"

lemma is_issuer_issues:
  assumes "tl_parse lib d = Some child" "is_issuer lib d child c = Inr b"
  shows "b \<longleftrightarrow> issues lib d c"
  using assms by (auto simp: is_issuer_def issues_def is_signed_by_def split: option.splits sum.splits)

lemma snoc_nonempty: "xs @ [x] \<noteq> []"
  by simp

lemma order_loop_spec:
  assumes "order_loop lib chain certs = Inr res" "chain \<noteq> []"
  shows "\<exists>tail. res = chain @ tail \<and> mset tail = mset certs \<and> successively (issues lib) (last chain # tail)
    \<and> (\<forall>tail'. mset tail' = mset certs \<longrightarrow> successively (issues lib) (last chain # tail') \<longrightarrow> tail' = tail)"
  using assms
proof (induction lib chain certs rule: order_loop.induct)
  case (1 lib chain certs)
  show ?case
  proof (cases "certs = []")
    case True
    then show ?thesis using 1(2) by (simp add: order_loop.simps)
  next
    case False
    note run = 1(2) [unfolded order_loop.simps [of lib chain certs] if_not_P [OF False]]
    obtain child where p: "tl_parse lib (last chain) = Some child" using run by (auto split: option.splits)
    let ?scan = "scan_unique (is_issuer lib (last chain) child) (Tls ''multiple PKCS12 certificates can issue the same child certificate'') 0 None certs"
    obtain i where s: "?scan = Inr (Some i)" using run p by (auto split: sum.splits option.splits)
    have i: "i < length certs" "\<And>k. k < length certs \<Longrightarrow> issues lib (last chain) (certs ! k) \<longleftrightarrow> k = i"
      using scan_spec [OF s] is_issuer_issues [OF p] by auto
    have rest: "order_loop lib (chain @ [certs ! i]) (remove_at i certs) = Inr res" using run p s by simp
    obtain tl where t: "res = (chain @ [certs ! i]) @ tl" "mset tl = mset (remove_at i certs)" "successively (issues lib) (certs ! i # tl)"
      "\<forall>tl'. mset tl' = mset (remove_at i certs) \<longrightarrow> successively (issues lib) (certs ! i # tl') \<longrightarrow> tl' = tl"
      using 1(1) [OF False p s refl rest snoc_nonempty, unfolded last_snoc] by blast
    have m: "mset certs = add_mset (certs ! i) (mset (remove_at i certs))" by (rule remove_at_mset [OF i(1)])
    have uniq: "tail' = certs ! i # tl" if "mset tail' = mset certs" "successively (issues lib) (last chain # tail')" for tail'
    proof -
      have "tail' \<noteq> []" using that(1) False by auto
      then obtain x xs where x: "tail' = x # xs" by (meson neq_Nil_conv)
      have "x \<in> set certs" using that(1) x by (metis list.set_intros(1) set_mset_mset)
      then obtain k where "k < length certs" "certs ! k = x" by (auto simp: in_set_conv_nth)
      moreover have "issues lib (last chain) x" using that(2) x by simp
      ultimately have xi: "x = certs ! i" using i(2) by auto
      have "mset xs = mset (remove_at i certs)" using that(1) x xi m by simp
      moreover have "successively (issues lib) (certs ! i # xs)" using that(2) x xi by simp
      ultimately show ?thesis using t(4) x xi by simp
    qed
    have ok: "issues lib (last chain) (certs ! i)" using i by blast
    show ?thesis by (rule exI [of _ "certs ! i # tl"]) (use t(1-3) m ok uniq in simp)
  qed
qed

lemma chain_ordered:
  assumes "order_certificate_chain lib certs key = Inr chain"
  shows "mset chain = mset certs \<and> valid_chain lib key chain
    \<and> (\<forall>chain'. mset chain' = mset certs \<and> valid_chain lib key chain' \<longrightarrow> chain' = chain)"
proof -
  obtain spki where k: "private_key_spki lib key = Inr spki" using assms by (auto simp: order_certificate_chain_def split: sum.splits)
  let ?scan = "scan_unique (is_leaf lib spki) (Tls ''multiple PKCS12 certificates match the private key'') 0 None certs"
  obtain i where s: "?scan = Inr (Some i)" and run: "order_loop lib [certs ! i] (remove_at i certs) = Inr chain"
    using assms k by (auto simp: order_certificate_chain_def split: sum.splits option.splits)
  have i: "i < length certs" "\<And>n. n < length certs \<Longrightarrow> is_leaf lib spki (certs ! n) = Inr (n = i)" using scan_spec [OF s] by auto
  have m: "mset certs = add_mset (certs ! i) (mset (remove_at i certs))" by (rule remove_at_mset [OF i(1)])
  obtain tl where t: "chain = certs ! i # tl" "mset tl = mset (remove_at i certs)" "successively (issues lib) (certs ! i # tl)"
      "\<forall>tl'. mset tl' = mset (remove_at i certs) \<longrightarrow> successively (issues lib) (certs ! i # tl') \<longrightarrow> tl' = tl"
    using order_loop_spec [OF run list.distinct(2), unfolded last_ConsL [OF refl] append_Cons append_Nil] by blast
  have leaf: "\<exists>leaf. tl_parse lib (certs ! i) = Some leaf \<and> x_spki leaf = spki"
    using i(2) [OF i(1)] by (auto simp: is_leaf_def split: option.splits)
  have uniq: "chain' = chain" if c: "mset chain' = mset certs" "valid_chain lib key chain'" for chain'
  proof -
    obtain x xs where x: "chain' = x # xs" "\<exists>leaf. tl_parse lib x = Some leaf \<and> x_spki leaf = spki"
      using c(2) k by (cases chain') (auto simp: valid_chain_def)
    have "x \<in> set certs" using c(1) x(1) by (metis list.set_intros(1) set_mset_mset)
    then obtain n where n: "n < length certs" "certs ! n = x" by (auto simp: in_set_conv_nth)
    then have xi: "x = certs ! i" using i(2) [OF n(1)] x(2) by (auto simp: is_leaf_def)
    have "mset xs = mset (remove_at i certs)" using c(1) x xi m by simp
    then show ?thesis using t(1,4) c(2) x(1) xi by (simp add: valid_chain_def)
  qed
  have "valid_chain lib key chain" using t(1,3) k leaf by (auto simp: valid_chain_def)
  then show ?thesis using t(1,2) m uniq by (intro conjI allI impI) simp_all
qed

subsection \<open>Properties\<close>

text \<open>
  C26: The certificate chain is ordered correctly and unambiguously. When an archive's certificates are
  accepted, the chain holds each of them once, starts with the certificate of the private key and each
  one is signed by the next, which is a certificate authority; and no other order of them has that form.
\<close>

theorem chain_order_unique:
  assumes "order_certificate_chain lib certs key = Inr chain"
  shows "mset chain = mset certs \<and> valid_chain lib key chain
    \<and> (\<forall>chain'. mset chain' = mset certs \<and> valid_chain lib key chain' \<longrightarrow> chain' = chain)"
  using assms by (rule chain_ordered)

definition sample_tls :: "string tls_lib" where
  "sample_tls = \<lparr>
     tl_parse = (\<lambda>d. if d = ''leaf'' then Some \<lparr>x_spki = ''k'', x_issuer = ''ca'', x_subject = ''me'', x_basic_constraints = Some None,
                          x_key_usage = Some None, x_not_after = 200000\<rparr>
                     else if d = ''ca'' then Some \<lparr>x_spki = ''cak'', x_issuer = ''ca'', x_subject = ''ca'', x_basic_constraints = Some (Some True),
                          x_key_usage = Some None, x_not_after = 200000\<rparr> else None),
     tl_verify_signature = (\<lambda>c k. k = ''cak''), tl_load_key = (\<lambda>k. Some (Some k)), tl_pfx_parse = (\<lambda>d. Some d),
     tl_verify_mac = (\<lambda>p w. True), tl_key_bags = (\<lambda>p w. Some [''k'']), tl_cert_bags = (\<lambda>p w. Some [''ca'', ''leaf'']),
     tl_server_config = (\<lambda>c k. True)\<rparr>"

lemma sample_chain: "order_certificate_chain sample_tls [''ca'', ''leaf''] ''k'' = Inr [''leaf'', ''ca'']"
  by (simp add: order_certificate_chain_def private_key_spki_def sample_tls_def is_leaf_def remove_at_def order_loop.simps
      is_issuer_def is_valid_issuer_def is_signed_by_def)

theorem chain_order_unique_witness: "valid_chain sample_tls ''k'' [''leaf'', ''ca'']"
  using chain_order_unique [OF sample_chain] by blast

text \<open>
  No acceptor for an expired certificate: an acceptor is built only for a chain of the archive on disk
  that belongs to its one private key, with more than a day of validity left.
\<close>

theorem acceptor_certificate_fresh:
  assumes "build_tls_acceptor lib ulib sha1 now rng os net c force f = (Inr ((chain, key), expiry), f')" "is_i64 expiry" "0 \<le> now"
  shows "valid_chain lib key chain \<and> (\<exists>leaf. tl_parse lib (hd chain) = Some leaf \<and> x_not_after leaf = expiry)
    \<and> (now + 86400 \<le> expiry \<or> 2 ^ 63 - 1 \<le> expiry)"
proof -
  obtain data parsed where p: "parse_p12_certificate lib data (key_str (cfg_client_key c)) = Inr parsed"
    "certificate_expiry_unix lib (pc_chain parsed ! 0) = Inr expiry" "\<not> is_cert_expired now expiry" "chain = pc_chain parsed" "key = pc_key parsed"
    using assms(1) by (auto simp: build_tls_acceptor_def build_server_acceptor_def Let_def split: if_splits prod.splits sum.splits)
  obtain certs where "order_certificate_chain lib certs key = Inr chain"
    using p(1,4,5) by (auto simp: parse_p12_certificate_def split: option.splits sum.splits if_splits)
  then have v: "valid_chain lib key chain" using chain_ordered by blast
  moreover have "chain ! 0 = hd chain" using v by (simp add: valid_chain_def hd_conv_nth)
  ultimately show ?thesis using p assms(2,3)
    by (auto simp: certificate_expiry_unix_def is_cert_expired_def i64_saturating_add_def CERT_RENEWAL_WINDOW_SECS_def SECS_PER_DAY_def is_i64_def
        split: option.splits)
qed

lemma sample_bags:
  "tl_pfx_parse sample_tls d = Some d" "tl_verify_mac sample_tls p w" "tl_key_bags sample_tls p w = Some [''k'']"
  "tl_cert_bags sample_tls p w = Some [''ca'', ''leaf'']"
  by (simp_all add: sample_tls_def)

theorem acceptor_certificate_fresh_witness:
  "let f = [([''data''], Dir), (cfg_data_dir sample_config @ [''hathcert.p12''], File ''archive'' 0)];
       r = build_tls_acceptor sample_tls
             \<lparr>url_parse = (\<lambda>s. Some ()), url_set_ip_host = (\<lambda>i u. Some u), url_set_host = (\<lambda>s u. Some u), url_set_port = (\<lambda>p u. Some u),
              url_set_path = (\<lambda>s u. u), url_set_query = (\<lambda>s u. u), url_host_str = (\<lambda>u. None)\<rparr>
             (\<lambda>s. []) 1000 0 sample_os (\<lambda>u k. Inl ''down'') sample_config False f
   in r = (Inr (([''leaf'', ''ca''], ''k''), 200000), f) \<and> (1000::int) + 86400 \<le> 200000"
proof -
  let ?f = "[([''data''], Dir), (cfg_data_dir sample_config @ [''hathcert.p12''], File ''archive'' 0)]"
  let ?u = "\<lparr>url_parse = (\<lambda>s. Some ()), url_set_ip_host = (\<lambda>i u. Some u), url_set_host = (\<lambda>s u. Some u), url_set_port = (\<lambda>p u. Some u),
              url_set_path = (\<lambda>s u. u), url_set_query = (\<lambda>s u. u), url_host_str = (\<lambda>u. None)\<rparr>"
  have ne: "[''data''] \<noteq> cfg_data_dir sample_config @ [''hathcert.p12'']" by (auto simp: append_eq_Cons_conv Cons_eq_append_conv)
  have p12: "parse_p12_certificate sample_tls ''archive'' w = Inr \<lparr>pc_chain = [''leaf'', ''ca''], pc_key = ''k''\<rparr>" for w
    by (simp add: parse_p12_certificate_def sample_bags select_private_key_def sample_chain)
  have run: "build_tls_acceptor sample_tls ?u (\<lambda>s. []) 1000 0 sample_os (\<lambda>u k. Inl ''down'') sample_config False ?f
      = (Inr (([''leaf'', ''ca''], ''k''), 200000), ?f)"
    using ne by (simp add: build_tls_acceptor_def Let_def path_exists_def fs_read_def p12 certificate_expiry_unix_def sample_os_def)
      (simp add: sample_tls_def is_cert_expired_def i64_saturating_add_def CERT_RENEWAL_WINDOW_SECS_def SECS_PER_DAY_def build_server_acceptor_def)
  show ?thesis using acceptor_certificate_fresh [OF run] run by (simp add: is_i64_def)
qed

end
