(* ===== verification/Hath_Server.thy ===== *)
theory Hath_Server
  imports Hath_Handler Hath_AccessLog Hath_Tls
begin

text \<open>
  The server's life, \<^verbatim>\<open>src/src/server/mod.rs\<close>, \<^verbatim>\<open>src/src/server/connection.rs\<close> and the two watchers of
  \<^verbatim>\<open>src/src/server/tls.rs\<close>: a listener generation is started, accepts connections until it is stopped and
  drains them; a certificate refresh replaces it. The process state is a record of the components' states;
  the configuration is the RPC client's, the shutdown state the transfer tasks'.
\<close>

datatype gen_phase = Gen_starting | Gen_serving "AcceptedConnection list" | Gen_ended

record ServerGeneration =
  gen_stop :: bool
  gen_task :: gen_phase

record process =
  pr_admission :: admission_state
  pr_transfers :: TransferTasks
  pr_bwm :: "BandwidthMonitor option"
  pr_acceptor :: "(string list \<times> string) option"
  pr_cert_expiry :: "int option"
  pr_generation :: "ServerGeneration option"
  pr_do_cert_refresh :: bool
  pr_cert_notified :: bool
  pr_rpc :: RpcClient
  pr_handler :: CacheHandler
  pr_fs :: fs

abbreviation pr_config :: "process \<Rightarrow> Config" where
  "pr_config p \<equiv> rc_config (pr_rpc p)"

abbreviation pr_shutdown :: "process \<Rightarrow> Shutdown" where
  "pr_shutdown p \<equiv> tt_shutdown (pr_transfers p)"

abbreviation set_transfers :: "(TransferTasks \<Rightarrow> TransferTasks) \<Rightarrow> process \<Rightarrow> process" where
  "set_transfers g p \<equiv> p\<lparr>pr_transfers := g (pr_transfers p)\<rparr>"

definition fail_process :: "HathError \<Rightarrow> process \<Rightarrow> process" where
  "fail_process e = set_transfers (\<lambda>t. t\<lparr>tt_shutdown := shutdown_fail e (tt_shutdown t)\<rparr>)"

definition set_allow :: "bool \<Rightarrow> process \<Rightarrow> process" where
  "set_allow v p = p\<lparr>pr_admission := (pr_admission p)\<lparr>ad_allow_normal_connections := v\<rparr>\<rparr>"

definition drop_guard :: "AcceptedConnection \<Rightarrow> process \<Rightarrow> process" where
  "drop_guard conn p =
     p\<lparr>pr_admission := (pr_admission p)\<lparr>ad_session_manager := guard_drop (ac_conn_id conn) (ad_session_manager (pr_admission p))\<rparr>\<rparr>"

text \<open>The surroundings of a start: libraries, clock, random number, network and the two binds.\<close>

record ('u, 'p) server_env =
  se_lib :: "'u rpc_lib"
  se_tls :: "'p tls_lib"
  se_now :: int
  se_rng :: u32
  se_os :: os
  se_net :: "'u \<Rightarrow> dl_net"
  se_bind_v6 :: bool
  se_bind_v4 :: bool

subsection \<open>Connections\<close>

definition connection_accept :: "nat \<Rightarrow> SocketAddr \<Rightarrow> process \<Rightarrow> AcceptedConnection option \<times> process" where
  "connection_accept now remote_addr p =
     (if is_cancelled (pr_shutdown p) then (None, p)
      else
        let c = pr_config p;
            org = from_remote_addr remote_addr c
        in case admit_connection now remote_addr org c (pr_admission p) of
             (Inl _, s) \<Rightarrow> (None, p\<lparr>pr_admission := s\<rparr>)
           | (Inr conn, s) \<Rightarrow> (Some conn, p\<lparr>pr_admission := s\<rparr>))"

text \<open>
  One admitted connection: the overload notice near the limit, the handshake, and the exchange of one request,
  which the HTTP library drives and \<open>http\<close> stands for. The reaper may cancel the session at any stage,
  and the generation's token ends the handshake; the observations say what happens when, and whether the
  notice was answered before.
\<close>

datatype serve_stage = At_start | In_handshake | In_exchange

datatype handshake = Hs_ok | Hs_error string | Hs_timeout | Hs_overload_timeout

record conn_obs =
  co_cancelled :: "serve_stage option"
  co_shutdown :: "serve_stage option"
  co_handshake :: handshake

datatype serve_end = Served | Stopped | Handshake_failed | Timed_out

definition overload_notice :: "'u rpc_lib \<Rightarrow> nat \<Rightarrow> bool \<Rightarrow> process \<Rightarrow> process run" where
  "overload_notice lib now answered p =
     (case notify_overload now (pr_admission p) of
        (send, s) \<Rightarrow>
          let p1 = p\<lparr>pr_admission := s\<rparr> in
          if send \<and> answered then run_bind (rpc_notify_overload lib (pr_rpc p1)) (\<lambda>(_, rpc). run_return (p1\<lparr>pr_rpc := rpc\<rparr>))
          else run_return p1)"

definition connection_serve :: "'u rpc_lib \<Rightarrow> nat \<Rightarrow> conn_obs \<Rightarrow> (process \<Rightarrow> process run) \<Rightarrow> AcceptedConnection \<Rightarrow> process
    \<Rightarrow> (serve_end \<times> process) run" where
  "connection_serve lib now obs http conn p =
     (if co_cancelled obs = Some At_start then run_return (Timed_out, p)
      else if co_shutdown obs = Some At_start then run_return (Stopped, p)
      else run_bind (if ac_near_limit conn then overload_notice lib now (co_handshake obs \<noteq> Hs_overload_timeout) p else run_return p) (\<lambda>p1.
        if co_cancelled obs = Some In_handshake then run_return (Timed_out, p1)
        else if co_shutdown obs = Some In_handshake then run_return (Stopped, p1)
        else if ac_near_limit conn \<and> co_handshake obs = Hs_overload_timeout then run_return (Handshake_failed, p1)
        else case pr_acceptor p1 of
            None \<Rightarrow> Some Panic
          | Some _ \<Rightarrow>
              if co_handshake obs = Hs_ok
              then run_bind (http p1) (\<lambda>p2. run_return (if co_cancelled obs = Some In_exchange then Timed_out else Served, p2))
              else run_return (Handshake_failed, p1)))"

subsection \<open>One generation\<close>

text \<open>
  Up to the first accept: what is sent to the starter, if anything, and with which error the task ends,
  if it does.
\<close>

definition server_init :: "('u, 'p) server_env \<Rightarrow> bool \<Rightarrow> process \<Rightarrow> u16 res option \<times> HathError option \<times> process" where
  "server_init env stopped p =
     (let c = pr_config p in
      if stopped then (None, Some Shutdown_requested, p)
      else case build_tls_acceptor (se_tls env) (se_lib env) (lib_sha1 (se_lib env)) (se_now env) (se_rng env) (se_os env) (se_net env)
                  c True (pr_fs p) of
          (Inl e, f) \<Rightarrow> (Some (Inl e), Some Shutdown_requested, p\<lparr>pr_fs := f\<rparr>)
        | (Inr (acceptor, expiry), f) \<Rightarrow>
            let p1 = p\<lparr>pr_fs := f, pr_bwm := bwm_for c, pr_acceptor := Some acceptor, pr_cert_expiry := Some expiry\<rparr> in
            if se_bind_v6 env \<or> se_bind_v4 env then (Some (Inr (cfg_client_port c)), None, p1)
            else (None, Some (Io ''bind''), p1))"

text \<open>The loop's events: the stop token, a connection task that ends (or panics), an accepted socket.\<close>

datatype server_event = Ev_stop | Ev_joined nat bool | Ev_accept nat SocketAddr

definition remove_nth :: "nat \<Rightarrow> 'a list \<Rightarrow> 'a list" where
  "remove_nth i xs = take i xs @ drop (Suc i) xs"

text \<open>
  \<open>None\<close>: still running when the events end. An error drops the join set, and with it every connection;
  once the token is cancelled the listener is gone and only ends are awaited.
\<close>

fun serve_loop :: "bool \<Rightarrow> server_event list \<Rightarrow> AcceptedConnection list \<Rightarrow> process \<Rightarrow> (HathError option \<times> process) option" where
  "serve_loop stopping [] conns p = (if stopping \<and> conns = [] then Some (None, p) else None)"
| "serve_loop stopping (ev # evs) conns p =
     (if stopping \<and> conns = [] then Some (None, p)
      else case ev of
        Ev_stop \<Rightarrow> serve_loop True evs conns p
      | Ev_joined i ok \<Rightarrow>
          if i < length conns then
            (let p1 = drop_guard (conns ! i) p; rest = remove_nth i conns in
             if ok then serve_loop stopping evs rest p1
             else Some (Some (Fatal ''connection task failed''), foldl (\<lambda>p c. drop_guard c p) (set_transfers invalidate p1) rest))
          else serve_loop stopping evs conns p
      | Ev_accept now addr \<Rightarrow>
          if stopping then serve_loop stopping evs conns p
          else (case connection_accept now addr p of
                  (None, p1) \<Rightarrow> serve_loop stopping evs conns p1
                | (Some conn, p1) \<Rightarrow> serve_loop stopping evs (conns @ [conn]) p1))"

text \<open>The end of the task: errors other than the shutdown end the process, a panic also marks the transfers.\<close>

definition generation_ended :: "HathError option \<Rightarrow> process \<Rightarrow> process" where
  "generation_ended r p =
     (case r of
        None \<Rightarrow> p
      | Some Shutdown_requested \<Rightarrow> p
      | Some e \<Rightarrow> fail_process e p)"

definition generation_panicked :: "process \<Rightarrow> process" where
  "generation_panicked p = fail_process (Fatal ''server task panicked'') (set_transfers invalidate p)"

text \<open>\<open>interrupted\<close>: the shutdown token is cancelled while the starter waits for the new task.\<close>

definition start_server :: "('u, 'p) server_env \<Rightarrow> ShutdownReason option \<Rightarrow> process \<Rightarrow> u16 res \<times> process" where
  "start_server env interrupted p =
     (if is_cancelled (pr_shutdown p) then (Inl Shutdown_requested, p)
      else if pr_generation p \<noteq> None then (Inl (Config_error ''server generation is already running''), p)
      else case interrupted of
          Some reason \<Rightarrow>
            (Inl Shutdown_requested,
             set_transfers (\<lambda>t. t\<lparr>tt_shutdown := request reason (tt_shutdown t)\<rparr>)
               (p\<lparr>pr_generation := Some \<lparr>gen_stop = False, gen_task = Gen_starting\<rparr>\<rparr>))
        | None \<Rightarrow>
            (case server_init env False p of
               (ready, ended, p1) \<Rightarrow>
                 (case ready of Some r \<Rightarrow> r | None \<Rightarrow> Inl (Fatal ''server startup task ended unexpectedly''),
                  (case ended of
                     None \<Rightarrow> p1\<lparr>pr_generation := Some \<lparr>gen_stop = False, gen_task = Gen_serving []\<rparr>\<rparr>
                   | Some e \<Rightarrow> generation_ended (Some e) (p1\<lparr>pr_generation := Some \<lparr>gen_stop = False, gen_task = Gen_ended\<rparr>\<rparr>)))))"

subsection \<open>Stopping\<close>

text \<open>How waiting for the task ends before the deadline, or with it.\<close>

datatype gen_end = Task_finished | Task_failed | Drain_timeout

definition live_connections :: "process \<Rightarrow> AcceptedConnection list" where
  "live_connections p =
     (case pr_generation p of
        Some g \<Rightarrow> (case gen_task g of Gen_serving conns \<Rightarrow> conns | _ \<Rightarrow> [])
      | None \<Rightarrow> [])"

definition stop_begin :: "process \<Rightarrow> process" where
  "stop_begin p = (set_allow False p)\<lparr>pr_generation := map_option (\<lambda>g. g\<lparr>gen_stop := True\<rparr>) (pr_generation p)\<rparr>"

text \<open>In every case the connections are gone afterwards: they ended, or were dropped with the task.\<close>

definition stop_wait :: "gen_end \<Rightarrow> process \<Rightarrow> bool \<times> process" where
  "stop_wait how p =
     (case pr_generation p of
        None \<Rightarrow> (True, p)
      | Some g \<Rightarrow>
          let clean = (how = Task_finished);
              p1 = foldl (\<lambda>p c. drop_guard c p) p (live_connections p);
              p2 = (if clean then p1 else set_transfers invalidate p1)
          in (clean, p2\<lparr>pr_generation := None\<rparr>))"

definition stop_server :: "gen_end \<Rightarrow> process \<Rightarrow> bool \<times> process" where
  "stop_server how p = stop_wait how (stop_begin p)"

subsection \<open>Certificate refresh\<close>

text \<open>
  One pass of the watcher. Between its steps the process may be asked to stop: \<open>rf_external k\<close> is a request
  that arrives before step \<open>k\<close>, and a cancelled token ends the pass there.
\<close>

record ('u, 'p) refresh_env =
  rf_server :: "('u, 'p) server_env"
  rf_external :: "nat \<Rightarrow> ShutdownReason option"
  rf_drain :: gen_end

definition external :: "('u, 'p) refresh_env \<Rightarrow> nat \<Rightarrow> process \<Rightarrow> process" where
  "external env k p =
     (case rf_external env k of
        None \<Rightarrow> p
      | Some reason \<Rightarrow> set_transfers (\<lambda>t. t\<lparr>tt_shutdown := request reason (tt_shutdown t)\<rparr>) p)"

datatype watch_result = Watch_again | Watch_break

text \<open>The steps after the suspension has been acknowledged.\<close>

definition resume_traffic :: "('u, 'p) refresh_env \<Rightarrow> process \<Rightarrow> (unit res \<times> process) run" where
  "resume_traffic env p =
     run_bind (still_alive (se_lib (rf_server env)) True (pr_rpc p)) (\<lambda>(r, rpc).
       let p1 = p\<lparr>pr_rpc := rpc\<rparr>; ended = p1\<lparr>pr_do_cert_refresh := False\<rparr> in
       run_return (case r of
         Inl _ \<Rightarrow> (Inr (), ended)
       | Inr response \<Rightarrow>
           if sr_status response = Status_Ok then (Inr (), ended)
           else if starts_with ''TERM_BAD_NETWORK'' (unwrap_or (sr_fail_code response) [])
           then (Inl (Fatal (unwrap_or (sr_fail_code response) [])), p1)
           else (Inr (), ended)))"

definition refresh_listener :: "('u, 'p) refresh_env \<Rightarrow> process \<Rightarrow> (unit res option \<times> process) run" where
  "refresh_listener env p =
     (let p1 = external env 2 p in
      if is_cancelled (pr_shutdown p1) then run_return (None, p1)
      else
        let p2 = external env 3 (stop_begin p1) in
        if is_cancelled (pr_shutdown p2) then run_return (None, p2)
        else case stop_wait (rf_drain env) p2 of
            (False, p3) \<Rightarrow> run_return (Some (Inl (Fatal ''server did not drain during certificate refresh'')), p3)
          | (True, p3) \<Rightarrow>
              let p4 = external env 4 p3 in
              if is_cancelled (pr_shutdown p4) then run_return (None, p4)
              else case start_server (rf_server env) (rf_external env 5) p4 of
                  (Inl e, p5) \<Rightarrow> run_return (Some (Inl e), p5)
                | (Inr _, p5) \<Rightarrow>
                    let p6 = external env 6 p5 in
                    if is_cancelled (pr_shutdown p6) then run_return (Some (Inl Shutdown_requested), p6)
                    else run_bind (resume_traffic env (set_allow True p6)) (\<lambda>(r, p7). run_return (Some r, p7)))"

definition settle_refresh :: "unit res option \<Rightarrow> process \<Rightarrow> watch_result \<times> process" where
  "settle_refresh res p =
     (case res of
        None \<Rightarrow> (Watch_break, p)
      | Some (Inl e) \<Rightarrow> if e = Shutdown_requested then (Watch_break, p) else (Watch_break, fail_process e p)
      | Some (Inr _) \<Rightarrow> (Watch_again, p))"

definition watcher_pass :: "('u, 'p) refresh_env \<Rightarrow> process \<Rightarrow> (watch_result \<times> process) run" where
  "watcher_pass env p0 =
     (let p = external env 0 p0 in
      if is_cancelled (pr_shutdown p) then run_return (Watch_break, p)
      else
        let p1 = p\<lparr>pr_cert_notified := False\<rparr> in
        if \<not> pr_do_cert_refresh p1 then run_return (Watch_again, p1)
        else run_bind (client_suspend (se_lib (rf_server env)) (pr_rpc p1)) (\<lambda>(r, rpc).
          let p2 = external env 1 (p1\<lparr>pr_rpc := rpc\<rparr>) in
          if is_cancelled (pr_shutdown p2) then run_return (Watch_break, p2)
          else if (case r of Inl _ \<Rightarrow> True | Inr response \<Rightarrow> sr_status response \<noteq> Status_Ok)
          then run_return (Watch_again, p2\<lparr>pr_cert_notified := True\<rparr>)
          else run_bind (refresh_listener env p2) (\<lambda>(res, p3). run_return (settle_refresh res p3))))"

text \<open>The periodic check; the warning about a wrong clock changes nothing.\<close>

definition time_cert_check :: "int \<Rightarrow> process \<Rightarrow> process" where
  "time_cert_check now p =
     (case pr_cert_expiry p of
        None \<Rightarrow> p
      | Some expiry \<Rightarrow> if is_cert_expired now expiry then fail_process CertExpired p else p)"

subsection \<open>Connections and their sessions\<close>

abbreviation pr_sessions :: "process \<Rightarrow> SessionManager" where
  "pr_sessions p \<equiv> ad_session_manager (pr_admission p)"

text \<open>The live connections of the generation and others account for the registry.\<close>

definition conns_inv :: "u32 list \<Rightarrow> AcceptedConnection list \<Rightarrow> process \<Rightarrow> bool" where
  "conns_inv others conns p \<longleftrightarrow> registry_inv (pr_sessions p, map ac_conn_id conns @ others)"

lemma registry_inv_mset: "mset live = mset live' \<Longrightarrow> registry_inv (m, live) \<Longrightarrow> registry_inv (m, live')"
  using mset_eq_length [of live live'] mset_eq_setD [of live live'] by (simp add: registry_inv_def)

lemma guard_drop_inv:
  assumes "registry_inv (m, live)" "mset live = add_mset i (mset live')"
  shows "registry_inv (guard_drop i m, live')"
proof -
  have "i \<in> set live" using assms(2) by (metis set_mset_mset union_single_eq_member)
  then have "registry_inv (guard_drop i m, remove1 i live)"
    using session_step_inv [OF assms(1), of "DropGuard i"] by (simp add: session_step_def)
  moreover have "mset (remove1 i live) = mset live'" using assms(2) by simp
  ultimately show ?thesis by (rule registry_inv_mset [rotated])
qed

lemma remove_nth_mset: "i < length xs \<Longrightarrow> mset xs = add_mset (xs ! i) (mset (remove_nth i xs))"
  by (subst id_take_nth_drop [of i xs]) (simp_all add: remove_nth_def)

lemma drop_nth_inv:
  assumes "conns_inv others conns p" "i < length conns"
  shows "conns_inv others (remove_nth i conns) (drop_guard (conns ! i) p)"
proof -
  have "mset (map ac_conn_id conns @ others) = add_mset (ac_conn_id (conns ! i)) (mset (map ac_conn_id (remove_nth i conns) @ others))"
    using remove_nth_mset [OF assms(2)] by (metis image_mset_add_mset mset_append mset_map union_mset_add_mset_left)
  from guard_drop_inv [OF assms(1) [unfolded conns_inv_def] this] show ?thesis by (simp add: conns_inv_def drop_guard_def)
qed

lemma drop_all_inv: "conns_inv others conns p \<Longrightarrow> conns_inv others [] (foldl (\<lambda>p c. drop_guard c p) p conns)"
proof (induction conns arbitrary: p)
  case (Cons c cs)
  then show ?case using drop_nth_inv [of others "c # cs" p 0] by (simp add: remove_nth_def)
qed simp

lemma conns_inv_frame: "pr_sessions p' = pr_sessions p \<Longrightarrow> conns_inv others conns p \<Longrightarrow> conns_inv others conns p'"
  by (simp add: conns_inv_def)

lemma accept_inv:
  assumes "conns_inv others conns p" "connection_accept now addr p = (r, p')"
  shows "case r of None \<Rightarrow> conns_inv others conns p' | Some c \<Rightarrow> conns_inv others (conns @ [c]) p'"
proof -
  define org where "org = from_remote_addr addr (pr_config p)"
  define ok where "ok = is_rpc_authorized (so_peer_ip org) (pr_config p)"
  define cls where "cls = admission_class org ok"
  define maxc where "maxc = max_connections (pr_config p)"
  obtain allowed s1 where fg: "flood_gate now (show_ip (so_peer_ip org)) cls (pr_config p) (pr_admission p) = (allowed, s1)" by force
  have sm: "ad_session_manager s1 = pr_sessions p"
    using fg by (auto simp: flood_gate_def Let_def split: if_splits prod.splits)
  define i where "i = ad_next_conn_id s1 + 1"
  obtain a m where ad: "admit now i addr cls maxc (pr_sessions p) = (a, m)" by force
  have step: "case a of Inl _ \<Rightarrow> registry_inv (m, map ac_conn_id conns @ others) | Inr _ \<Rightarrow> registry_inv (m, i # map ac_conn_id conns @ others)"
    using session_step_inv [OF assms(1) [unfolded conns_inv_def], of "Admit now i addr cls maxc"] ad
    by (auto simp: session_step_def split: sum.splits)
  have eq: "connection_accept now addr p =
      (if is_cancelled (pr_shutdown p) then (None, p)
       else if \<not> ad_allow_normal_connections (pr_admission p) \<and> \<not> ok \<or> cls = Limited \<and> maxc < active_count (pr_sessions p)
       then (None, p\<lparr>pr_admission := pr_admission p\<rparr>)
       else if \<not> allowed then (None, p\<lparr>pr_admission := s1\<rparr>)
       else case a of
           Inl _ \<Rightarrow> (None, p\<lparr>pr_admission := s1\<lparr>ad_next_conn_id := i, ad_session_manager := m\<rparr>\<rparr>)
         | Inr sa \<Rightarrow> (Some \<lparr>ac_conn_id = i, ac_cancel = sa_cancel sa, ac_pending_deadline = sa_pending_deadline sa,
               ac_near_limit = (case sa_active_before sa of None \<Rightarrow> False | Some prev \<Rightarrow> 0 < prev \<and> 4 * unat maxc div 5 < unat prev)\<rparr>,
             p\<lparr>pr_admission := s1\<lparr>ad_next_conn_id := i, ad_session_manager := m\<rparr>\<rparr>))"
    using fg ad sm unfolding connection_accept_def admit_connection_def Let_def org_def [symmetric] ok_def [symmetric] cls_def [symmetric]
      maxc_def [symmetric] i_def
    by (auto split: sum.splits SessionAdmitError.splits)
  show ?thesis
  proof (cases a)
    case (Inl e)
    then show ?thesis using assms eq step sm by (auto simp: conns_inv_def split: if_splits)
  next
    case (Inr sa)
    have "registry_inv (m, map ac_conn_id conns @ [i] @ others)"
      by (rule registry_inv_mset [OF _ step [unfolded Inr sum.case]]) simp
    then show ?thesis using Inr assms eq sm by (auto simp: conns_inv_def split: if_splits)
  qed
qed

lemma serve_loop_inv:
  assumes "serve_loop stopping evs conns p = Some (r, p')" "conns_inv others conns p"
  shows "conns_inv others [] p'"
  using assms
proof (induction stopping evs conns p rule: serve_loop.induct)
  case (1 stopping conns p)
  then show ?case by (auto split: if_splits)
next
  case (2 stopping ev evs conns p)
  show ?case
  proof (cases "stopping \<and> conns = []")
    case True
    then show ?thesis using 2 by simp
  next
    case nd: False
    show ?thesis
    proof (cases ev)
      case Ev_stop
      then show ?thesis using 2 nd by auto
    next
      case (Ev_joined i ok)
      show ?thesis
      proof (cases "i < length conns")
        case True
        note d = drop_nth_inv [OF "2.prems"(2) True]
        show ?thesis
        proof (cases ok)
          case okay: True
          then show ?thesis using 2 nd Ev_joined True d by (auto simp: Let_def)
        next
          case False
          then have "p' = foldl (\<lambda>p c. drop_guard c p) (set_transfers invalidate (drop_guard (conns ! i) p)) (remove_nth i conns)"
            using "2.prems"(1) nd Ev_joined True by (auto simp: Let_def)
          moreover have "conns_inv others (remove_nth i conns) (set_transfers invalidate (drop_guard (conns ! i) p))"
            by (rule conns_inv_frame [OF _ d]) simp
          ultimately show ?thesis using drop_all_inv by simp
        qed
      qed (use 2 nd Ev_joined in auto)
    next
      case (Ev_accept now addr)
      show ?thesis
      proof (cases stopping)
        case True
        then show ?thesis using 2 nd Ev_accept by auto
      next
        case False
        obtain a p1 where a: "connection_accept now addr p = (a, p1)" by force
        show ?thesis using 2 nd Ev_accept False a accept_inv [OF "2.prems"(2) a] by (cases a) auto
      qed
    qed
  qed
qed

lemma stop_server_result:
  assumes "stop_server how p = (clean, p')"
  shows "pr_generation p' = None \<and> \<not> ad_allow_normal_connections (pr_admission p')
    \<and> (clean \<longleftrightarrow> pr_generation p = None \<or> how = Task_finished)
    \<and> tt_clean (pr_transfers p') = (tt_clean (pr_transfers p) \<and> clean)
    \<and> tt_shutdown (pr_transfers p') = tt_shutdown (pr_transfers p) \<and> tt_inner (pr_transfers p') = tt_inner (pr_transfers p)
    \<and> pr_handler p' = pr_handler p \<and> pr_fs p' = pr_fs p \<and> pr_rpc p' = pr_rpc p"
proof -
  have d: "pr_transfers (foldl (\<lambda>p c. drop_guard c p) q cs) = pr_transfers q \<and> pr_handler (foldl (\<lambda>p c. drop_guard c p) q cs) = pr_handler q
      \<and> pr_fs (foldl (\<lambda>p c. drop_guard c p) q cs) = pr_fs q \<and> pr_rpc (foldl (\<lambda>p c. drop_guard c p) q cs) = pr_rpc q
      \<and> ad_allow_normal_connections (pr_admission (foldl (\<lambda>p c. drop_guard c p) q cs)) = ad_allow_normal_connections (pr_admission q)" for q cs
    by (induction cs arbitrary: q) (simp_all add: drop_guard_def)
  show ?thesis using assms d
    by (cases "pr_generation p") (auto simp: stop_server_def stop_begin_def stop_wait_def set_allow_def invalidate_def Let_def)
qed

lemma serve_loop_drains:
  "list_all (\<lambda>ev. \<exists>ok. ev = Ev_joined 0 ok) evs \<Longrightarrow> length conns \<le> length evs \<Longrightarrow> serve_loop True evs conns p \<noteq> None"
proof (induction evs arbitrary: conns p)
  case (Cons ev evs)
  obtain ok where "ev = Ev_joined 0 ok" using Cons.prems(1) by auto
  then show ?case using Cons by (cases conns) (auto simp: Let_def remove_nth_def)
qed simp

subsection \<open>A refresh does not stop the server silently\<close>

lemma request_cancels: "is_cancelled (request r s)"
  by (simp add: request_def is_cancelled_def split: option.split)

lemma fail_process_cancels: "is_cancelled (pr_shutdown (fail_process e p))"
  by (simp add: fail_process_def shutdown_fail_def request_cancels)

lemma receive_error: "receive os mode chunks n buf f = (Inl e, f') \<Longrightarrow> e \<noteq> Shutdown_requested"
  by (induction os mode chunks n buf f rule: receive.induct) (auto simp: Let_def split: DownloadMode.splits prod.splits option.splits)

lemma attempt_error:
  "attempt_download os reply df = (Inl x, df') \<Longrightarrow> x \<noteq> Attempt_not_found Shutdown_requested"
  by (auto simp: attempt_download_def Let_def split: prod.splits sum.splits if_splits option.splits)

lemma download_error: "download_loop os net k df = (Inl e, df') \<Longrightarrow> e \<noteq> Shutdown_requested"
proof (induction os net k df rule: download_loop.induct)
  case (1 os net k df)
  obtain d f where df: "df = (d, f)" by force
  show ?case
  proof (cases "fd_retries d = 0")
    case True
    then show ?thesis using 1(2) df by (auto simp: download_loop.simps)
  next
    case False
    obtain x d1 f1 where a: "attempt_download os (net k) (d\<lparr>fd_retries := fd_retries d - 1\<rparr>, f) = (x, d1, f1)" by (metis prod_cases3)
    note run = 1(2) [unfolded df download_loop.simps [of os net k "(d, f)"] prod.case Let_def if_not_P [OF False] a]
    show ?thesis
    proof (cases x)
      case (Inl err)
      show ?thesis
      proof (cases err)
        case (Retryable e')
        then show ?thesis using run 1(1) [OF df [symmetric] refl False a [symmetric] Inl Retryable] Inl by simp
      next
        case (Attempt_not_found e')
        then show ?thesis using run Inl attempt_error [OF a [unfolded Inl]] by auto
      qed
    qed (use run in simp)
  qed
qed

lemma url_error: "make_rpc_url lib sha1 now act add c host \<noteq> Inl Shutdown_requested"
  by (auto simp: make_rpc_url_def Let_def split: option.splits if_splits)

lemma scan_error:
  "(\<And>c. check c \<noteq> Inl Shutdown_requested) \<Longrightarrow> dup \<noteq> Shutdown_requested \<Longrightarrow> scan_unique check dup i found cs \<noteq> Inl Shutdown_requested"
  by (induction check dup i found cs rule: scan_unique.induct) (auto split: sum.splits bool.splits if_splits)

lemma issuer_error: "is_issuer lib d child c \<noteq> Inl Shutdown_requested"
  by (auto simp: is_issuer_def is_valid_issuer_def split: option.splits sum.splits if_splits)

lemma leaf_error: "is_leaf lib k c \<noteq> Inl Shutdown_requested"
  by (auto simp: is_leaf_def split: option.splits)

lemma order_error: "order_loop lib chain certs \<noteq> Inl Shutdown_requested"
proof (induction lib chain certs rule: order_loop.induct)
  case (1 lib chain certs)
  show ?case
  proof (cases "certs = [] \<or> tl_parse lib (last chain) = None")
    case True
    then show ?thesis by (auto simp: order_loop.simps)
  next
    case False
    then obtain child where p: "certs \<noteq> []" "tl_parse lib (last chain) = Some child" by auto
    let ?scan = "scan_unique (is_issuer lib (last chain) child) (Tls ''multiple PKCS12 certificates can issue the same child certificate'') 0 None certs"
    have "?scan \<noteq> Inl Shutdown_requested" by (rule scan_error [OF issuer_error]) simp
    then show ?thesis using p 1 [OF p] by (auto simp: order_loop.simps [of lib chain certs] split: sum.splits option.splits)
  qed
qed

lemma archive_error: "parse_p12_certificate lib data w \<noteq> Inl Shutdown_requested"
proof -
  have "scan_unique (is_leaf lib k) (Tls ''multiple PKCS12 certificates match the private key'') 0 None certs \<noteq> Inl Shutdown_requested" for k certs
    by (rule scan_error [OF leaf_error]) simp
  then have "order_certificate_chain lib certs key \<noteq> Inl Shutdown_requested" for certs key
    by (auto simp: order_error order_certificate_chain_def private_key_spki_def split: sum.splits option.splits)
  then show ?thesis
    by (auto simp: parse_p12_certificate_def select_private_key_def split: option.splits sum.splits if_splits list.splits)
qed

lemma acceptor_error:
  assumes "build_tls_acceptor lib ulib sha1 now rng os net c force f = (Inl e, f')"
  shows "e \<noteq> Shutdown_requested"
proof -
  have "fetch_certificate ulib sha1 now rng os net c f = (Inl e', f'') \<Longrightarrow> e' \<noteq> Shutdown_requested" for e' f''
    using download_error by (auto simp: url_error fetch_certificate_def download_def split: sum.splits prod.splits)
  then show ?thesis using assms
    by (auto simp: archive_error build_tls_acceptor_def certificate_expiry_unix_def build_server_acceptor_def Let_def
        split: if_splits prod.splits sum.splits option.splits)
qed

text \<open>A start succeeds with a serving generation and a certificate that is not about to expire.\<close>

lemma start_server_result:
  assumes "start_server env interrupted p = (r, p')"
  shows "case r of
      Inr _ \<Rightarrow> pr_generation p' = Some \<lparr>gen_stop = False, gen_task = Gen_serving []\<rparr>
        \<and> (\<exists>e. pr_cert_expiry p' = Some e \<and> \<not> is_cert_expired (se_now env) e)
    | Inl e \<Rightarrow> e = Shutdown_requested \<longrightarrow> is_cancelled (pr_shutdown p')"
proof -
  have fresh: "\<not> is_cert_expired (se_now env) expiry"
    if "build_tls_acceptor lib ulib sha1 (se_now env) rng os net c force f = (Inr (acc, expiry), f')" for lib ulib sha1 rng os net c force f acc expiry f'
    using that by (auto simp: build_tls_acceptor_def Let_def split: if_splits prod.splits sum.splits)
  show ?thesis using assms
    by (auto simp: start_server_def server_init_def generation_ended_def fail_process_cancels request_cancels Let_def
        dest: acceptor_error fresh split: if_splits option.splits prod.splits sum.splits)
qed

lemma external_frame:
  "pr_generation (external env k p) = pr_generation p" "pr_admission (external env k p) = pr_admission p"
  "pr_do_cert_refresh (external env k p) = pr_do_cert_refresh p" "pr_cert_expiry (external env k p) = pr_cert_expiry p"
  by (simp_all add: external_def split: option.split)

definition refreshed :: "('u, 'p) refresh_env \<Rightarrow> process \<Rightarrow> bool" where
  "refreshed env p \<longleftrightarrow> pr_generation p = Some \<lparr>gen_stop = False, gen_task = Gen_serving []\<rparr> \<and> ad_allow_normal_connections (pr_admission p)
     \<and> (\<exists>e. pr_cert_expiry p = Some e \<and> \<not> is_cert_expired (se_now (rf_server env)) e)"

lemma resume_result:
  assumes "resume_traffic env p = Some (Done (r, p'))"
  shows "pr_generation p' = pr_generation p \<and> pr_admission p' = pr_admission p
     \<and> pr_cert_expiry p' = pr_cert_expiry p \<and> (case r of Inr _ \<Rightarrow> \<not> pr_do_cert_refresh p' | Inl e \<Rightarrow> e \<noteq> Shutdown_requested)"
proof -
  obtain a rpc where "still_alive (se_lib (rf_server env)) True (pr_rpc p) = Some (Done (a, rpc))"
    using assms by (auto simp: resume_traffic_def run_bind_Done)
  then show ?thesis using assms by (cases a) (auto simp: resume_traffic_def run_return_def Let_def split: if_splits)
qed

lemma refresh_listener_result:
  assumes "refresh_listener env p = Some (Done (res, p'))"
  shows "case res of
      None \<Rightarrow> is_cancelled (pr_shutdown p')
    | Some (Inl e) \<Rightarrow> e = Shutdown_requested \<longrightarrow> is_cancelled (pr_shutdown p')
    | Some (Inr _) \<Rightarrow> refreshed env p' \<and> \<not> pr_do_cert_refresh p'"
proof -
  define p1 where "p1 = external env 2 p"
  define p2 where "p2 = external env 3 (stop_begin p1)"
  obtain clean p3 where s: "stop_wait (rf_drain env) p2 = (clean, p3)" by force
  define p4 where "p4 = external env 4 p3"
  obtain r p5 where st: "start_server (rf_server env) (rf_external env 5) p4 = (r, p5)" by force
  define p6 where "p6 = external env 6 p5"
  have run: "refresh_listener env p =
      (if is_cancelled (pr_shutdown p1) then run_return (None, p1)
       else if is_cancelled (pr_shutdown p2) then run_return (None, p2)
       else if \<not> clean then run_return (Some (Inl (Fatal ''server did not drain during certificate refresh'')), p3)
       else if is_cancelled (pr_shutdown p4) then run_return (None, p4)
       else case r of
           Inl e \<Rightarrow> run_return (Some (Inl e), p5)
         | Inr _ \<Rightarrow> if is_cancelled (pr_shutdown p6) then run_return (Some (Inl Shutdown_requested), p6)
                  else run_bind (resume_traffic env (set_allow True p6)) (\<lambda>(r, p7). run_return (Some r, p7)))"
    by (cases clean) (simp_all add: refresh_listener_def Let_def p1_def [symmetric] p2_def [symmetric] s p4_def [symmetric] st p6_def [symmetric]
        split: sum.split)
  show ?thesis
  proof (cases "r")
    case (Inl e)
    then show ?thesis using assms run start_server_result [OF st] by (auto simp: run_return_def split: if_splits)
  next
    case (Inr port)
    show ?thesis
    proof (cases "is_cancelled (pr_shutdown p1) \<or> is_cancelled (pr_shutdown p2) \<or> \<not> clean \<or> is_cancelled (pr_shutdown p4)
        \<or> is_cancelled (pr_shutdown p6)")
      case True
      then show ?thesis using assms run Inr by (auto simp: run_return_def split: if_splits)
    next
      case False
      obtain q where q: "resume_traffic env (set_allow True p6) = Some (Done (q, p'))" "res = Some q"
        using assms run Inr False by (auto simp: run_bind_Done run_return_def)
      show ?thesis using resume_result [OF q(1)] q(2) start_server_result [OF st] Inr
        by (auto simp: refreshed_def set_allow_def p6_def external_frame split: sum.splits)
    qed
  qed
qed

text \<open>
  A connection task finds the acceptor: a successful start stores one, and serving keeps it. So the task can only
  panic where the RPC client or the exchange does.
\<close>

lemma start_server_acceptor: "start_server env interrupted p = (Inr port, p') \<Longrightarrow> pr_acceptor p' \<noteq> None"
  by (auto simp: start_server_def server_init_def Let_def split: if_splits option.splits prod.splits sum.splits)

lemma accept_acceptor: "pr_acceptor (snd (connection_accept now addr p)) = pr_acceptor p"
  by (auto simp: connection_accept_def Let_def split: prod.splits sum.splits)

lemma drop_acceptor: "pr_acceptor (drop_guard c p) = pr_acceptor p"
  by (simp add: drop_guard_def)

lemma drops_acceptor: "pr_acceptor (foldl (\<lambda>p c. drop_guard c p) p cs) = pr_acceptor p"
  by (induction cs arbitrary: p) (simp_all add: drop_guard_def)

lemma serve_loop_acceptor:
  assumes "serve_loop stopping evs conns p = Some (r, p')"
  shows "pr_acceptor p' = pr_acceptor p"
  using assms
proof (induction stopping evs conns p rule: serve_loop.induct)
  case (2 stopping ev evs conns p)
  have "pr_acceptor q = pr_acceptor p" if "connection_accept now addr p = (oc, q)" for now addr oc q
    using that accept_acceptor [of now addr p] by simp
  then show ?case using 2
    by (cases ev) (auto simp: Let_def drops_acceptor drop_acceptor split: if_splits option.splits prod.splits)
qed (auto split: if_splits)

definition returns :: "'a run \<Rightarrow> bool" where
  "returns m \<longleftrightarrow> m \<noteq> None \<and> m \<noteq> Some Panic"

lemma returns_bind: "returns m \<Longrightarrow> (\<And>x. m = Some (Done x) \<Longrightarrow> returns (k x)) \<Longrightarrow> returns (run_bind m k)"
  by (auto simp: returns_def run_bind_def split: option.splits outcome.splits)

lemma returns_return: "returns (run_return x)"
  by (simp add: returns_def run_return_def)

lemma connection_serve_returns:
  assumes "pr_acceptor p \<noteq> None" "routable (pr_config p)" "net_keeps_routable lib (pr_config p)" "\<And>q. returns (http q)"
  shows "returns (connection_serve lib now obs http conn p)"
proof -
  have call: "returns (call lib Overload [] (pr_rpc p))"
    using call_ends [OF assms(2,3), of Overload "[]"] by (auto simp: returns_def)
  have n: "returns (overload_notice lib now ans p)" for ans
    using call by (auto simp: overload_notice_def rpc_notify_overload_def returns_return Let_def intro!: returns_bind split: prod.split)
  have acc: "pr_acceptor q = pr_acceptor p" if "overload_notice lib now ans p = Some (Done q)" for ans q
    using that by (auto simp: overload_notice_def rpc_notify_overload_def run_return_def run_bind_Done Let_def split: prod.splits if_splits)
  obtain acceptor where a: "pr_acceptor p = Some acceptor" using assms(1) by blast
  have exchange: "returns (run_bind (http q) (\<lambda>p2. run_return (e, p2)))" for q and e :: serve_end
    by (rule returns_bind [OF assms(4) returns_return])
  show ?thesis
  proof (cases "ac_near_limit conn")
    case True
    then show ?thesis unfolding connection_serve_def
      by (auto simp: returns_return exchange acc a intro!: returns_bind [OF n])
  next
    case False
    then show ?thesis by (simp add: connection_serve_def returns_return exchange a)
  qed
qed

subsection \<open>Properties\<close>

text \<open>
  C13: No connection outlives its generation. Whatever sockets are accepted, whichever connections end or
  panic and in whatever order, when the server task returns the session registry counts only the guards
  that do not belong to it; and once the task is told to stop it does return when its connections have ended.
\<close>

theorem generation_drains:
  "(serve_loop False evs [] p = Some (r, p') \<and> registry_inv (pr_sessions p, others) \<longrightarrow> registry_inv (pr_sessions p', others))
   \<and> (list_all (\<lambda>ev. \<exists>ok. ev = Ev_joined 0 ok) ends \<and> length conns \<le> length ends \<longrightarrow> serve_loop True ends conns q \<noteq> None)"
  using serve_loop_inv [of False evs "[]" p r p' others] serve_loop_drains [of ends conns q] by (simp add: conns_inv_def)

definition sample_process :: process where
  "sample_process = \<lparr>
     pr_admission = \<lparr>ad_allow_normal_connections = True, ad_flood_control = [], ad_next_conn_id = 0,
       ad_session_manager = SessionManager_new Stats_new, ad_last_overload_notification = None\<rparr>,
     pr_transfers = TransferTasks_new Shutdown_default, pr_bwm = None, pr_acceptor = None, pr_cert_expiry = None,
     pr_generation = Some \<lparr>gen_stop = False, gen_task = Gen_serving []\<rparr>, pr_do_cert_refresh = True, pr_cert_notified = True,
     pr_rpc = RpcClient_new two_servers, pr_handler = sample_handler, pr_fs = []\<rparr>"

definition sample_conn :: AcceptedConnection where
  "sample_conn = \<lparr>ac_conn_id = 1, ac_cancel = 0, ac_pending_deadline = 0, ac_near_limit = False\<rparr>"

theorem generation_drains_witness:
  "registry_inv (pr_sessions (snd (the (serve_loop False [Ev_stop] [] sample_process))), [])
   \<and> serve_loop True [Ev_joined 0 True, Ev_joined 0 True] [sample_conn, sample_conn] sample_process \<noteq> None"
proof -
  let ?ends = "[Ev_joined 0 True, Ev_joined 0 True]"
  have s: "serve_loop False [Ev_stop] [] sample_process = Some (None, sample_process)" by simp
  have g: "registry_inv (pr_sessions sample_process, [])" by (simp add: sample_process_def registry_inv_new)
  have l: "list_all (\<lambda>ev. \<exists>ok. ev = Ev_joined 0 ok) ?ends" "length [sample_conn, sample_conn] \<le> length ?ends" by auto
  note t = generation_drains [of "[Ev_stop]" sample_process None sample_process "[]" ?ends "[sample_conn, sample_conn]" sample_process]
  have "serve_loop True ?ends [sample_conn, sample_conn] sample_process \<noteq> None" by (rule t [THEN conjunct2, rule_format, OF conjI, OF l])
  then show ?thesis using t [THEN conjunct1, rule_format, OF conjI, OF s g] unfolding s option.sel snd_conv by (rule conjI [rotated])
qed


definition sample_server :: "(simple_url, string) server_env" where
  "sample_server = \<lparr>se_lib = sample_lib, se_tls = sample_tls, se_now = 1000, se_rng = 0, se_os = sample_os, se_net = (\<lambda>u k. Inl ''down''),
     se_bind_v6 = True, se_bind_v4 = True\<rparr>"


end
