(* ===== verification/Hath_Tasks.thy ===== *)
theory Hath_Tasks
  imports Hath_Server
begin

text \<open>
  The periodic background tasks over the process state: \<^verbatim>\<open>tick_every\<close> of \<^verbatim>\<open>src/src/utils.rs\<close> and the callbacks the
  spawn functions give it. The cache pruner and the certificate watcher have loops of their own.
\<close>

subsection \<open>The timer loop\<close>

text \<open>
  What the loop selects after the first tick, which it skips; \<open>None\<close>: it still runs when the events end. The
  selection is fair, so ticks may come after the token is cancelled.
\<close>

datatype tick_event = Tick nat | Cancelled

fun tick_every :: "(nat \<Rightarrow> 's \<Rightarrow> 's run) \<Rightarrow> tick_event list \<Rightarrow> 's \<Rightarrow> 's run" where
  "tick_every f [] s = None"
| "tick_every f (Cancelled # es) s = run_return s"
| "tick_every f (Tick now # es) s = run_bind (f now s) (tick_every f es)"

subsection \<open>The callbacks\<close>

record 'u task_env =
  te_lib :: "nat \<Rightarrow> 'u rpc_lib"
  te_os :: os
  te_lru_free :: "nat \<Rightarrow> bool"

definition periodic_stats_tick :: "'u task_env \<Rightarrow> nat \<Rightarrow> process \<Rightarrow> process run" where
  "periodic_stats_tick env now p =
     (case periodic_stats (te_lru_free env now) (pr_handler p) of
        None \<Rightarrow> Some Panic
      | Some h \<Rightarrow> run_return (p\<lparr>pr_handler := h\<rparr>))"

definition flood_control_tick :: "nat \<Rightarrow> process \<Rightarrow> process run" where
  "flood_control_tick now p = run_return (p\<lparr>pr_admission := prune_flood_control now (pr_admission p)\<rparr>)"

definition session_reaper_tick :: "nat \<Rightarrow> process \<Rightarrow> process run" where
  "session_reaper_tick now p =
     run_return (p\<lparr>pr_admission := (pr_admission p)\<lparr>ad_session_manager := snd (nuke_old_connections now (pr_sessions p))\<rparr>\<rparr>)"

definition heartbeat_tick :: "'u task_env \<Rightarrow> nat \<Rightarrow> process \<Rightarrow> process run" where
  "heartbeat_tick env now p =
     run_bind (heartbeat (te_lib env now) (ch_stats (pr_handler p)) (pr_shutdown p) (pr_rpc p)) (\<lambda>(stats, sd, rpc).
       run_return (p\<lparr>pr_handler := (pr_handler p)\<lparr>ch_stats := stats\<rparr>, pr_transfers := (pr_transfers p)\<lparr>tt_shutdown := sd\<rparr>, pr_rpc := rpc\<rparr>))"

definition time_cert_tick :: "nat \<Rightarrow> process \<Rightarrow> process run" where
  "time_cert_tick now p = run_return (time_cert_check (int now) p)"

definition failure_clearer_tick :: "process \<Rightarrow> process run" where
  "failure_clearer_tick p = run_return (p\<lparr>pr_rpc := failure_clearer (pr_rpc p)\<rparr>)"

definition blacklist_fetcher_tick :: "'u task_env \<Rightarrow> nat \<Rightarrow> process \<Rightarrow> process run" where
  "blacklist_fetcher_tick env now p =
     run_bind (blacklist_tick (te_lib env now) (te_os env) (pr_rpc p) (pr_handler p, pr_fs p)) (\<lambda>(rpc, h, f).
       run_return (p\<lparr>pr_rpc := rpc, pr_handler := h, pr_fs := f\<rparr>))"

datatype periodic_task = Periodic_stats | Flood_control_pruner | Session_reaper | Still_alive_heartbeat | Time_cert_check
  | Rpc_failure_clearer | Blacklist_fetcher

fun task_tick :: "'u task_env \<Rightarrow> periodic_task \<Rightarrow> nat \<Rightarrow> process \<Rightarrow> process run" where
  "task_tick env Periodic_stats now p = periodic_stats_tick env now p"
| "task_tick env Flood_control_pruner now p = flood_control_tick now p"
| "task_tick env Session_reaper now p = session_reaper_tick now p"
| "task_tick env Still_alive_heartbeat now p = heartbeat_tick env now p"
| "task_tick env Time_cert_check now p = time_cert_tick now p"
| "task_tick env Rpc_failure_clearer now p = failure_clearer_tick p"
| "task_tick env Blacklist_fetcher now p = blacklist_fetcher_tick env now p"

text \<open>Any interleaving of the tasks: whose callback runs, and when.\<close>

fun run_ticks :: "'u task_env \<Rightarrow> (periodic_task \<times> nat) list \<Rightarrow> process \<Rightarrow> process run" where
  "run_ticks env [] p = run_return p"
| "run_ticks env ((task, now) # ticks) p = run_bind (task_tick env task now p) (run_ticks env ticks)"

text \<open>A task alone is such an interleaving, and it ends when the loop selects the cancelled token.\<close>

lemma tick_every_runs: "tick_every (task_tick env task) (map Tick ts @ Cancelled # es) p = run_ticks env (map (Pair task) ts) p"
proof (induction ts arbitrary: p)
  case (Cons t ts)
  then have "tick_every (task_tick env task) (map Tick ts @ Cancelled # es) = run_ticks env (map (Pair task) ts)" by blast
  then show ?case by simp
qed simp

subsection \<open>What the tasks leave alone\<close>

text \<open>The order in which shutdown states can follow each other: the first reason stays.\<close>

definition shutdown_le :: "Shutdown \<Rightarrow> Shutdown \<Rightarrow> bool" where
  "shutdown_le s s' \<longleftrightarrow> (is_cancelled s \<longrightarrow> is_cancelled s') \<and> (sd_reason s \<noteq> None \<longrightarrow> sd_reason s' = sd_reason s)"

lemma shutdown_le_fail: "shutdown_le s (shutdown_fail e s)"
  by (auto simp: shutdown_le_def shutdown_fail_def request_def is_cancelled_def split: option.split)

lemma shutdown_le_refl [simp]: "shutdown_le s s"
  by (simp add: shutdown_le_def)

lemma shutdown_le_trans: "shutdown_le a b \<Longrightarrow> shutdown_le b c \<Longrightarrow> shutdown_le a c"
  by (auto simp: shutdown_le_def)

definition undisturbed :: "process \<Rightarrow> process \<Rightarrow> bool" where
  "undisturbed p p' \<longleftrightarrow> pr_generation p' = pr_generation p \<and> pr_acceptor p' = pr_acceptor p \<and> pr_cert_expiry p' = pr_cert_expiry p
     \<and> ad_allow_normal_connections (pr_admission p') = ad_allow_normal_connections (pr_admission p)
     \<and> tt_inner (pr_transfers p') = tt_inner (pr_transfers p) \<and> tt_clean (pr_transfers p') = tt_clean (pr_transfers p)
     \<and> shutdown_le (pr_shutdown p) (pr_shutdown p')
     \<and> (\<forall>live. registry_inv (pr_sessions p, live) \<longrightarrow> registry_inv (pr_sessions p', live))"

lemma undisturbed_refl: "undisturbed p p"
  by (simp add: undisturbed_def)

lemma undisturbed_trans: "undisturbed p q \<Longrightarrow> undisturbed q r \<Longrightarrow> undisturbed p r"
  unfolding undisturbed_def by (auto intro: shutdown_le_trans)

lemma reaper_inv: "registry_inv (m, live) \<Longrightarrow> registry_inv (snd (nuke_old_connections now m), live)"
  using session_step_inv [of "(m, live)" "Nuke now"] by (simp add: session_step_def)

lemma heartbeat_shutdown:
  assumes "heartbeat lib stats sd s = Some (Done (stats', sd', s'))"
  shows "shutdown_le sd sd'"
proof -
  obtain r s1 where "still_alive lib False s = Some (Done (r, s1))"
    using assms by (auto simp: heartbeat_def run_bind_Done)
  then show ?thesis using assms
    by (cases r) (auto simp: heartbeat_def run_return_def Let_def shutdown_le_fail split: if_splits)
qed

lemma task_tick_undisturbed:
  assumes "task_tick env task now p = Some (Done p')"
  shows "undisturbed p p'"
proof (cases task)
  case Still_alive_heartbeat
  then show ?thesis using assms heartbeat_shutdown
    by (auto simp: heartbeat_tick_def run_bind_Done run_return_def undisturbed_def)
next
  case Time_cert_check
  then show ?thesis using assms
    by (auto simp: time_cert_tick_def time_cert_check_def fail_process_def run_return_def undisturbed_def shutdown_le_fail split: option.splits if_splits)
qed (use assms in \<open>auto simp: periodic_stats_tick_def flood_control_tick_def prune_flood_control_def session_reaper_tick_def
    failure_clearer_tick_def blacklist_fetcher_tick_def run_bind_Done run_return_def undisturbed_def reaper_inv split: option.splits\<close>)

lemma run_ticks_undisturbed: "run_ticks env ticks p = Some (Done p') \<Longrightarrow> undisturbed p p'"
proof (induction env ticks p rule: run_ticks.induct)
  case (2 env task now ticks p)
  then obtain q where q: "task_tick env task now p = Some (Done q)" "run_ticks env ticks q = Some (Done p')"
    by (auto simp: run_bind_Done)
  then show ?case using "2.IH" task_tick_undisturbed undisturbed_trans by blast
qed (simp add: run_return_def undisturbed_refl)

lemma expiry_tick_cancels:
  assumes "run_ticks env ticks p = Some (Done p')" "(Time_cert_check, now) \<in> set ticks" "pr_cert_expiry p = Some e" "is_cert_expired (int now) e"
  shows "is_cancelled (pr_shutdown p')"
  using assms(1-3)
proof (induction env ticks p rule: run_ticks.induct)
  case (2 env task t ticks p)
  obtain q where q: "task_tick env task t p = Some (Done q)" "run_ticks env ticks q = Some (Done p')"
    using "2.prems"(1) by (auto simp: run_bind_Done)
  show ?case
  proof (cases "task = Time_cert_check \<and> t = now")
    case True
    then have "is_cancelled (pr_shutdown q)" using q(1) "2.prems"(3) assms(4)
      by (auto simp: time_cert_tick_def time_cert_check_def run_return_def fail_process_cancels)
    then show ?thesis using run_ticks_undisturbed [OF q(2)] by (simp add: undisturbed_def shutdown_le_def)
  next
    case False
    have "pr_cert_expiry q = Some e" using task_tick_undisturbed [OF q(1)] "2.prems"(3) by (simp add: undisturbed_def)
    then show ?thesis using "2.IH" [OF q] "2.prems"(2) False by auto
  qed
qed (simp add: run_return_def)

subsection \<open>Properties\<close>



end
