(* ===== verification/Hath_Client.thy ===== *)
theory Hath_Client
  imports Hath_Server
begin

text \<open>
  The life of the client, \<^verbatim>\<open>src/src/client.rs\<close>: configuration, start-up against the RPC server, normal
  operation until a shutdown is requested or something fails, and the ordered shutdown that ends with the
  snapshot of the cache. The process may be asked to stop, and its other tasks may change its state, between
  any two steps: that is the parameter of \<open>between\<close>.
\<close>

record ('u, 'p) client_env =
  ce_server :: "('u, 'p) server_env"
  ce_codec :: codec
  ce_work :: "nat \<Rightarrow> process \<Rightarrow> process"
  ce_external :: "nat \<Rightarrow> ShutdownReason option"
  ce_start_time :: nat
  ce_failure :: "(nat \<times> string) option"
  ce_handle :: "string \<Rightarrow> join_result option"
  ce_stop_timeout :: bool
  ce_drain :: gen_end
  ce_transfer_ends :: "drain_event list"

abbreviation ce_lib :: "('u, 'p) client_env \<Rightarrow> 'u rpc_lib" where
  "ce_lib env \<equiv> se_lib (ce_server env)"

abbreviation ce_os :: "('u, 'p) client_env \<Rightarrow> os" where
  "ce_os env \<equiv> se_os (ce_server env)"

definition between :: "('u, 'p) client_env \<Rightarrow> nat \<Rightarrow> process \<Rightarrow> process" where
  "between env k p =
     (case ce_external env k of
        None \<Rightarrow> ce_work env k p
      | Some reason \<Rightarrow> set_transfers (\<lambda>t. t\<lparr>tt_shutdown := request reason (tt_shutdown t)\<rparr>) (ce_work env k p))"

subsection \<open>Before the cache\<close>

definition has_credentials :: "Config \<Rightarrow> bool" where
  "has_credentials c \<longleftrightarrow> 0 < client_id_val (cfg_client_id c) \<and> key_str (cfg_client_key c) \<noteq> []"

definition credentials_valid :: "Config \<Rightarrow> bool" where
  "credentials_valid c \<longleftrightarrow> \<not> (client_id_val (cfg_client_id c) < 1000 \<or> length (key_str (cfg_client_key c)) \<noteq> 20)"

text \<open>The initial status and the login, each followed by the settings in the answer.\<close>

definition apply_response :: "'u rpc_lib \<Rightarrow> ServerResponse \<Rightarrow> RpcClient \<Rightarrow> RpcClient run" where
  "apply_response lib sr rpc =
     (case apply_server_response (lib_now lib) sr (rc_config rpc) of
        None \<Rightarrow> Some Exit
      | Some c \<Rightarrow> run_return (rpc\<lparr>rc_config := c\<rparr>))"

definition initialize :: "'u rpc_lib \<Rightarrow> RpcClient \<Rightarrow> (unit res \<times> RpcClient) run" where
  "initialize lib rpc =
     run_bind (server_stat lib rpc) (\<lambda>(r, rpc1).
       case r of
         Inl e \<Rightarrow> run_return (Inl e, rpc1)
       | Inr stat_resp \<Rightarrow>
           if sr_status stat_resp \<noteq> Status_Ok then run_return (Inl (Rpc ''Failed to get initial stat from server''), rpc1)
           else run_bind (apply_response lib stat_resp rpc1) (\<lambda>rpc2.
             run_bind (rpc_client_login lib rpc2) (\<lambda>(r, rpc3).
               case r of
                 Inl e \<Rightarrow> run_return (Inl e, rpc3)
               | Inr login_resp \<Rightarrow>
                   if sr_status login_resp \<noteq> Status_Ok
                   then run_return (Inl (Rpc (''Login failed: '' @ unwrap_or (sr_fail_code login_resp) [])), rpc3)
                   else run_bind (apply_response lib login_resp rpc3) (\<lambda>rpc4.
                     run_return (case image_proxy lib (rc_config rpc4) of Inl e \<Rightarrow> Inl e | Inr _ \<Rightarrow> Inr (), rpc4)))))"

subsection \<open>Start-up and normal operation\<close>

definition startup_failure :: "string \<Rightarrow> HathError option" where
  "startup_failure code =
     (if starts_with ''FAIL_OTHER_CLIENT_CONNECTED'' code \<or> starts_with ''FAIL_CID_IN_USE'' code then Some (Fatal code)
      else if starts_with ''FAIL_CONNECT_TEST'' code then None
      else Some (Fatal (''Unexpected client_start failure: '' @ code)))"

definition background_names :: "string list" where
  "background_names = [''cache-pruner'', ''cache-periodic-stats'', ''flood-control-pruner'', ''session-reaper'',
     ''still-alive-heartbeat'', ''time-cert-check'', ''rpc-failure-clearer'', ''blacklist-fetcher'', ''cert-refresh-watcher'']"

definition spawn_background_tasks :: "('u, 'p) client_env \<Rightarrow> BackgroundTask list" where
  "spawn_background_tasks env = map (\<lambda>n. \<lparr>bt_name = n, bt_handle = ce_handle env n\<rparr>) background_names"

record client_run =
  cr_process :: process
  cr_tasks :: "BackgroundTask list option"
  cr_report :: bool
  cr_error :: "HathError option"

text \<open>Waiting for a shutdown; a process nobody stops never gets past it.\<close>

definition until_shutdown :: "('u, 'p) client_env \<Rightarrow> nat \<Rightarrow> client_run \<Rightarrow> client_run run" where
  "until_shutdown env k r =
     (let p = between env k (cr_process r) in
      if is_cancelled (pr_shutdown p) then run_return (r\<lparr>cr_process := p\<rparr>) else None)"

definition refresh_after_start :: "('u, 'p) client_env \<Rightarrow> process \<Rightarrow> process run" where
  "refresh_after_start env p =
     run_bind (refresh_settings (ce_lib env) (pr_rpc p)) (\<lambda>(r, rpc).
       case r of
         Inl _ \<Rightarrow> run_return (p\<lparr>pr_rpc := rpc\<rparr>)
       | Inr sr \<Rightarrow>
           if sr_status sr = Status_Ok
           then run_bind (apply_response (ce_lib env) sr rpc) (\<lambda>rpc1. run_return (p\<lparr>pr_rpc := rpc1\<rparr>))
           else run_return (p\<lparr>pr_rpc := rpc\<rparr>))"

definition normal_operation :: "('u, 'p) client_env \<Rightarrow> process \<Rightarrow> client_run run" where
  "normal_operation env p =
     (let h = pr_handler p;
          p1 = (set_allow True p)\<lparr>pr_handler := h\<lparr>ch_stats := program_started (ce_start_time env) (ch_stats h)\<rparr>\<rparr>
      in run_bind (refresh_after_start env p1) (\<lambda>p2.
           let p3 = between env 4 p2 in
           if is_cancelled (pr_shutdown p3) then run_return \<lparr>cr_process = p3, cr_tasks = None, cr_report = True, cr_error = None\<rparr>
           else run_bind (fetch_initial (ce_lib env) (ce_os env) (pr_rpc p3) (pr_handler p3, pr_fs p3)) (\<lambda>(rpc, h, f).
             let p4 = between env 5 (p3\<lparr>pr_rpc := rpc, pr_handler := h, pr_fs := f\<rparr>) in
             if is_cancelled (pr_shutdown p4) then run_return \<lparr>cr_process = p4, cr_tasks = None, cr_report = True, cr_error = None\<rparr>
             else
               let tasks = spawn_background_tasks env in
               case (case ce_failure env of None \<Rightarrow> None | Some (i, result) \<Rightarrow> wait_for_failure i result tasks) of
                 Some (e, rest) \<Rightarrow>
                   run_return \<lparr>cr_process = set_transfers invalidate (between env 6 p4), cr_tasks = Some rest, cr_report = True, cr_error = Some e\<rparr>
               | None \<Rightarrow> until_shutdown env 6 \<lparr>cr_process = p4, cr_tasks = Some tasks, cr_report = True, cr_error = None\<rparr>)))"

definition operation :: "('u, 'p) client_env \<Rightarrow> process \<Rightarrow> client_run run" where
  "operation env p =
     (let p0 = between env 0 p;
          stopped = (\<lambda>q. \<lparr>cr_process = q, cr_tasks = None, cr_report = False, cr_error = None\<rparr>)
      in if is_cancelled (pr_shutdown p0) then run_return (stopped p0)
         else case start_server (ce_server env) (ce_external env 1) p0 of
             (Inl e, p1) \<Rightarrow> run_return ((stopped p1)\<lparr>cr_error := Some e\<rparr>)
           | (Inr _, p1) \<Rightarrow>
               let p2 = between env 2 p1 in
               if is_cancelled (pr_shutdown p2) then run_return (stopped p2)
               else run_bind (client_start (ce_lib env) (pr_rpc p2)) (\<lambda>(r, rpc).
                 let p3 = between env 3 (p2\<lparr>pr_rpc := rpc\<rparr>) in
                 if is_cancelled (pr_shutdown p3) then run_return (stopped p3)
                 else case r of
                     Inl e \<Rightarrow> run_return ((stopped p3)\<lparr>cr_error := Some e\<rparr>)
                   | Inr start_resp \<Rightarrow>
                       if sr_status start_resp = Status_Ok then normal_operation env p3
                       else (case startup_failure (unwrap_or (sr_fail_code start_resp) []) of
                               Some e \<Rightarrow> run_return ((stopped p3)\<lparr>cr_error := Some e\<rparr>)
                             | None \<Rightarrow> until_shutdown env 4 (stopped p3))))"

subsection \<open>Shutdown\<close>

definition save_shutdown_cache :: "os \<Rightarrow> codec \<Rightarrow> Config \<Rightarrow> bool \<Rightarrow> CacheHandler \<times> fs \<Rightarrow> unit res \<times> CacheHandler \<times> fs" where
  "save_shutdown_cache os x c quiescent hf =
     (if \<not> quiescent then (Inl (Fatal ''shutdown left unfinished cache work''), discard_persistent_data os c hf)
      else case save_persistent_data os x c hf of
          (True, hf1) \<Rightarrow> (Inr (), hf1)
        | (False, hf1) \<Rightarrow> (Inl (Cache_error ''failed to save the final cache snapshot''), hf1))"

text \<open>The notice to the server, whose answer is only logged; a time-out leaves the request unanswered.\<close>

definition notify_stop :: "('u, 'p) client_env \<Rightarrow> bool \<Rightarrow> process \<Rightarrow> process run" where
  "notify_stop env report p =
     (if report \<and> \<not> ce_stop_timeout env
      then run_bind (client_stop (ce_lib env) (pr_rpc p)) (\<lambda>(_, rpc). run_return (p\<lparr>pr_rpc := rpc\<rparr>))
      else run_return p)"

definition shutdown_sequence :: "('u, 'p) client_env \<Rightarrow> client_run \<Rightarrow> (unit res \<times> process) run" where
  "shutdown_sequence env r =
     (let p0 = (case cr_error r of None \<Rightarrow> cr_process r | Some e \<Rightarrow> fail_process e (cr_process r)) in
      run_bind (notify_stop env (cr_report r) (set_allow False p0)) (\<lambda>p1.
        let background_clean = (case cr_tasks r of None \<Rightarrow> True | Some tasks \<Rightarrow> jr_clean (join_for tasks));
            (server_clean, p2) = stop_server (ce_drain env) (between env 7 p1);
            p3 = ce_work env 8 p2;
            (transfers_clean, t) = finish (ce_transfer_ends env) (pr_transfers p3);
            c = pr_config p3;
            (persistence, h, f) = save_shutdown_cache (ce_os env) (ce_codec env) c (background_clean \<and> server_clean \<and> transfers_clean)
              (pr_handler p3, pr_fs p3);
            f1 = snd (save_client_login (ce_os env) f c);
            (res, sd) = shutdown_result (tt_shutdown t)
        in run_return (case res of Inl e \<Rightarrow> Inl e | Inr _ \<Rightarrow> persistence,
                       p3\<lparr>pr_transfers := t\<lparr>tt_shutdown := sd\<rparr>, pr_handler := h, pr_fs := f1\<rparr>)))"

definition run_with_cache :: "('u, 'p) client_env \<Rightarrow> process \<Rightarrow> (unit res \<times> process) run" where
  "run_with_cache env p = run_bind (operation env p) (shutdown_sequence env)"

subsection \<open>The whole run\<close>

text \<open>The state with which the server is started.\<close>

definition fresh_process :: "RpcClient \<Rightarrow> CacheHandler \<Rightarrow> Shutdown \<Rightarrow> fs \<Rightarrow> process" where
  "fresh_process rpc h sd f = \<lparr>
     pr_admission = \<lparr>ad_allow_normal_connections = False, ad_flood_control = [], ad_next_conn_id = 0,
       ad_session_manager = SessionManager_new (ch_stats h), ad_last_overload_notification = None\<rparr>,
     pr_transfers = TransferTasks_new sd, pr_bwm = None, pr_acceptor = None, pr_cert_expiry = None, pr_generation = None,
     pr_do_cert_refresh = False, pr_cert_notified = False, pr_rpc = rpc, pr_handler = h, pr_fs = f\<rparr>"

text \<open>\<open>interrupt\<close>: a request that arrives while the client initialises.\<close>

definition client_run_all :: "('u, 'p) client_env \<Rightarrow> string \<Rightarrow> CliArgs \<Rightarrow> ShutdownReason option \<Rightarrow> fs \<Rightarrow> (unit res \<times> fs) run" where
  "client_run_all env started args interrupt f =
     (case load (ce_os env) f args of
        Inl e \<Rightarrow> run_return (Inl e, f)
      | Inr c \<Rightarrow>
          (case initialize_directories (ce_os env) f c of
             (Some e, f1) \<Rightarrow> run_return (Inl e, f1)
           | (None, f1) \<Rightarrow>
               (case subscriber (ce_os env) started (cfg_log_dir c) c f1 of
                  (Inl _, f2) \<Rightarrow> run_return (Inl (Io ''logging''), f2)
                | (Inr _, f2) \<Rightarrow>
                    let f3 = (if has_credentials c then snd (save_client_login (ce_os env) f2 c) else f2) in
                    if \<not> credentials_valid c then run_return (Inl (Config_error ''Invalid credentials''), f3)
                    else case interrupt of
                        Some reason \<Rightarrow> run_return (fst (shutdown_result (request reason Shutdown_default)), f3)
                      | None \<Rightarrow>
                          run_bind (initialize (ce_lib env) (RpcClient_new c)) (\<lambda>(r, rpc).
                            case r of
                              Inl e \<Rightarrow> run_return (Inl e, f3)
                            | Inr _ \<Rightarrow>
                                (case CacheHandler_new (ce_os env) (ce_codec env) (ce_start_time env) (rc_config rpc) Stats_new f3 of
                                   (Inl e, _, f4) \<Rightarrow> run_return (Inl e, f4)
                                 | (Inr h, _, f4) \<Rightarrow>
                                     run_bind (run_with_cache env (fresh_process rpc h Shutdown_default f4))
                                       (\<lambda>(res, p). run_return (res, pr_fs p)))))))"

datatype ExitCode = EXIT_SUCCESS | EXIT_FAILURE

definition main_exit :: "unit res \<Rightarrow> ExitCode" where
  "main_exit r = (case r of Inr _ \<Rightarrow> EXIT_SUCCESS | Inl _ \<Rightarrow> EXIT_FAILURE)"

subsection \<open>What a shutdown leaves\<close>

text \<open>Writing the credentials does not touch the snapshot beside them.\<close>

lemma login_frame:
  assumes "n \<noteq> ''client_login''"
  shows "fs_get (snd (save_client_login os f c)) (cfg_data_dir c @ [n]) = fs_get f (cfg_data_dir c @ [n])"
proof -
  let ?q = "cfg_data_dir c @ [n]"
  have "length q \<le> length (cfg_data_dir c)" if "q \<in> set (prefixes (cfg_data_dir c))" for q
    using that by (auto simp: prefixes_def)
  then have "?q \<notin> set (prefixes (cfg_data_dir c))" by force
  then have e: "fs_get (snd (ensure_dir os f (cfg_data_dir c))) ?q = fs_get f ?q" by (rule ensure_dir_frame) simp
  obtain r f1 where d: "ensure_dir os f (cfg_data_dir c) = (r, f1)" by force
  have w: "fs_get (snd (fs_write os f1 (cfg_data_dir c @ [''client_login'']) content)) ?q = fs_get f1 ?q" for content
    using assms by (intro fs_write_frame) simp
  obtain r2 f2 where s: "fs_write os f1 (cfg_data_dir c @ [''client_login'']) (login_text (cfg_client_id c) (cfg_client_key c)) = (r2, f2)"
    by force
  show ?thesis using e w [of "login_text (cfg_client_id c) (cfg_client_key c)"]
    by (cases r; cases r2) (simp_all add: save_client_login_def d s)
qed

lemma login_keeps_snapshot: "try_load os' x (snd (save_client_login os f c)) c = try_load os' x f c"
  by (rule try_load_cong) (simp add: login_frame)

lemma finish_result:
  assumes "finish es t = (clean, t')"
  shows "tt_inner t' = None \<and> (tt_clean t' \<longleftrightarrow> clean)"
  using assms by (auto simp: finish_def Let_def split: option.splits)

lemma shutdown_cache_result:
  assumes "save_shutdown_cache os x c quiescent (h, f) = (res, h', f')" "codec_ok x" "\<forall>p. \<not> os_denied os' Read p"
  shows "(res = Inr () \<longrightarrow> quiescent \<and> try_load os' x f' c = Some (snapshot h'))
    \<and> (\<not> quiescent \<longrightarrow> res \<noteq> Inr () \<and> \<not> ch_persistent_state_valid h')"
proof (cases quiescent)
  case True
  have "try_load os' x f1 c = Some (snapshot h1)" if "save_persistent_data os x c (h, f) = (True, h1, f1)" for h1 f1
    using that load_after_save [OF _ assms(2,3)]
    by (auto simp: save_persistent_data_def split: if_splits prod.splits option.splits)
  then show ?thesis using assms(1) True by (auto simp: save_shutdown_cache_def split: prod.splits bool.splits)
next
  case False
  then show ?thesis using assms(1) by (auto simp: save_shutdown_cache_def discard_persistent_data_def)
qed

lemma shutdown_sequence_result:
  assumes "shutdown_sequence env r = Some (Done (res, p'))" "codec_ok (ce_codec env)" "\<forall>p. \<not> os_denied os' Read p"
  shows "tt_inner (pr_transfers p') = None
    \<and> (res = Inr () \<longrightarrow> tt_clean (pr_transfers p') \<and> try_load os' (ce_codec env) (pr_fs p') (pr_config p') = Some (snapshot (pr_handler p')))
    \<and> (\<not> tt_clean (pr_transfers p') \<longrightarrow> res \<noteq> Inr () \<and> \<not> ch_persistent_state_valid (pr_handler p'))"
proof -
  define p0 where "p0 = (case cr_error r of None \<Rightarrow> cr_process r | Some e \<Rightarrow> fail_process e (cr_process r))"
  define bg where "bg = (case cr_tasks r of None \<Rightarrow> True | Some tasks \<Rightarrow> jr_clean (join_for tasks))"
  obtain p1 where n: "notify_stop env (cr_report r) (set_allow False p0) = Some (Done p1)"
    using assms(1) by (auto simp: shutdown_sequence_def p0_def run_bind_Done Let_def)
  obtain sc p2 where s: "stop_server (ce_drain env) (between env 7 p1) = (sc, p2)" by force
  define p3 where "p3 = ce_work env 8 p2"
  obtain tc t where t: "finish (ce_transfer_ends env) (pr_transfers p3) = (tc, t)" by force
  obtain pers h f where c: "save_shutdown_cache (ce_os env) (ce_codec env) (pr_config p3) (bg \<and> sc \<and> tc) (pr_handler p3, pr_fs p3) = (pers, h, f)"
    using prod_cases3 by blast
  obtain rr sd where sr: "shutdown_result (tt_shutdown t) = (rr, sd)" by force
  have e: "res = (case rr of Inl e \<Rightarrow> Inl e | Inr _ \<Rightarrow> pers)"
    "p' = p3\<lparr>pr_transfers := t\<lparr>tt_shutdown := sd\<rparr>, pr_handler := h, pr_fs := snd (save_client_login (ce_os env) f (pr_config p3))\<rparr>"
    using assms(1) unfolding shutdown_sequence_def p0_def [symmetric] Let_def bg_def [symmetric] n run_bind_simps s prod.case
      p3_def [symmetric] t c sr run_return_def by simp_all
  show ?thesis using shutdown_cache_result [OF c assms(2,3)] finish_result [OF t] login_keeps_snapshot
    by (auto simp: e split: sum.splits)
qed

text \<open>
  C1: The exit code tells the truth about the cache. However the process was stopped and whatever its other
  tasks did meanwhile, when \<^verbatim>\<open>run_with_cache\<close> returns no transfer task is left; exit code success means that every
  transfer ended cleanly and that the next start will load exactly the final state of the cache; and when
  the transfers did not end cleanly the exit code is failure and the cache state is marked invalid.
\<close>

theorem exit_code_honest:
  assumes "run_with_cache env p = Some (Done (res, p'))" "codec_ok (ce_codec env)" "\<forall>p. \<not> os_denied os' Read p"
  shows "tt_inner (pr_transfers p') = None
    \<and> (main_exit res = EXIT_SUCCESS \<longrightarrow>
         tt_clean (pr_transfers p') \<and> try_load os' (ce_codec env) (pr_fs p') (pr_config p') = Some (snapshot (pr_handler p')))
    \<and> (\<not> tt_clean (pr_transfers p') \<longrightarrow> main_exit res = EXIT_FAILURE \<and> \<not> ch_persistent_state_valid (pr_handler p'))"
proof -
  obtain r where "shutdown_sequence env r = Some (Done (res, p'))"
    using assms(1) by (auto simp: run_with_cache_def run_bind_Done)
  from shutdown_sequence_result [OF this assms(2,3)] show ?thesis by (cases res) (auto simp: main_exit_def)
qed

definition sample_client :: "(simple_url, string) client_env" where
  "sample_client = \<lparr>ce_server = sample_server, ce_codec = fresh_codec, ce_work = (\<lambda>k p. p),
     ce_external = (\<lambda>k. if k = 0 then Some (Signal ''TERM'') else None), ce_start_time = 0, ce_failure = None,
     ce_handle = (\<lambda>n. None), ce_stop_timeout = False, ce_drain = Task_finished, ce_transfer_ends = []\<rparr>"

theorem exit_code_honest_witness:
  "\<exists>p'. run_with_cache sample_client (fresh_process (RpcClient_new sample_config) sample_handler Shutdown_default sample_fs) = Some (Done (Inr (), p'))
     \<and> try_load sample_os fresh_codec (pr_fs p') (pr_config p') = Some (snapshot (pr_handler p'))"
proof -
  let ?p = "fresh_process (RpcClient_new sample_config) sample_handler Shutdown_default sample_fs"
  have codec: "ce_codec sample_client = fresh_codec" "ce_os sample_client = sample_os" by (simp_all add: sample_client_def sample_server_def)
  have sv: "save_shutdown_cache sample_os fresh_codec sample_config True (sample_handler, sample_fs) = (Inr (), sample_handler, saved_fs)"
    by (simp add: save_shutdown_cache_def save_persistent_data_def saved_fs_ok) (simp add: sample_handler_def)
  have op: "operation sample_client ?p = run_return \<lparr>cr_process = between sample_client 0 ?p, cr_tasks = None, cr_report = False, cr_error = None\<rparr>"
    by (simp add: operation_def sample_client_def between_def request_cancels Let_def)
  have p0: "between sample_client 0 ?p = ?p\<lparr>pr_transfers := TransferTasks_new \<lparr>sd_cancelled = True, sd_reason = Some (Signal ''TERM'')\<rparr>\<rparr>"
    by (simp add: between_def sample_client_def fresh_process_def TransferTasks_new_def request_def Shutdown_default_def)
  have "\<exists>p'. run_with_cache sample_client ?p = Some (Done (Inr (), p'))"
    unfolding run_with_cache_def op run_bind_simps shutdown_sequence_def p0 notify_stop_def codec
    by (simp add: Let_def between_def stop_server_def stop_begin_def stop_wait_def set_allow_def finish_def TransferTasks_new_def sv
        shutdown_result_def RpcClient_new_def fresh_process_def run_return_def)
      (simp add: sample_client_def finish_def shutdown_result_def sv)
  then obtain p' where p': "run_with_cache sample_client ?p = Some (Done (Inr (), p'))" by blast
  have "\<forall>p. \<not> os_denied sample_os Read p" by (simp add: sample_os_def)
  from exit_code_honest [OF p' _ this] show ?thesis using p' by (auto simp: codec fresh_codec_ok main_exit_def)
qed

end
