(* ===== verification/Spec2Isabelle.thy ===== *)
theory Spec2Isabelle
  imports Hath_Pruner Hath_Migrate Hath_Tasks Hath_Client
begin

text \<open>
  A verification development of hath-rs, a Hentai@Home client: a cache server that is told what to cache by
  RPC servers, serves files to clients over TLS, fetches missing files on demand, downloads galleries and
  keeps a snapshot of its cache across restarts. All paths below are under \<^verbatim>\<open>src/src/\<close> unless they start
  with \<^verbatim>\<open>crates/\<close>.

  \<^bold>\<open>The program and its parts.\<close> \<^verbatim>\<open>main.rs\<close> runs \<^verbatim>\<open>client.rs\<close>: the configuration is read, the RPC servers are asked
  for settings, the cache is opened, one listener generation is started and the process serves until a signal
  or a failure requests the shutdown; then admission stops, tasks, connections and transfers are drained in
  that order and the cache is saved. A connection passes admission and the session registry, its request is
  parsed and its signature checked, a handler makes a response, and a streaming body sends it under the
  bandwidth monitor's quota while the access log watches. Periodic tasks run beside that. The migration tool
  in \<^verbatim>\<open>crates/pcache-migrate\<close> writes a snapshot the client can load.

  \<^bold>\<open>Theories.\<close> Each theory holds the records, operations, invariants and properties of one part.
  \<^item> \<open>Hath_Prelude\<close>: words, checked and saturating arithmetic, the string operations of the standard library, and
    the locales \<open>invariant_machine\<close> and \<open>panic_free_machine\<close> for components driven by sequences of events.
  \<^item> \<open>Hath_Types\<close>, \<open>Hath_File\<close>, \<open>Hath_Utils\<close>, \<open>Hath_Fs\<close>: \<^verbatim>\<open>types.rs\<close>, \<^verbatim>\<open>hvfile.rs\<close>, \<^verbatim>\<open>utils.rs\<close>, \<^verbatim>\<open>error.rs\<close>; the file
    system is an association list from paths to nodes, and the record \<open>os\<close> says which operations are refused.
    The locale \<open>region_scan\<close> relates a directory walk that deletes on its way to a fold over what it found.
  \<^item> \<open>Hath_Config\<close>, \<open>Hath_Stats\<close>, \<open>Hath_Logging\<close>: \<^verbatim>\<open>config.rs\<close>, \<^verbatim>\<open>stats.rs\<close>, \<^verbatim>\<open>logging.rs\<close>.
  \<^item> \<open>Hath_Lru\<close>, \<open>Hath_Persistent\<close>, \<open>Hath_Startup\<close>, \<open>Hath_Cache\<close>, \<open>Hath_Pruner\<close>: \<^verbatim>\<open>cache/\<close>. Locales: \<open>recency_set\<close> (the
    bit table refines a set) and \<open>accounting\<close> (counters that are exact while valid).
  \<^item> \<open>Hath_Rpc\<close>, \<open>Hath_Router\<close>, \<open>Hath_RpcClient\<close>: \<^verbatim>\<open>rpc.rs\<close> and \<^verbatim>\<open>rpc_client.rs\<close>. A computation that may panic, exit or
    never return has the type \<open>'a run\<close>: \<open>None\<close> is not returning.
  \<^item> \<open>Hath_Bandwidth\<close>, \<open>Hath_Downloader\<close>, \<open>Hath_Upstream\<close>, \<open>Hath_Proxy\<close>: \<^verbatim>\<open>bandwidth.rs\<close>, \<^verbatim>\<open>downloader.rs\<close>,
    \<^verbatim>\<open>proxy_downloader.rs\<close> and \<^verbatim>\<open>proxy_downloader/transfer.rs\<close>. The interleaving of a download with the body that
    serves it is the step relation \<open>stream_step\<close>.
  \<^item> \<open>Hath_Metadata\<close>, \<open>Hath_Gallery\<close>: \<^verbatim>\<open>gallery_downloader.rs\<close>. \<open>Hath_Shutdown\<close>: \<^verbatim>\<open>shutdown.rs\<close>, \<^verbatim>\<open>tasks.rs\<close> and the
    task list of \<^verbatim>\<open>client.rs\<close>.
  \<^item> \<open>Hath_Session\<close>, \<open>Hath_Admission\<close>, \<open>Hath_Request\<close>, \<open>Hath_Body\<close>, \<open>Hath_Response\<close>, \<open>Hath_SpeedTest\<close>, \<open>Hath_Handler\<close>,
    \<open>Hath_AccessLog\<close>: \<^verbatim>\<open>server/\<close> from the accepted socket to the last byte. The locale \<open>body_invariant\<close> proves once
    that an invariant of one round of a body holds over all rounds; it is interpreted for the quota, cached
    files, proxied files and the access log's books.
  \<^item> \<open>Hath_Tls\<close>, \<open>Hath_Server\<close>, \<open>Hath_Tasks\<close>, \<open>Hath_Client\<close>: \<^verbatim>\<open>server/tls.rs\<close>, \<^verbatim>\<open>tls/\<close>, \<^verbatim>\<open>server/mod.rs\<close>,
    \<^verbatim>\<open>server/connection.rs\<close>, the periodic tasks and the life of the process, over the record \<open>process\<close> that joins
    the states of the components.
  \<^item> \<open>Hath_Hpcache\<close>, \<open>Hath_Migrate\<close>: \<^verbatim>\<open>crates/pcache-migrate/src\<close>, with the locale \<open>stream_field\<close> for fields that are
    read back exactly as written.

  \<^bold>\<open>What is shown.\<close> The process: its exit code tells whether the snapshot is complete, the snapshot loads as it
  was saved, an interrupted save is never loaded, transfers are drained, a generation leaves no session behind,
  a certificate refresh never leaves the server silently stopped and periodic tasks disturb nothing. Requests:
  every request is answered, effects need a signature, signatures and admission are decided as specified,
  cached files are delivered exactly, proxied files only verified, traffic and log lines are counted once.
  Cache: counters are exact, the rescan counts what it keeps, pruning deletes only old files. Downloads and
  galleries: what is stored was verified and lies in its directory. Libraries of the program: file ids, the
  recency table, the rate limits, flood control, host selection, certificate chains, log rotation and the
  migration protocol. A few theorems show defects of the code; they are listed with the findings.

  \<^bold>\<open>Parameters and bounds.\<close> SHA-1, SHA-256, bincode, the URL, X.509 and PKCS12 libraries, the HTTP client's
  answers, the operating system's decisions, clocks and random numbers are arguments (\<open>digest\<close>, \<open>codec\<close>,
  \<open>rpc_lib\<close>, \<open>tls_lib\<close>, \<open>os\<close> and others); what a property needs of them is a hypothesis, for instance \<open>codec_ok\<close>,
  that what bincode wrote it reads back. Loops of the source are functions with a termination proof, except
  the few that may not end, which are partial functions with \<open>None\<close> for not returning, and loops that wait for
  events, which run over the list of events that happen; where the code must get out of such a loop it is
  shown that enough events end it.
  Concurrent tasks share state only through locks and atomics, so they are interleavings of atomic steps;
  relaxed memory orders are not distinguished.

  \<^bold>\<open>Not modelled.\<close> The TLS handshake, sockets and the HTTP parser, which are libraries (\<^verbatim>\<open>server/transport.rs\<close> and the
  client configurations only call them), the floating point numbers of log lines and of the average rate,
  the texts of diagnostics, the command line parser, the registration of signal handlers, and the fixtures of
  the tests.
\<close>

end
